(* ===== verification/Prelude.thy ===== *)
theory Prelude
  imports Main "HOL-Library.Word" "HOL-Library.Char_ord" "HOL-Library.List_Lexorder"
begin

text \<open>
  Shared vocabulary of the development: Go error values and panics, the
  string and map operations of the standard library the sources call, byte
  strings with their little-endian integer views, and the generic lemmas the
  component theories rest on.
\<close>

unbundle bit_operations_syntax

named_theorems go_simps \<open>evaluation rules for Go results\<close>
named_theorems le_simps \<open>little-endian encoding and decoding rules\<close>

subsection \<open>Errors and panics\<close>

text \<open>
  Go errors are values. The two sentinels of \<^verbatim>\<open>internal/state/store.go\<close> keep their
  identity through \<^verbatim>\<open>%w\<close> wrapping, so wrapping is a constructor and
  \<^verbatim>\<open>errors.Is\<close> looks through it.
\<close>

datatype error =
    ErrNotFound
  | ErrConflict
  | Errorf string
  | Wrap string error

fun errors_is :: "error \<Rightarrow> error \<Rightarrow> bool" where
  "errors_is (Wrap m e) t = (Wrap m e = t \<or> errors_is e t)"
| "errors_is e t = (e = t)"

type_synonym 'a result = "error + 'a"

text \<open>A run-time panic ends the process, so it is kept apart from an error value.\<close>

datatype 'a outcome = Ret 'a | Panic string

fun outcome_bind :: "'a outcome \<Rightarrow> ('a \<Rightarrow> 'b outcome) \<Rightarrow> 'b outcome" where
  "outcome_bind (Ret x) f = f x"
| "outcome_bind (Panic m) f = Panic m"

definition panics :: "'a outcome \<Rightarrow> bool" where
  "panics r = (case r of Ret _ \<Rightarrow> False | Panic _ \<Rightarrow> True)"

lemma panics_simps [simp, go_simps]: "panics (Panic m)" "\<not> panics (Ret x)"
  by (simp_all add: panics_def)

lemma outcome_bind_eq_Ret [go_simps]:
  "outcome_bind r f = Ret y \<longleftrightarrow> (\<exists>x. r = Ret x \<and> f x = Ret y)"
  by (cases r) auto

text \<open>
  A call that may panic or return an error, followed by what the source does with
  its value; \<open>annotate\<close> is \<^verbatim>\<open>fmt.Errorf("...: %w", err)\<close>.
\<close>

definition try_bind :: "'a result outcome \<Rightarrow> ('a \<Rightarrow> 'b result outcome) \<Rightarrow> 'b result outcome" where
  "try_bind r f = outcome_bind r (\<lambda>x. case x of Inl e \<Rightarrow> Ret (Inl e) | Inr v \<Rightarrow> f v)"

definition annotate :: "string \<Rightarrow> 'a result outcome \<Rightarrow> 'a result outcome" where
  "annotate m r = outcome_bind r (\<lambda>x. case x of Inl e \<Rightarrow> Ret (Inl (Wrap m e)) | Inr v \<Rightarrow> Ret (Inr v))"

lemma try_bind_simps [simp]:
  "try_bind (Ret (Inr v)) f = f v" "try_bind (Ret (Inl e)) f = Ret (Inl e)" "try_bind (Panic m) f = Panic m"
  by (simp_all add: try_bind_def)

lemma annotate_simps [simp]:
  "annotate m (Ret (Inr v)) = Ret (Inr v)" "annotate m (Ret (Inl e)) = Ret (Inl (Wrap m e))"
  "annotate m (Panic m') = Panic m'"
  by (simp_all add: annotate_def)

lemma try_bind_eq_Ret [go_simps]:
  "try_bind r f = Ret (Inr y) \<longleftrightarrow> (\<exists>x. r = Ret (Inr x) \<and> f x = Ret (Inr y))"
  by (cases r) (auto simp: try_bind_def split: sum.splits)

lemma annotate_eq_Ret [go_simps]: "annotate m r = Ret (Inr y) \<longleftrightarrow> r = Ret (Inr y)"
  by (cases r) (auto simp: annotate_def split: sum.splits)

lemma try_bind_panics [go_simps]:
  "panics (try_bind r f) \<longleftrightarrow> panics r \<or> (\<exists>x. r = Ret (Inr x) \<and> panics (f x))"
  by (cases r) (auto simp: try_bind_def split: sum.splits)

lemma annotate_panics [go_simps]: "panics (annotate m r) \<longleftrightarrow> panics r"
  by (cases r) (auto simp: annotate_def split: sum.splits)

subsection \<open>Fixed-width signed integers\<close>

text \<open>
  Go's \<^verbatim>\<open>int\<close> and \<^verbatim>\<open>int64\<close> are 64-bit two's complement on the
  supported platform (amd64). They are modelled as \<^typ>\<open>int\<close> with the
  wrap-around written out by \<open>i64\<close> after each arithmetic operation.
\<close>

definition i64 :: "int \<Rightarrow> int" where
  "i64 x = (x + 2 ^ 63) mod 2 ^ 64 - 2 ^ 63"

lemma i64_id [simp]: "- (2 ^ 63) \<le> x \<Longrightarrow> x < 2 ^ 63 \<Longrightarrow> i64 x = x"
  by (simp add: i64_def)

lemma i64_range: "- (2 ^ 63) \<le> i64 x" "i64 x < 2 ^ 63"
  by (simp_all add: i64_def)

lemma i64_i64 [simp]: "i64 (i64 x) = i64 x"
  using i64_range [of x] by simp

lemma i64_add: "i64 (i64 x + y) = i64 (x + y)" "i64 (y + i64 x) = i64 (y + x)"
  unfolding i64_def by (simp_all add: mod_simps ac_simps)

subsection \<open>Strings and string maps\<close>

definition has_prefix :: "string \<Rightarrow> string \<Rightarrow> bool" where
  "has_prefix s p = (take (length p) s = p)"

definition trim_prefix :: "string \<Rightarrow> string \<Rightarrow> string" where
  "trim_prefix s p = (if has_prefix s p then drop (length p) s else s)"

text \<open>\<^verbatim>\<open>strings.Cut\<close> around the first occurrence of a one-byte separator.\<close>

fun cut :: "string \<Rightarrow> char \<Rightarrow> string \<times> string \<times> bool" where
  "cut [] c = ([], [], False)"
| "cut (x # xs) c =
     (if x = c then ([], xs, True)
      else (case cut xs c of (b, a, ok) \<Rightarrow> (x # b, a, ok)))"

text \<open>\<^verbatim>\<open>strings.Split\<close> on a one-byte separator: always at least one part.\<close>

fun split_on :: "char \<Rightarrow> string \<Rightarrow> string list" where
  "split_on c [] = [[]]"
| "split_on c (x # xs) =
     (if x = c then [] # split_on c xs
      else (case split_on c xs of [] \<Rightarrow> [[x]] | p # ps \<Rightarrow> (x # p) # ps))"

lemma split_on_nonempty [simp]: "split_on c s \<noteq> []"
  by (induction s) (auto split: list.splits)

lemma split_on_no_sep: "p \<in> set (split_on c s) \<Longrightarrow> c \<notin> set p"
proof (induction s arbitrary: p)
  case Nil
  then show ?case by simp
next
  case (Cons x xs)
  then show ?case
    by (cases "split_on c xs") (auto split: if_splits)
qed

lemma split_on_single: "c \<notin> set s \<Longrightarrow> split_on c s = [s]"
  by (induction s) auto

lemma split_on_append:
  "c \<notin> set s \<Longrightarrow> split_on c (s @ c # t) = s # split_on c t"
  by (induction s) auto

lemma cut_append: "c \<notin> set s \<Longrightarrow> cut (s @ c # t) c = (s, t, True)"
  by (induction s) auto

lemma cut_found: "cut s c = (b, a, True) \<Longrightarrow> s = b @ c # a \<and> c \<notin> set b"
  by (induction s arbitrary: b) (auto split: if_splits prod.splits)

text \<open>
  A \<^verbatim>\<open>map[string]string\<close> is an association list; reading an absent key
  gives the empty string.
\<close>

type_synonym smap = "(string \<times> string) list"

definition smap_get :: "smap \<Rightarrow> string \<Rightarrow> string" where
  "smap_get m k = (case map_of m k of None \<Rightarrow> [] | Some v \<Rightarrow> v)"

subsection \<open>Byte strings\<close>

type_synonym byte = "8 word"
type_synonym bytes = "byte list"

definition le_put :: "nat \<Rightarrow> 'a::len word \<Rightarrow> bytes" where
  "le_put n w = map (\<lambda>i. ucast (drop_bit (8 * i) w)) [0..<n]"

fun le_get :: "bytes \<Rightarrow> 'a::len word" where
  "le_get [] = 0"
| "le_get (b # bs) = push_bit 8 (le_get bs) OR ucast b"

lemma length_le_put [simp, le_simps]: "length (le_put n w) = n"
  by (simp add: le_put_def)

lemma bit_le_get:
  "bit (le_get bs :: 'a::len word) i \<longleftrightarrow>
     i < LENGTH('a) \<and> i div 8 < length bs \<and> bit (bs ! (i div 8)) (i mod 8)"
proof (induction bs arbitrary: i)
  case Nil
  then show ?case by simp
next
  case (Cons b bs)
  show ?case
  proof (cases "i < 8")
    case True
    then show ?thesis
      by (auto simp: bit_or_iff bit_push_bit_iff bit_ucast_iff)
  next
    case False
    then have "\<not> bit b i"
      by (auto dest: bit_imp_le_length)
    moreover from False have "i div 8 = Suc ((i - 8) div 8)" "i mod 8 = (i - 8) mod 8"
      by (auto simp: le_div_geq le_mod_geq)
    ultimately show ?thesis
      using False Cons.IH [of "i - 8"]
      by (auto simp: bit_or_iff bit_push_bit_iff bit_ucast_iff)
  qed
qed

lemma le_get_le_put [simp, le_simps]:
  assumes "LENGTH('a) = 8 * n"
  shows "le_get (le_put n (w :: 'a::len word)) = w"
proof (rule bit_word_eqI)
  fix i
  assume i: "i < LENGTH('a)"
  with assms have "i div 8 < n" by (simp add: less_mult_imp_div_less mult.commute)
  with i show "bit (le_get (le_put n w) :: 'a word) i \<longleftrightarrow> bit w i"
    by (simp add: bit_le_get le_put_def bit_ucast_iff bit_drop_bit_eq)
qed

lemma le_put_le_get [simp, le_simps]:
  assumes "8 * n \<le> LENGTH('a)" "length bs = n"
  shows "le_put n (le_get bs :: 'a::len word) = bs"
proof (rule nth_equalityI)
  fix i
  assume "i < length (le_put n (le_get bs :: 'a word))"
  then have i: "i < n" by simp
  show "le_put n (le_get bs :: 'a word) ! i = bs ! i"
  proof (rule bit_word_eqI)
    fix j
    assume "j < LENGTH(8)"
    then have j: "j < 8" by simp
    with i have "8 * i + j < 8 * n" by simp
    moreover have "(8 * i + j) div 8 = i" "(8 * i + j) mod 8 = j"
      using j by auto
    ultimately show "bit (le_put n (le_get bs :: 'a word) ! i) j \<longleftrightarrow> bit (bs ! i) j"
      using i j assms by (simp add: le_put_def bit_ucast_iff bit_drop_bit_eq bit_le_get)
  qed
qed (simp add: assms)

text \<open>A contiguous region of a byte string, read and overwritten in place.\<close>

definition read_at :: "nat \<Rightarrow> nat \<Rightarrow> 'a list \<Rightarrow> 'a list" where
  "read_at off n m = take n (drop off m)"

definition put_at :: "nat \<Rightarrow> 'a list \<Rightarrow> 'a list \<Rightarrow> 'a list" where
  "put_at off bs m = take off m @ bs @ drop (off + length bs) m"

lemma length_read_at [simp]: "off + n \<le> length m \<Longrightarrow> length (read_at off n m) = n"
  by (simp add: read_at_def)

lemma length_put_at [simp]: "off + length bs \<le> length m \<Longrightarrow> length (put_at off bs m) = length m"
  by (simp add: put_at_def)

lemma nth_put_at:
  "off + length bs \<le> length m \<Longrightarrow> i < length m \<Longrightarrow>
   put_at off bs m ! i = (if off \<le> i \<and> i < off + length bs then bs ! (i - off) else m ! i)"
  by (auto simp: put_at_def nth_append min_def)

lemma read_put_same [simp]:
  "off + length bs \<le> length m \<Longrightarrow> n = length bs \<Longrightarrow> read_at off n (put_at off bs m) = bs"
  by (simp add: read_at_def put_at_def)

lemma nth_read_at: "off + n \<le> length m \<Longrightarrow> i < n \<Longrightarrow> read_at off n m ! i = m ! (off + i)"
  by (simp add: read_at_def)

lemma read_put_other:
  assumes "off + length bs \<le> length m" "off' + n \<le> length m"
    and "off' + n \<le> off \<or> off + length bs \<le> off'"
  shows "read_at off' n (put_at off bs m) = read_at off' n m"
  by (rule nth_equalityI) (use assms in \<open>auto simp: nth_read_at nth_put_at\<close>)

lemma put_at_empty [simp]: "put_at off [] m = m"
  by (simp add: put_at_def)

end
