(* ===== verification/Resource.thy ===== *)
theory Resource
  imports Prelude
begin

text \<open>
  The resource envelope of \<^verbatim>\<open>internal/domain/resource\<close>: metadata with
  finalizers (\<^verbatim>\<open>resource.go\<close>), phases (\<^verbatim>\<open>phase.go\<close>), conditions
  and the status base every kind embeds (\<^verbatim>\<open>condition.go\<close>). Struct
  embedding is record extension: each status record extends
  \<open>status_base\<close>, and the operations below work on every extension.
  Instants are nanoseconds since the Unix epoch; the clock reading a function
  takes with \<^verbatim>\<open>time.Now()\<close> is its argument \<open>now\<close>.
\<close>

type_synonym time = int

text \<open>The zero \<^verbatim>\<open>time.Time\<close>, 1 January of year 1, in nanoseconds since 1970.\<close>

definition zero_time :: time where
  "zero_time = - 62135596800 * 1000000000"

definition APIVersion :: string where
  "APIVersion = ''infra/v1''"

record owner_reference =
  or_apiVersion :: string
  or_kind :: string
  or_uid :: string
  or_name :: string

record object_reference =
  ref_kind :: string
  ref_uid :: string
  ref_name :: string

record object_meta =
  md_uid :: string
  md_name :: string
  md_organizationId :: string
  md_projectId :: string
  md_ownerUid :: string
  md_labels :: smap
  md_annotations :: smap
  md_ownerRefs :: "owner_reference list"
  md_finalizers :: "string list"
  md_generation :: int
  md_resourceVersion :: string
  md_deletionTimestamp :: "time option"
  md_createdAt :: time

record ('s, 'st) resource =
  apiVersion :: string
  kind :: string
  metadata :: object_meta
  spec :: 's
  status :: 'st

record ('s, 'st) resource_list =
  list_apiVersion :: string
  list_kind :: string
  list_items :: "('s, 'st) resource list"
  list_continue :: string

definition IsDeleting :: "object_meta \<Rightarrow> bool" where
  "IsDeleting m = (md_deletionTimestamp m \<noteq> None)"

fun has_finalizer_loop :: "string list \<Rightarrow> string \<Rightarrow> bool" where
  "has_finalizer_loop [] name = False"
| "has_finalizer_loop (f # fs) name = (if f = name then True else has_finalizer_loop fs name)"

definition HasFinalizer :: "object_meta \<Rightarrow> string \<Rightarrow> bool" where
  "HasFinalizer m name = has_finalizer_loop (md_finalizers m) name"

definition AddFinalizer :: "string \<Rightarrow> object_meta \<Rightarrow> object_meta" where
  "AddFinalizer name m =
     (if \<not> HasFinalizer m name then m\<lparr>md_finalizers := md_finalizers m @ [name]\<rparr> else m)"

definition RemoveFinalizer :: "string \<Rightarrow> object_meta \<Rightarrow> object_meta" where
  "RemoveFinalizer name m =
     (if length (md_finalizers m) = 0 then m
      else m\<lparr>md_finalizers := filter (\<lambda>f. f \<noteq> name) (md_finalizers m)\<rparr>)"

subsection \<open>Phases and conditions\<close>

text \<open>
  \<^verbatim>\<open>Phase\<close> is a string type: the zero value \<^verbatim>\<open>""\<close> is
  \<open>PhaseUnset\<close>, any other undeclared string \<open>PhaseOther\<close>.
\<close>

datatype phase =
    PhaseUnset
  | PhasePending
  | PhaseReconciling
  | PhaseReady
  | PhaseError
  | PhaseDeleting
  | PhaseTerminated
  | PhaseOther string

datatype condition_status = ConditionTrue | ConditionFalse | ConditionUnknown

definition ConditionReady :: string where "ConditionReady = ''Ready''"
definition ConditionProgressing :: string where "ConditionProgressing = ''Progressing''"
definition ConditionSynced :: string where "ConditionSynced = ''Synced''"

record condition =
  c_type :: string
  c_status :: condition_status
  c_reason :: string
  c_message :: string
  c_lastTransitionTime :: time

definition NewCondition :: "time \<Rightarrow> string \<Rightarrow> condition_status \<Rightarrow> string \<Rightarrow> string \<Rightarrow> condition" where
  "NewCondition now condType st reason message =
     \<lparr>c_type = condType, c_status = st, c_reason = reason, c_message = message,
      c_lastTransitionTime = now\<rparr>"

definition ReadyCondition :: "time \<Rightarrow> string \<Rightarrow> string \<Rightarrow> condition" where
  "ReadyCondition now reason message = NewCondition now ConditionReady ConditionTrue reason message"

definition NotReadyCondition :: "time \<Rightarrow> string \<Rightarrow> string \<Rightarrow> condition" where
  "NotReadyCondition now reason message = NewCondition now ConditionReady ConditionFalse reason message"

definition SyncedCondition :: "time \<Rightarrow> string \<Rightarrow> string \<Rightarrow> condition" where
  "SyncedCondition now reason message = NewCondition now ConditionSynced ConditionTrue reason message"

definition ProgressingCondition :: "time \<Rightarrow> string \<Rightarrow> string \<Rightarrow> condition" where
  "ProgressingCondition now reason message =
     NewCondition now ConditionProgressing ConditionTrue reason message"

definition ErrorCondition :: "time \<Rightarrow> string \<Rightarrow> condition" where
  "ErrorCondition now message = NewCondition now ConditionReady ConditionFalse ''Error'' message"

record status_base =
  observedGeneration :: int
  st_phase :: phase
  conditions :: "condition list"

fun set_condition_loop :: "condition \<Rightarrow> condition list \<Rightarrow> condition list" where
  "set_condition_loop c [] = [c]"
| "set_condition_loop c (x # xs) = (if c_type x = c_type c then c # xs else x # set_condition_loop c xs)"

definition SetCondition :: "condition \<Rightarrow> 'a status_base_scheme \<Rightarrow> 'a status_base_scheme" where
  "SetCondition c s = s\<lparr>conditions := set_condition_loop c (conditions s)\<rparr>"

fun get_condition_loop :: "string \<Rightarrow> condition list \<Rightarrow> condition option" where
  "get_condition_loop t [] = None"
| "get_condition_loop t (x # xs) = (if c_type x = t then Some x else get_condition_loop t xs)"

definition GetCondition :: "'a status_base_scheme \<Rightarrow> string \<Rightarrow> condition option" where
  "GetCondition s t = get_condition_loop t (conditions s)"

definition IsReady :: "'a status_base_scheme \<Rightarrow> bool" where
  "IsReady s = (st_phase s = PhaseReady)"

definition NeedsReconcile :: "'a status_base_scheme \<Rightarrow> int \<Rightarrow> bool" where
  "NeedsReconcile s gen = (observedGeneration s < gen)"

definition MarkReconciled :: "int \<Rightarrow> 'a status_base_scheme \<Rightarrow> 'a status_base_scheme" where
  "MarkReconciled gen s = s\<lparr>observedGeneration := gen\<rparr>"

definition IsConverged :: "'a status_base_scheme \<Rightarrow> int \<Rightarrow> bool" where
  "IsConverged s gen = (gen \<le> observedGeneration s \<and> st_phase s = PhaseReady)"

definition SetPhase ::
    "time \<Rightarrow> phase \<Rightarrow> string \<Rightarrow> string \<Rightarrow> 'a status_base_scheme \<Rightarrow> 'a status_base_scheme" where
  "SetPhase now ph reason message s =
     (let s = s\<lparr>st_phase := ph\<rparr> in
      case ph of
        PhaseReady \<Rightarrow>
          SetCondition (NewCondition now ConditionProgressing ConditionFalse reason message)
            (SetCondition (ReadyCondition now reason message) s)
      | PhaseReconciling \<Rightarrow> SetCondition (ProgressingCondition now reason message) s
      | PhaseError \<Rightarrow>
          SetCondition (NewCondition now ConditionProgressing ConditionFalse reason message)
            (SetCondition (ErrorCondition now message) s)
      | PhaseDeleting \<Rightarrow>
          SetCondition (ProgressingCondition now ''Deleting'' message)
            (SetCondition (NewCondition now ConditionReady ConditionFalse ''Deleting'' message) s)
      | PhasePending \<Rightarrow>
          SetCondition (NewCondition now ConditionReady ConditionFalse ''Pending'' message) s
      | _ \<Rightarrow> s)"

subsection \<open>Finalizer laws\<close>

lemma has_finalizer_loop_iff [simp]: "has_finalizer_loop fs name \<longleftrightarrow> name \<in> set fs"
  by (induction fs) auto

lemma HasFinalizer_iff: "HasFinalizer m name \<longleftrightarrow> name \<in> set (md_finalizers m)"
  by (simp add: HasFinalizer_def)

lemma AddFinalizer_finalizers:
  "set (md_finalizers (AddFinalizer name m)) = insert name (set (md_finalizers m))"
  by (auto simp: AddFinalizer_def HasFinalizer_iff)

lemma RemoveFinalizer_finalizers:
  "md_finalizers (RemoveFinalizer name m) = filter (\<lambda>f. f \<noteq> name) (md_finalizers m)"
  by (simp add: RemoveFinalizer_def)

lemma AddFinalizer_distinct:
  "distinct (md_finalizers m) \<Longrightarrow> distinct (md_finalizers (AddFinalizer name m))"
  by (simp add: AddFinalizer_def HasFinalizer_iff)

lemma AddFinalizer_idem: "AddFinalizer name (AddFinalizer name m) = AddFinalizer name m"
  by (simp add: AddFinalizer_def HasFinalizer_iff)

lemma filter_neq_absent [simp]: "x \<notin> set xs \<Longrightarrow> filter (\<lambda>y. y \<noteq> x) xs = xs"
  by (auto simp: filter_id_conv)

lemma Add_Remove_finalizer:
  "name \<notin> set (md_finalizers m) \<Longrightarrow> RemoveFinalizer name (AddFinalizer name m) = m"
  by (simp add: AddFinalizer_def HasFinalizer_iff RemoveFinalizer_def)

subsection \<open>Condition laws\<close>

lemma get_set_condition_loop:
  "get_condition_loop t (set_condition_loop c cs) =
     (if t = c_type c then Some c else get_condition_loop t cs)"
  by (induction cs) auto

lemma types_set_condition_loop:
  "map c_type (set_condition_loop c cs) =
     (if c_type c \<in> c_type ` set cs then map c_type cs else map c_type cs @ [c_type c])"
  by (induction cs) auto

lemma GetCondition_SetCondition [simp]:
  "GetCondition (SetCondition c s) t = (if t = c_type c then Some c else GetCondition s t)"
  by (simp add: GetCondition_def SetCondition_def get_set_condition_loop)

lemma SetCondition_frame [simp]:
  "st_phase (SetCondition c s) = st_phase s"
  "observedGeneration (SetCondition c s) = observedGeneration s"
  by (simp_all add: SetCondition_def)

lemma SetCondition_distinct:
  "distinct (map c_type (conditions s)) \<Longrightarrow> distinct (map c_type (conditions (SetCondition c s)))"
  by (auto simp: SetCondition_def types_set_condition_loop)

lemma condition_types [simp]:
  "c_type (NewCondition now t st r m) = t"
  "c_type (ReadyCondition now r m) = ConditionReady"
  "c_type (ProgressingCondition now r m) = ConditionProgressing"
  "c_type (ErrorCondition now m) = ConditionReady"
  by (simp_all add: NewCondition_def ReadyCondition_def ProgressingCondition_def ErrorCondition_def)

lemma condition_statuses [simp]:
  "c_status (NewCondition now t st r m) = st"
  "c_status (ReadyCondition now r m) = ConditionTrue"
  "c_status (ProgressingCondition now r m) = ConditionTrue"
  "c_status (ErrorCondition now m) = ConditionFalse"
  by (simp_all add: NewCondition_def ReadyCondition_def ProgressingCondition_def ErrorCondition_def)

lemma condition_names_distinct [simp]:
  "ConditionReady \<noteq> ConditionProgressing" "ConditionProgressing \<noteq> ConditionReady"
  by (simp_all add: ConditionReady_def ConditionProgressing_def)

lemma SetPhase_phase [simp]: "st_phase (SetPhase now ph r m s) = ph"
  by (simp add: SetPhase_def Let_def split: phase.splits)

lemma SetPhase_generation [simp]: "observedGeneration (SetPhase now ph r m s) = observedGeneration s"
  by (simp add: SetPhase_def Let_def split: phase.splits)

lemma SetPhase_distinct:
  "distinct (map c_type (conditions s)) \<Longrightarrow>
   distinct (map c_type (conditions (SetPhase now ph r m s)))"
  by (auto simp: SetPhase_def Let_def intro!: SetCondition_distinct split: phase.splits)

text \<open>
  What an observer may read off the conditions after a phase change: the Ready
  condition is true exactly in the Ready phase, and Progressing is true exactly
  while a controller is at work.
\<close>

definition ready_is :: "'a status_base_scheme \<Rightarrow> condition_status \<Rightarrow> bool" where
  "ready_is s v = (map_option c_status (GetCondition s ConditionReady) = Some v)"

definition progressing_is :: "'a status_base_scheme \<Rightarrow> condition_status \<Rightarrow> bool" where
  "progressing_is s v = (map_option c_status (GetCondition s ConditionProgressing) = Some v)"

lemma SetPhase_ready_condition:
  "ph \<in> {PhaseReady, PhaseError, PhaseDeleting, PhasePending} \<Longrightarrow>
   ready_is (SetPhase now ph r m s) (if ph = PhaseReady then ConditionTrue else ConditionFalse)"
  by (auto simp: ready_is_def SetPhase_def Let_def)

lemma SetPhase_progressing_condition:
  "ph \<in> {PhaseReady, PhaseError, PhaseDeleting, PhaseReconciling} \<Longrightarrow>
   progressing_is (SetPhase now ph r m s)
     (if ph \<in> {PhaseDeleting, PhaseReconciling} then ConditionTrue else ConditionFalse)"
  by (auto simp: progressing_is_def SetPhase_def Let_def)

end
