(* ===== verification/Store.thy ===== *)
theory Store
  imports Prelude "HOL-Library.AList"
begin

text \<open>
  The byte-oriented state store (\<^verbatim>\<open>internal/state\<close>). A Go interface value is a
  record of operations, so \<open>store_ops\<close> is the \<^verbatim>\<open>Store\<close> interface of
  \<^verbatim>\<open>store.go\<close>, and a backend is a value of it over its own state. The
  locale \<open>kv_store\<close> states the contract in the interface's comments; the file
  backend of \<^verbatim>\<open>file_store.go\<close> is modelled over a file tree with every
  system call it makes able to fail, and interprets the contract when none does.
\<close>

subsection \<open>The interface\<close>

record 's store_ops =
  st_get :: "'s \<Rightarrow> string \<Rightarrow> bytes result"
  st_put :: "'s \<Rightarrow> string \<Rightarrow> bytes \<Rightarrow> error option \<times> 's"
  st_delete :: "'s \<Rightarrow> string \<Rightarrow> error option \<times> 's"
  st_list :: "'s \<Rightarrow> string \<Rightarrow> (string \<times> bytes) list result"
  st_cas :: "'s \<Rightarrow> string \<Rightarrow> bytes option \<Rightarrow> bytes \<Rightarrow> bool result \<times> 's"

text \<open>
  A \<^verbatim>\<open>contextStore\<close> refuses every operation once its context is done;
  \<open>ctx\<close> is the context's error, \<^const>\<open>None\<close> while it is live.
\<close>

definition WithContext :: "error option \<Rightarrow> 's store_ops \<Rightarrow> 's store_ops" where
  "WithContext ctx ops = (case ctx of
     None \<Rightarrow> ops
   | Some e \<Rightarrow> \<lparr>st_get = (\<lambda>s k. Inl e), st_put = (\<lambda>s k v. (Some e, s)),
       st_delete = (\<lambda>s k. (Some e, s)), st_list = (\<lambda>s p. Inl e),
       st_cas = (\<lambda>s k old new. (Inl e, s))\<rparr>)"

subsection \<open>The file tree\<close>

datatype entry = File bytes | Dir

type_synonym path = "string list"
type_synonym fsys = "(path \<times> entry) list"

text \<open>
  System calls the file store makes after a key is resolved. What the host does is
  an oracle: which calls fail (no space, an I/O error, a name the kernel refuses),
  how many bytes a failing write had put into the file, and the random string
  \<^verbatim>\<open>os.CreateTemp\<close> puts behind \<^verbatim>\<open>.tmp-\<close>. \<open>no_faults\<close> is a
  healthy host: no call fails and the random string is one not in use.
\<close>

datatype syscall =
    ReadFileC | ReadDirC | MkdirAllC | CreateTempC | WriteC | ChmodC | SyncC | CloseC
  | RenameC | RemoveC | SyncDirC | MkdirBaseC | OpenLockC | FlockC

record faults =
  fails :: "syscall \<Rightarrow> path \<Rightarrow> bool"
  short_write :: "path \<Rightarrow> nat"
  temp_suffix :: "fsys \<Rightarrow> string"

definition fresh_suffix :: "fsys \<Rightarrow> string" where
  "fresh_suffix fs = replicate (foldr (\<lambda>(q, _) n. max (length (last q)) n) fs 0) (CHR ''0'')"

definition no_faults :: faults where
  "no_faults = \<lparr>fails = (\<lambda>c p. False), short_write = (\<lambda>p. 0), temp_suffix = fresh_suffix\<rparr>"

definition has_file_ancestor :: "fsys \<Rightarrow> path \<Rightarrow> bool" where
  "has_file_ancestor fs p =
     list_ex (\<lambda>n. case map_of fs (take n p) of Some (File _) \<Rightarrow> True | _ \<Rightarrow> False) [1..<length p]"

lemma no_faults_fails [simp]: "fails no_faults c p = False"
  by (simp add: no_faults_def)

datatype os_result = OsNotExist | OsError | OsFile bytes | OsDir

definition os_lookup :: "fsys \<Rightarrow> path \<Rightarrow> os_result" where
  "os_lookup fs p =
     (if has_file_ancestor fs p then OsError
      else case map_of fs p of
        None \<Rightarrow> (if p = [] then OsDir else OsNotExist)
      | Some Dir \<Rightarrow> OsDir
      | Some (File b) \<Rightarrow> OsFile b)"

definition mkdir_all :: "path \<Rightarrow> fsys \<Rightarrow> fsys" where
  "mkdir_all p fs = fold (\<lambda>n fs. case map_of fs (take n p) of
       None \<Rightarrow> (take n p, Dir) # fs
     | Some _ \<Rightarrow> fs) [1..<Suc (length p)] fs"

definition dir_empty :: "fsys \<Rightarrow> path \<Rightarrow> bool" where
  "dir_empty fs p = list_all (\<lambda>(q, _). \<not> (length q = Suc (length p) \<and> take (length p) q = p)) fs"

definition children :: "fsys \<Rightarrow> path \<Rightarrow> (string \<times> entry) list" where
  "children fs p =
     sort_key fst (map (\<lambda>(q, e). (last q, e))
       (filter (\<lambda>(q, _). length q = Suc (length p) \<and> take (length p) q = p) fs))"

subsection \<open>Keys\<close>

text \<open>
  \<^verbatim>\<open>filepath.Clean\<close> of a rooted path, on its segments: empty and
  \<^verbatim>\<open>.\<close> segments vanish, \<^verbatim>\<open>..\<close> drops the segment before it and
  stays put at the root.
\<close>

fun clean_rooted :: "string list \<Rightarrow> path \<Rightarrow> path" where
  "clean_rooted [] out = rev out"
| "clean_rooted (s # ss) out =
     (if s = [] \<or> s = ''.'' then clean_rooted ss out
      else if s = ''..'' then clean_rooted ss (tl out)
      else clean_rooted ss (s # out))"

definition resolve :: "string \<Rightarrow> path result" where
  "resolve key =
     (if key = [] then Inl (Errorf ''state: empty key'')
      else let rel = clean_rooted (split_on (CHR ''/'') key) [] in
        if rel = [] then Inl (Errorf ''state: invalid key'') else Inr rel)"

fun join_path :: "path \<Rightarrow> string" where
  "join_path [] = []"
| "join_path [s] = s"
| "join_path (s # t # ss) = s @ CHR ''/'' # join_path (t # ss)"

subsection \<open>The file store\<close>

definition lock_path :: path where
  "lock_path = [''.store.lock'']"

definition withWriteLock :: "faults \<Rightarrow> 'e \<Rightarrow> (fsys \<Rightarrow> 'e \<times> fsys) \<Rightarrow> fsys \<Rightarrow> 'e \<times> fsys" where
  "withWriteLock flt failed fn fs =
     (if fails flt MkdirBaseC [] \<or> fails flt OpenLockC lock_path \<or> map_of fs lock_path = Some Dir
      then (failed, fs)
      else let fs = (case map_of fs lock_path of
                 None \<Rightarrow> (lock_path, File []) # fs | Some _ \<Rightarrow> fs) in
        if fails flt FlockC lock_path then (failed, fs) else fn fs)"

definition file_get :: "faults \<Rightarrow> fsys \<Rightarrow> string \<Rightarrow> bytes result" where
  "file_get flt fs key = (case resolve key of
     Inl e \<Rightarrow> Inl e
   | Inr p \<Rightarrow>
       if fails flt ReadFileC p then Inl (Errorf ''state: get'')
       else case os_lookup fs p of
         OsNotExist \<Rightarrow> Inl ErrNotFound
       | OsFile b \<Rightarrow> Inr b
       | _ \<Rightarrow> Inl (Errorf ''state: get''))"

text \<open>
  The temporary file of a write. \<^verbatim>\<open>os.CreateTemp\<close> opens a name that does not
  exist yet, and fails when it finds none; \<^verbatim>\<open>os.Remove\<close> of it ignores its error, so
  a failing one leaves the file behind.
\<close>

definition temp_path :: "faults \<Rightarrow> path \<Rightarrow> fsys \<Rightarrow> path" where
  "temp_path flt dir fs = dir @ [''.tmp-'' @ temp_suffix flt fs]"

definition CreateTemp :: "faults \<Rightarrow> path \<Rightarrow> fsys \<Rightarrow> (path \<times> fsys) option" where
  "CreateTemp flt dir fs =
     (let tmp = temp_path flt dir fs in
      if fails flt CreateTempC dir \<or> map_of fs tmp \<noteq> None then None
      else Some (tmp, (tmp, File []) # fs))"

definition write_temp :: "faults \<Rightarrow> path \<Rightarrow> bytes \<Rightarrow> fsys \<Rightarrow> bool \<times> fsys" where
  "write_temp flt tmp v fs =
     (if fails flt WriteC tmp then (False, AList.update tmp (File (take (short_write flt tmp) v)) fs)
      else (True, AList.update tmp (File v) fs))"

definition remove_temp :: "faults \<Rightarrow> path \<Rightarrow> fsys \<Rightarrow> fsys" where
  "remove_temp flt tmp fs = (if fails flt RemoveC tmp then fs else AList.delete tmp fs)"

definition rename_temp :: "faults \<Rightarrow> path \<Rightarrow> path \<Rightarrow> fsys \<Rightarrow> fsys option" where
  "rename_temp flt tmp p fs =
     (if fails flt RenameC p \<or> map_of fs p = Some Dir then None
      else case map_of fs tmp of
        None \<Rightarrow> None
      | Some e \<Rightarrow> Some (AList.update p e (AList.delete tmp fs)))"

definition putLocked :: "faults \<Rightarrow> string \<Rightarrow> bytes \<Rightarrow> fsys \<Rightarrow> error option \<times> fsys" where
  "putLocked flt key v fs = (case resolve key of
     Inl e \<Rightarrow> (Some e, fs)
   | Inr p \<Rightarrow>
       let dir = butlast p in
       if fails flt MkdirAllC dir \<or> has_file_ancestor fs p then (Some (Errorf ''state: put mkdir''), fs)
       else let fs = mkdir_all dir fs in
       case CreateTemp flt dir fs of
         None \<Rightarrow> (Some (Errorf ''state: put temp''), fs)
       | Some (tmp, fs) \<Rightarrow>
       case write_temp flt tmp v fs of
         (False, fs) \<Rightarrow> (Some (Errorf ''state: put write''), remove_temp flt tmp fs)
       | (True, fs) \<Rightarrow>
       if fails flt ChmodC tmp then (Some (Errorf ''state: put chmod''), remove_temp flt tmp fs)
       else if fails flt SyncC tmp then (Some (Errorf ''state: sync''), remove_temp flt tmp fs)
       else if fails flt CloseC tmp then (Some (Errorf ''state: put close''), remove_temp flt tmp fs)
       else case rename_temp flt tmp p fs of
         None \<Rightarrow> (Some (Errorf ''state: put rename''), remove_temp flt tmp fs)
       | Some fs \<Rightarrow>
       if fails flt SyncDirC dir then (Some (Errorf ''state: sync directory''), fs) else (None, fs))"

definition file_put :: "faults \<Rightarrow> fsys \<Rightarrow> string \<Rightarrow> bytes \<Rightarrow> error option \<times> fsys" where
  "file_put flt fs key v =
     withWriteLock flt (Some (Errorf ''state: lock'')) (putLocked flt key v) fs"

definition deleteLocked :: "faults \<Rightarrow> string \<Rightarrow> fsys \<Rightarrow> error option \<times> fsys" where
  "deleteLocked flt key fs = (case resolve key of
     Inl e \<Rightarrow> (Some e, fs)
   | Inr p \<Rightarrow>
       if fails flt RemoveC p then (Some (Errorf ''state: delete''), fs)
       else case os_lookup fs p of
         OsNotExist \<Rightarrow> (None, fs)
       | OsError \<Rightarrow> (Some (Errorf ''state: delete''), fs)
       | r \<Rightarrow>
           if r = OsDir \<and> \<not> dir_empty fs p then (Some (Errorf ''state: delete''), fs)
           else let fs = AList.delete p fs in
             if fails flt SyncDirC (butlast p) then (Some (Errorf ''state: sync directory''), fs)
             else (None, fs))"

definition file_delete :: "faults \<Rightarrow> fsys \<Rightarrow> string \<Rightarrow> error option \<times> fsys" where
  "file_delete flt fs key =
     withWriteLock flt (Some (Errorf ''state: lock'')) (deleteLocked flt key) fs"

fun read_entries :: "faults \<Rightarrow> path \<Rightarrow> (string \<times> entry) list \<Rightarrow> (string \<times> bytes) list result" where
  "read_entries flt dir [] = Inr []"
| "read_entries flt dir ((name, e) # es) =
     (case e of
        Dir \<Rightarrow> read_entries flt dir es
      | File b \<Rightarrow>
          if has_prefix name ''.tmp-'' then read_entries flt dir es
          else if fails flt ReadFileC (dir @ [name]) then Inl (Errorf ''state: list read'')
          else (case read_entries flt dir es of
              Inl err \<Rightarrow> Inl err
            | Inr kvs \<Rightarrow> Inr ((join_path (dir @ [name]), b) # kvs)))"

definition file_list :: "faults \<Rightarrow> fsys \<Rightarrow> string \<Rightarrow> (string \<times> bytes) list result" where
  "file_list flt fs prefix = (case resolve prefix of
     Inl e \<Rightarrow> Inl e
   | Inr dir \<Rightarrow>
       if fails flt ReadDirC dir then Inl (Errorf ''state: list'')
       else case os_lookup fs dir of
         OsNotExist \<Rightarrow> Inr []
       | OsDir \<Rightarrow> read_entries flt dir (children fs dir)
       | _ \<Rightarrow> Inl (Errorf ''state: list''))"

text \<open>
  \<^verbatim>\<open>CompareAndSwap\<close>: \<open>old = None\<close> is the nil slice. A missing key reads
  as the nil slice, which \<^verbatim>\<open>bytes.Equal\<close> does not tell from an empty one.
\<close>

definition casLocked ::
    "faults \<Rightarrow> string \<Rightarrow> bytes option \<Rightarrow> bytes \<Rightarrow> fsys \<Rightarrow> bool result \<times> fsys" where
  "casLocked flt key old new fs =
     (let cur = file_get flt fs key in
      case cur of
        Inl e \<Rightarrow>
          if \<not> errors_is e ErrNotFound then (Inl e, fs)
          else if (case old of None \<Rightarrow> [] | Some o' \<Rightarrow> o') \<noteq> [] then (Inr False, fs)
          else (case putLocked flt key new fs of
              (Some e, fs) \<Rightarrow> (Inl e, fs)
            | (None, fs) \<Rightarrow> (Inr True, fs))
      | Inr c \<Rightarrow>
          (case old of
             None \<Rightarrow> (Inr False, fs)
           | Some o' \<Rightarrow>
               if c \<noteq> o' then (Inr False, fs)
               else (case putLocked flt key new fs of
                   (Some e, fs) \<Rightarrow> (Inl e, fs)
                 | (None, fs) \<Rightarrow> (Inr True, fs))))"

definition file_cas ::
    "faults \<Rightarrow> fsys \<Rightarrow> string \<Rightarrow> bytes option \<Rightarrow> bytes \<Rightarrow> bool result \<times> fsys" where
  "file_cas flt fs key old new =
     withWriteLock flt (Inl (Errorf ''state: lock'')) (casLocked flt key old new) fs"

definition FileStore :: "faults \<Rightarrow> fsys store_ops" where
  "FileStore flt = \<lparr>st_get = file_get flt, st_put = file_put flt, st_delete = file_delete flt,
     st_list = file_list flt, st_cas = file_cas flt\<rparr>"


subsection \<open>The contract\<close>

text \<open>
  The registry addresses the store by \<open>kind/uid\<close> keys. \<open>ok_kind\<close> and
  \<open>ok_uid\<close> say which segments a backend keeps apart.
\<close>

definition store_key :: "string \<Rightarrow> string \<Rightarrow> string" where
  "store_key a b = a @ CHR ''/'' # b"

text \<open>
  The specification the backends refine: a finite map from \<open>(kind, uid)\<close> to
  bytes, driven by a sequence of calls whose results a client observes.
\<close>

datatype kv_call =
    KGet string string
  | KPut string string bytes
  | KDelete string string
  | KCas string string "bytes option" bytes

datatype kv_reply = Bytes "bytes result" | Done "error option" | Swapped "bool result"

fun kv_step :: "'s store_ops \<Rightarrow> 's \<Rightarrow> kv_call \<Rightarrow> kv_reply \<times> 's" where
  "kv_step ops s (KGet a b) = (Bytes (st_get ops s (store_key a b)), s)"
| "kv_step ops s (KPut a b v) = apfst Done (st_put ops s (store_key a b) v)"
| "kv_step ops s (KDelete a b) = apfst Done (st_delete ops s (store_key a b))"
| "kv_step ops s (KCas a b old new) = apfst Swapped (st_cas ops s (store_key a b) old new)"

fun spec_step :: "(string \<times> string \<Rightarrow> bytes option) \<Rightarrow> kv_call \<Rightarrow> kv_reply \<times> (string \<times> string \<Rightarrow> bytes option)" where
  "spec_step m (KGet a b) = (Bytes (case m (a, b) of None \<Rightarrow> Inl ErrNotFound | Some v \<Rightarrow> Inr v), m)"
| "spec_step m (KPut a b v) = (Done None, m((a, b) \<mapsto> v))"
| "spec_step m (KDelete a b) = (Done None, m((a, b) := None))"
| "spec_step m (KCas a b old new) =
     (if m (a, b) = old then (Swapped (Inr True), m((a, b) \<mapsto> new)) else (Swapped (Inr False), m))"

fun run_calls :: "('s \<Rightarrow> kv_call \<Rightarrow> kv_reply \<times> 's) \<Rightarrow> 's \<Rightarrow> kv_call list \<Rightarrow> kv_reply list" where
  "run_calls step s [] = []"
| "run_calls step s (c # cs) = (case step s c of (r, s') \<Rightarrow> r # run_calls step s' cs)"

fun call_ok :: "(string \<Rightarrow> bool) \<Rightarrow> kv_call \<Rightarrow> bool" where
  "call_ok ok (KGet a b) = (ok a \<and> ok b)"
| "call_ok ok (KPut a b v) = (ok a \<and> ok b)"
| "call_ok ok (KDelete a b) = (ok a \<and> ok b)"
| "call_ok ok (KCas a b old new) = (ok a \<and> ok b \<and> old \<noteq> Some [])"

locale kv_store =
  fixes ops :: "'s store_ops"
    and abs :: "'s \<Rightarrow> string \<times> string \<Rightarrow> bytes option"
    and inv :: "'s \<Rightarrow> bool"
    and ok :: "string \<Rightarrow> bool"
  assumes get_law: "inv s \<Longrightarrow> ok a \<Longrightarrow> ok b \<Longrightarrow>
      st_get ops s (store_key a b) =
        (case abs s (a, b) of None \<Rightarrow> Inl ErrNotFound | Some v \<Rightarrow> Inr v)"
    and put_law: "inv s \<Longrightarrow> ok a \<Longrightarrow> ok b \<Longrightarrow>
      \<exists>s'. st_put ops s (store_key a b) v = (None, s') \<and> inv s' \<and> abs s' = (abs s)((a, b) \<mapsto> v)"
    and delete_law: "inv s \<Longrightarrow> ok a \<Longrightarrow> ok b \<Longrightarrow>
      \<exists>s'. st_delete ops s (store_key a b) = (None, s') \<and> inv s' \<and> abs s' = (abs s)((a, b) := None)"
    and cas_law: "inv s \<Longrightarrow> ok a \<Longrightarrow> ok b \<Longrightarrow> old \<noteq> Some [] \<Longrightarrow>
      \<exists>s'. st_cas ops s (store_key a b) old new = (Inr (abs s (a, b) = old), s') \<and> inv s' \<and>
        abs s' = (if abs s (a, b) = old then (abs s)((a, b) \<mapsto> new) else abs s)"
    and list_law: "inv s \<Longrightarrow> ok a \<Longrightarrow>
      \<exists>kvs. st_list ops s a = Inr kvs \<and> distinct (map fst kvs) \<and> sorted (map fst kvs) \<and>
        (\<forall>k v. (k, v) \<in> set kvs \<longleftrightarrow> (\<exists>b. ok b \<and> k = store_key a b \<and> abs s (a, b) = Some v))"
begin

text \<open>A value read back is the value put, and no other key changes.\<close>

lemma get_after_put:
  assumes "inv s" "ok a" "ok b" "ok a'" "ok b'"
  shows "st_get ops (snd (st_put ops s (store_key a b) v)) (store_key a' b') =
    (if (a', b') = (a, b) then Inr v else st_get ops s (store_key a' b'))"
proof -
  from put_law [OF assms(1-3), of v] obtain s' where
    "st_put ops s (store_key a b) v = (None, s')" "inv s'" "abs s' = (abs s)((a, b) \<mapsto> v)"
    by blast
  with assms show ?thesis by (auto simp: get_law)
qed

text \<open>
  The compare-and-swap has one winner: once a swap away from a value has been
  applied, a second swap that expects the old value is refused.
\<close>

lemma cas_one_winner:
  assumes "inv s" "ok a" "ok b" "old \<noteq> Some []" "old \<noteq> Some new1"
    and "st_cas ops s (store_key a b) old new1 = (Inr True, s1)"
  shows "fst (st_cas ops s1 (store_key a b) old new2) = Inr False"
proof -
  from cas_law [OF assms(1-4), of new1] assms(6)
  have "abs s (a, b) = old" "inv s1" "abs s1 = (abs s)((a, b) \<mapsto> new1)"
    by (auto split: if_splits)
  with cas_law [of s1 a b old new2] assms show ?thesis by auto
qed

text \<open>One call of the backend simulates one call of the specification.\<close>

lemma step_refines:
  assumes "inv s" "call_ok ok c"
  shows "fst (kv_step ops s c) = fst (spec_step (abs s) c) \<and>
    inv (snd (kv_step ops s c)) \<and> abs (snd (kv_step ops s c)) = snd (spec_step (abs s) c)"
proof (cases c)
  case (KGet a b)
  with assms show ?thesis by (simp add: get_law)
next
  case (KPut a b v)
  with assms put_law [of s a b v] show ?thesis by auto
next
  case (KDelete a b)
  with assms delete_law [of s a b] show ?thesis by auto
next
  case (KCas a b old new)
  with assms cas_law [of s a b old new] show ?thesis by (auto split: if_splits)
qed

lemma run_refines:
  "inv s \<Longrightarrow> list_all (call_ok ok) cs \<Longrightarrow>
   run_calls (kv_step ops) s cs = run_calls spec_step (abs s) cs"
proof (induction cs arbitrary: s)
  case Nil
  then show ?case by simp
next
  case (Cons c cs)
  then show ?case
    using step_refines [of s c] by (auto split: prod.splits)
qed

end

subsection \<open>The file store keeps the contract\<close>

definition segment :: "string \<Rightarrow> bool" where
  "segment s = (s \<noteq> [] \<and> CHR ''/'' \<notin> set s \<and> s \<noteq> ''.'' \<and> s \<noteq> ''..'')"

definition plain :: "string \<Rightarrow> bool" where
  "plain s = (segment s \<and> s \<noteq> ''.store.lock'' \<and> \<not> has_prefix s ''.tmp-'')"

fun wf_entry :: "fsys \<Rightarrow> path \<times> entry \<Rightarrow> bool" where
  "wf_entry fs ([a], File _) = (a = ''.store.lock'')"
| "wf_entry fs ([a], Dir) = (segment a \<and> a \<noteq> ''.store.lock'')"
| "wf_entry fs ([a, b], File _) = (segment b \<and> b \<noteq> ''.store.lock'' \<and> map_of fs [a] = Some Dir)"
| "wf_entry fs _ = False"

definition wf_fs :: "fsys \<Rightarrow> bool" where
  "wf_fs fs = (distinct (map fst fs) \<and> (\<forall>pe \<in> set fs. wf_entry fs pe))"

definition file_abs :: "fsys \<Rightarrow> string \<times> string \<Rightarrow> bytes option" where
  "file_abs fs k = (case map_of fs [fst k, snd k] of Some (File v) \<Rightarrow> Some v | _ \<Rightarrow> None)"

lemma resolve_store_key:
  "segment a \<Longrightarrow> segment b \<Longrightarrow> resolve (store_key a b) = Inr [a, b]"
  by (auto simp: resolve_def store_key_def segment_def split_on_append split_on_single)

lemma resolve_segment: "segment a \<Longrightarrow> resolve a = Inr [a]"
  by (auto simp: resolve_def segment_def split_on_single)

lemma plain_segment [simp, dest]: "plain s \<Longrightarrow> segment s"
  by (simp add: plain_def)

lemma wf_fs_lookup: "wf_fs fs \<Longrightarrow> map_of fs p = Some e \<Longrightarrow> wf_entry fs (p, e)"
  by (auto simp: wf_fs_def dest: map_of_SomeD)

lemma wf_fs_top:
  assumes "wf_fs fs" "plain a"
  shows "map_of fs [a] = None \<or> map_of fs [a] = Some Dir"
proof (cases "map_of fs [a]")
  case (Some e)
  with wf_fs_lookup [OF assms(1) Some] assms(2) show ?thesis
    by (cases e) (auto simp: plain_def)
qed simp

lemma wf_fs_leaf:
  assumes "wf_fs fs"
  shows "map_of fs [a, b] \<noteq> Some Dir"
  using assms wf_fs_lookup [of fs "[a, b]" Dir] by auto

lemma wf_fs_parent:
  assumes "wf_fs fs" "map_of fs [a, b] = Some e"
  shows "map_of fs [a] = Some Dir"
  using wf_fs_lookup [OF assms] by (cases e) auto

lemma no_file_ancestor:
  assumes "wf_fs fs" "plain a"
  shows "\<not> has_file_ancestor fs [a, b]" "\<not> has_file_ancestor fs [a]"
  using wf_fs_top [OF assms] by (auto simp: has_file_ancestor_def)

lemma mkdir_all_single:
  "mkdir_all [a] fs = (case map_of fs [a] of None \<Rightarrow> ([a], Dir) # fs | Some _ \<Rightarrow> fs)"
  by (simp add: mkdir_all_def split: option.split)


lemma wf_entry_mono:
  "wf_entry fs pe \<Longrightarrow> \<forall>a. map_of fs [a] = Some Dir \<longrightarrow> map_of fs' [a] = Some Dir \<Longrightarrow> wf_entry fs' pe"
  by (induction fs pe rule: wf_entry.induct) auto

lemma wf_fs_change:
  assumes "wf_fs fs" "distinct (map fst fs')" "set fs' \<subseteq> insert pe (set fs)"
    and "\<And>a. map_of fs [a] = Some Dir \<Longrightarrow> map_of fs' [a] = Some Dir" "pe \<in> set fs' \<Longrightarrow> wf_entry fs' pe"
  shows "wf_fs fs'"
  unfolding wf_fs_def
proof (intro conjI ballI)
  fix x
  assume x: "x \<in> set fs'"
  with assms(3) have "x = pe \<or> x \<in> set fs" by blast
  with assms(1,4,5) x show "wf_entry fs' x"
    by (auto simp: wf_fs_def intro: wf_entry_mono)
qed (rule assms(2))

lemma wf_fs_Cons:
  assumes "wf_fs fs" "map_of fs p = None" "wf_entry ((p, e) # fs) (p, e)"
  shows "wf_fs ((p, e) # fs)"
proof (rule wf_fs_change [OF assms(1), where pe = "(p, e)"])
  show "distinct (map fst ((p, e) # fs))"
    using assms(1,2) by (simp add: wf_fs_def map_of_eq_None_iff)
qed (use assms in auto)

text \<open>What the write lock leaves behind is the lock file and nothing else.\<close>

lemma lock_prologue:
  assumes "wf_fs fs"
  obtains fs' where "withWriteLock no_faults failed fn fs = fn fs'" "wf_fs fs'"
    "file_abs fs' = file_abs fs"
proof (cases "map_of fs lock_path")
  case None
  with assms have "wf_fs ((lock_path, File []) # fs)"
    by (intro wf_fs_Cons) (auto simp: lock_path_def)
  moreover have "file_abs ((lock_path, File []) # fs) = file_abs fs"
    by (rule ext) (simp add: file_abs_def lock_path_def)
  ultimately show ?thesis
    using None that by (simp add: withWriteLock_def)
next
  case (Some e)
  with assms have "e \<noteq> Dir"
    using wf_fs_lookup [of fs lock_path e] by (auto simp: lock_path_def)
  with Some assms that show ?thesis by (simp add: withWriteLock_def)
qed

lemma file_get_ok:
  assumes "wf_fs fs" "plain a" "plain b"
  shows "file_get no_faults fs (store_key a b) =
    (case file_abs fs (a, b) of None \<Rightarrow> Inl ErrNotFound | Some v \<Rightarrow> Inr v)"
  using assms wf_fs_leaf [OF assms(1), of a b]
  by (auto simp: file_get_def resolve_store_key os_lookup_def no_file_ancestor
      file_abs_def split: option.splits entry.splits)

lemma wf_fs_update:
  assumes "wf_fs fs" "plain b" "map_of fs [a] = Some Dir"
  shows "wf_fs (AList.update [a, b] (File v) fs)"
proof (rule wf_fs_change [OF assms(1), where pe = "([a, b], File v)"])
  show "set (AList.update [a, b] (File v) fs) \<subseteq> insert ([a, b], File v) (set fs)"
    by (induction fs) auto
  show "distinct (map fst (AList.update [a, b] (File v) fs))"
    using assms(1) by (simp add: wf_fs_def AList.distinct_update)
qed (use assms(2,3) in \<open>auto simp: plain_def AList.update_conv'\<close>)

text \<open>
  On a healthy host the temporary file comes and goes: a write is one update of the
  tree, whatever name the temporary file had.
\<close>

lemma fresh_suffix_length: "(q, e) \<in> set fs \<Longrightarrow> length (last q) \<le> length (fresh_suffix fs)"
  unfolding fresh_suffix_def by (induction fs) auto

lemma temp_path_fresh: "map_of fs (temp_path no_faults dir fs) = None"
proof (rule ccontr)
  assume "map_of fs (temp_path no_faults dir fs) \<noteq> None"
  then obtain e where "(temp_path no_faults dir fs, e) \<in> set fs"
    by (auto dest: map_of_SomeD)
  from fresh_suffix_length [OF this] show False
    by (simp add: temp_path_def no_faults_def)
qed

lemma putLocked_healthy:
  "putLocked no_faults key v fs = (case resolve key of
     Inl e \<Rightarrow> (Some e, fs)
   | Inr p \<Rightarrow>
       if has_file_ancestor fs p then (Some (Errorf ''state: put mkdir''), fs)
       else let fs = mkdir_all (butlast p) fs in
       if map_of fs p = Some Dir then (Some (Errorf ''state: put rename''), fs)
       else (None, AList.update p (File v) fs))"
proof (cases "resolve key")
  case (Inr p)
  let ?fs = "mkdir_all (butlast p) fs"
  have "map_of ?fs (temp_path no_faults (butlast p) ?fs) = None" by (rule temp_path_fresh)
  moreover from this have "AList.delete (temp_path no_faults (butlast p) ?fs) ?fs = ?fs"
    by (simp add: map_of_eq_None_iff)
  ultimately show ?thesis
    using Inr by (auto simp: putLocked_def CreateTemp_def write_temp_def rename_temp_def
        remove_temp_def Let_def split: if_splits)
qed (simp add: putLocked_def)

lemma putLocked_ok:
  assumes "wf_fs fs" "plain a" "plain b"
  shows "\<exists>fs'. putLocked no_faults (store_key a b) v fs = (None, fs') \<and> wf_fs fs' \<and>
    file_abs fs' = (file_abs fs)((a, b) \<mapsto> v)"
proof -
  let ?fs = "mkdir_all [a] fs"
  have wf: "wf_fs ?fs" and top: "map_of ?fs [a] = Some Dir"
    and leaf: "map_of ?fs [c, d] = map_of fs [c, d]" for c d
    using assms wf_fs_top [OF assms(1,2)]
    by (auto simp: mkdir_all_single plain_def intro!: wf_fs_Cons)
  let ?fs' = "AList.update [a, b] (File v) ?fs"
  have "putLocked no_faults (store_key a b) v fs = (None, ?fs')"
    using assms leaf wf_fs_leaf [OF assms(1)]
    by (simp add: putLocked_healthy resolve_store_key no_file_ancestor Let_def)
  moreover have "wf_fs ?fs'"
    using wf assms(3) top by (rule wf_fs_update)
  moreover have "file_abs ?fs' = (file_abs fs)((a, b) \<mapsto> v)"
    by (rule ext) (auto simp: file_abs_def AList.update_conv' leaf)
  ultimately show ?thesis by blast
qed

lemma file_put_ok:
  assumes "wf_fs fs" "plain a" "plain b"
  shows "\<exists>fs'. file_put no_faults fs (store_key a b) v = (None, fs') \<and> wf_fs fs' \<and>
    file_abs fs' = (file_abs fs)((a, b) \<mapsto> v)"
proof -
  from lock_prologue [OF assms(1)] obtain fs1 where
    "file_put no_faults fs (store_key a b) v = putLocked no_faults (store_key a b) v fs1"
    "wf_fs fs1" "file_abs fs1 = file_abs fs"
    unfolding file_put_def by metis
  with putLocked_ok [of fs1 a b v] assms(2,3) show ?thesis by auto
qed

lemma wf_fs_delete:
  assumes "wf_fs fs"
  shows "wf_fs (AList.delete [a, b] fs)"
proof (rule wf_fs_change [OF assms, where pe = "([a, b], Dir)"])
  show "distinct (map fst (AList.delete [a, b] fs))"
    using assms by (simp add: wf_fs_def AList.distinct_delete)
  show "set (AList.delete [a, b] fs) \<subseteq> insert ([a, b], Dir) (set fs)"
    "([a, b], Dir) \<in> set (AList.delete [a, b] fs) \<Longrightarrow> wf_entry (AList.delete [a, b] fs) ([a, b], Dir)"
    by (auto simp: AList.delete_eq)
qed (simp add: AList.delete_conv')

lemma file_delete_ok:
  assumes "wf_fs fs" "plain a" "plain b"
  shows "\<exists>fs'. file_delete no_faults fs (store_key a b) = (None, fs') \<and> wf_fs fs' \<and>
    file_abs fs' = (file_abs fs)((a, b) := None)"
proof -
  from lock_prologue [OF assms(1)] obtain fs1 where
    eq: "file_delete no_faults fs (store_key a b) = deleteLocked no_faults (store_key a b) fs1"
    and wf: "wf_fs fs1" and abs: "file_abs fs1 = file_abs fs"
    unfolding file_delete_def by metis
  show ?thesis
  proof (cases "map_of fs1 [a, b]")
    case None
    then have "file_abs fs1 (a, b) = None" by (simp add: file_abs_def)
    with None eq wf abs assms(2,3) show ?thesis
      by (auto simp: deleteLocked_def resolve_store_key os_lookup_def no_file_ancestor)
  next
    case (Some e)
    with wf_fs_leaf [OF wf] obtain v where "map_of fs1 [a, b] = Some (File v)"
      by (cases e) auto
    moreover have "file_abs (AList.delete [a, b] fs1) = (file_abs fs)((a, b) := None)"
      by (rule ext) (auto simp: abs [symmetric] file_abs_def AList.delete_conv')
    ultimately show ?thesis
      using eq wf assms(2,3) wf_fs_delete [OF wf]
      by (auto simp: deleteLocked_def resolve_store_key os_lookup_def no_file_ancestor Let_def)
  qed
qed

lemma casLocked_ok:
  assumes "wf_fs fs" "plain a" "plain b" "old \<noteq> Some []"
  shows "\<exists>fs'. casLocked no_faults (store_key a b) old new fs = (Inr (file_abs fs (a, b) = old), fs') \<and>
    wf_fs fs' \<and> file_abs fs' = (if file_abs fs (a, b) = old then (file_abs fs)((a, b) \<mapsto> new) else file_abs fs)"
proof -
  obtain fs' where p: "putLocked no_faults (store_key a b) new fs = (None, fs')" "wf_fs fs'"
    "file_abs fs' = (file_abs fs)((a, b) \<mapsto> new)"
    using putLocked_ok [OF assms(1-3)] by blast
  show ?thesis
  proof (cases "file_abs fs (a, b)")
    case None
    with p assms show ?thesis
      by (cases old) (auto simp: casLocked_def file_get_ok)
  next
    case (Some c)
    with p assms show ?thesis
      by (cases old) (auto simp: casLocked_def file_get_ok)
  qed
qed

lemma file_cas_ok:
  assumes "wf_fs fs" "plain a" "plain b" "old \<noteq> Some []"
  shows "\<exists>fs'. file_cas no_faults fs (store_key a b) old new = (Inr (file_abs fs (a, b) = old), fs') \<and>
    wf_fs fs' \<and> file_abs fs' = (if file_abs fs (a, b) = old then (file_abs fs)((a, b) \<mapsto> new) else file_abs fs)"
proof -
  from lock_prologue [OF assms(1)] obtain fs1 where
    "file_cas no_faults fs (store_key a b) old new = casLocked no_faults (store_key a b) old new fs1"
    "wf_fs fs1" "file_abs fs1 = file_abs fs"
    unfolding file_cas_def by metis
  with casLocked_ok [of fs1 a b old new] assms(2-4) show ?thesis by auto
qed


subsection \<open>Listing a kind\<close>

lemma read_entries_ok:
  "read_entries no_faults dir es =
    Inr (map (\<lambda>(n, e). (join_path (dir @ [n]), case e of File b \<Rightarrow> b | Dir \<Rightarrow> []))
      (filter (\<lambda>(n, e). e \<noteq> Dir \<and> \<not> has_prefix n ''.tmp-'') es))"
  by (induction es) (auto split: entry.splits)

lemma children_set:
  "(n, e) \<in> set (children fs [a]) \<longleftrightarrow> (\<exists>x. ([x, n], e) \<in> set fs \<and> x = a)"
proof -
  have "(\<exists>q. (q, e) \<in> set fs \<and> length q = 2 \<and> take 1 q = [a] \<and> last q = n) \<longleftrightarrow>
      ([a, n], e) \<in> set fs"
    by (auto simp: length_Suc_conv numeral_2_eq_2)
  then show ?thesis by (force simp: children_def numeral_2_eq_2)
qed

lemma children_distinct:
  assumes "wf_fs fs"
  shows "distinct (map fst (children fs [a]))"
proof -
  let ?l = "filter (\<lambda>(q, _). length q = Suc (length [a]) \<and> take (length [a]) q = [a]) fs"
  have "distinct (map fst ?l)"
    using assms by (simp add: wf_fs_def distinct_map_filter)
  moreover have "inj_on last (fst ` set ?l)"
    by (rule inj_onI) (auto simp: length_Suc_conv)
  ultimately have "distinct (map last (map fst ?l))"
    by (simp only: distinct_map) (auto simp: image_image)
  then have "distinct (map fst (map (\<lambda>(q, e). (last q, e)) ?l))"
    by (simp add: comp_def case_prod_beta)
  then show ?thesis
    by (simp only: children_def distinct_map distinct_sort set_sort)
qed


lemma join_path_two: "join_path [a, n] = store_key a n"
  by (simp add: store_key_def)

lemma sorted_store_keys:
  "sorted ns \<Longrightarrow> sorted (map (store_key a) ns)"
proof -
  have le: "store_key a x \<le> store_key a y" if "x \<le> y" for x y
    using that by (induction a) (auto simp: store_key_def)
  show "sorted ns \<Longrightarrow> sorted (map (store_key a) ns)"
    by (induction ns) (auto intro: le)
qed

lemma store_key_inj [simp]: "store_key a x = store_key a y \<longleftrightarrow> x = y"
  by (simp add: store_key_def)

lemma file_abs_Some: "file_abs fs (a, b) = Some v \<longleftrightarrow> map_of fs [a, b] = Some (File v)"
  by (simp add: file_abs_def split: option.split entry.split)

lemma file_list_ok:
  assumes "wf_fs fs" "plain a"
  shows "\<exists>kvs. file_list no_faults fs a = Inr kvs \<and> distinct (map fst kvs) \<and> sorted (map fst kvs) \<and>
    (\<forall>k v. (k, v) \<in> set kvs \<longleftrightarrow> (\<exists>b. plain b \<and> k = store_key a b \<and> file_abs fs (a, b) = Some v))"
proof (cases "map_of fs [a]")
  case None
  then have "file_abs fs (a, b) = None" for b
    using wf_fs_parent [OF assms(1), of a b] by (auto simp: file_abs_def split: option.splits)
  with None assms show ?thesis
    by (simp add: file_list_def resolve_segment os_lookup_def no_file_ancestor)
next
  case (Some e)
  with wf_fs_top [OF assms] have "map_of fs [a] = Some Dir" by simp
  define es where "es = filter (\<lambda>(n, e). e \<noteq> Dir \<and> \<not> has_prefix n ''.tmp-'') (children fs [a])"
  let ?kv = "\<lambda>(n, e). (store_key a n, case e of File b \<Rightarrow> b | Dir \<Rightarrow> [])"
  have eq: "file_list no_faults fs a = Inr (map ?kv es)"
    using assms \<open>map_of fs [a] = Some Dir\<close>
    by (simp add: file_list_def resolve_segment os_lookup_def no_file_ancestor
        read_entries_ok es_def store_key_def)
  have keys: "map fst (map ?kv es) = map (store_key a) (map fst es)"
    by (induction es) auto
  have "sorted (map fst (children fs [a]))" by (simp add: children_def)
  then have "sorted (map fst es)" by (simp add: es_def sorted_filter)
  then have sorted: "sorted (map fst (map ?kv es))"
    by (simp only: keys sorted_store_keys)
  have "distinct (map fst es)"
    using children_distinct [OF assms(1)] by (simp add: es_def distinct_map_filter)
  then have distinct: "distinct (map fst (map ?kv es))"
    by (simp only: keys distinct_map) (auto simp: inj_on_def)
  have mem: "([a, n], e) \<in> set fs \<longleftrightarrow> map_of fs [a, n] = Some e" for n e
    using assms(1) by (simp add: wf_fs_def)
  have "(k, v) \<in> set (map ?kv es) \<longleftrightarrow> (\<exists>b. plain b \<and> k = store_key a b \<and> file_abs fs (a, b) = Some v)" for k v
  proof
    assume "(k, v) \<in> set (map ?kv es)"
    then obtain n e where n: "(n, e) \<in> set es" "k = store_key a n" "v = (case e of File b \<Rightarrow> b | Dir \<Rightarrow> [])"
      by auto
    then obtain b where e: "e = File b" and l: "map_of fs [a, n] = Some (File b)" and t: "\<not> has_prefix n ''.tmp-''"
      by (cases e) (auto simp: es_def children_set mem)
    from wf_fs_lookup [OF assms(1) l] t have "plain n" by (simp add: plain_def)
    with n e l show "\<exists>b. plain b \<and> k = store_key a b \<and> file_abs fs (a, b) = Some v"
      by (auto simp: file_abs_def)
  next
    assume "\<exists>b. plain b \<and> k = store_key a b \<and> file_abs fs (a, b) = Some v"
    then obtain b where "plain b" "k = store_key a b" "map_of fs [a, b] = Some (File v)"
      by (auto simp: file_abs_Some)
    then have "(b, File v) \<in> set es"
      by (simp add: es_def children_set mem plain_def)
    with \<open>k = store_key a b\<close> show "(k, v) \<in> set (map ?kv es)" by force
  qed
  with eq sorted distinct show ?thesis by blast
qed

interpretation fstore: kv_store "FileStore no_faults" file_abs wf_fs plain
proof (unfold_locales, goal_cases)
  case (1 s a b)
  then show ?case by (simp add: FileStore_def file_get_ok)
next
  case (2 s a b v)
  then show ?case using file_put_ok [of s a b v] by (simp add: FileStore_def)
next
  case (3 s a b)
  then show ?case using file_delete_ok [of s a b] by (simp add: FileStore_def)
next
  case (4 s a b old new)
  then show ?case using file_cas_ok [of s a b old new] by (simp add: FileStore_def)
next
  case (5 s a)
  then show ?case using file_list_ok [of s a] by (simp add: FileStore_def)
qed


subsection \<open>Confinement and crash safety\<close>

lemma clean_rooted_segments:
  assumes "\<And>s. s \<in> set ss \<Longrightarrow> CHR ''/'' \<notin> set s" "\<And>s. s \<in> set out \<Longrightarrow> segment s"
  shows "s \<in> set (clean_rooted ss out) \<Longrightarrow> segment s"
  using assms
proof (induction ss out rule: clean_rooted.induct)
  case (1 out)
  then show ?case by simp
next
  case (2 x ss out)
  have "\<And>s. s \<in> set (tl out) \<Longrightarrow> segment s"
    using 2 by (cases out) auto
  with 2 show ?case by (auto simp: segment_def split: if_splits)
qed

lemma resolve_segments: "resolve key = Inr p \<Longrightarrow> p \<noteq> [] \<and> (\<forall>s \<in> set p. segment s)"
  by (auto simp: resolve_def Let_def dest: split_on_no_sep split: if_splits
      intro: clean_rooted_segments [where ss = "split_on (CHR ''/'') key" and out = "[]"])

definition content :: "fsys \<Rightarrow> path \<Rightarrow> bytes option" where
  "content fs p = (case map_of fs p of Some (File b) \<Rightarrow> Some b | _ \<Rightarrow> None)"

lemma content_mkdir_all [simp]: "content (mkdir_all d fs) p = content fs p"
proof -
  have "content (fold (\<lambda>n fs. case map_of fs (take n d) of
       None \<Rightarrow> (take n d, Dir) # fs | Some _ \<Rightarrow> fs) ns fs) p = content fs p" for ns
    by (induction ns arbitrary: fs) (auto simp: content_def split: option.splits)
  then show ?thesis by (simp add: mkdir_all_def)
qed

lemma content_update [simp]:
  "content (AList.update p (File v) fs) q = (if q = p then Some v else content fs q)"
  by (simp add: content_def AList.update_conv')

lemma content_Cons [simp]:
  "content ((p, File v) # fs) q = (if q = p then Some v else content fs q)"
  by (simp add: content_def)

lemma content_delete [simp]:
  "content (AList.delete p fs) q = (if q = p then None else content fs q)"
  by (simp add: content_def AList.delete_conv')

lemma content_rename:
  "rename_temp flt tmp p fs = Some fs' \<Longrightarrow> content fs tmp = Some v \<Longrightarrow> tmp \<noteq> p \<Longrightarrow>
   content fs' q = (if q = p then Some v else if q = tmp then None else content fs q)"
  by (cases "map_of fs tmp") (auto simp: rename_temp_def content_def AList.update_conv' AList.delete_conv'
      split: if_split_asm entry.splits)

lemma content_remove_temp:
  "content (remove_temp flt tmp fs) q = (if q = tmp \<and> \<not> fails flt RemoveC tmp then None else content fs q)"
  by (simp add: remove_temp_def)

text \<open>
  What a write may do to the files of the tree: \<open>p\<close> is the file of the key and
  \<open>t\<close> the temporary file, which existed neither before nor after a success.
\<close>

definition atomic_write :: "path \<Rightarrow> path \<Rightarrow> bytes \<Rightarrow> fsys \<Rightarrow> error option \<Rightarrow> fsys \<Rightarrow> bool" where
  "atomic_write p t v fs r fs' \<longleftrightarrow>
     (content fs' p = content fs p \<or> content fs' p = Some v) \<and>
     (r = None \<longrightarrow> content fs' p = Some v) \<and>
     (r \<noteq> None \<and> r \<noteq> Some (Errorf ''state: sync directory'') \<longrightarrow> content fs' p = content fs p) \<and>
     (content fs' t = content fs t \<or>
        r \<noteq> None \<and> content fs t = None \<and> (\<exists>n. content fs' t = Some (take n v))) \<and>
     (\<forall>q. q \<noteq> p \<and> q \<noteq> t \<longrightarrow> content fs' q = content fs q)"

lemma CreateTemp_Some:
  "CreateTemp flt dir fs = Some (t, fs') \<Longrightarrow>
   t = dir @ [''.tmp-'' @ temp_suffix flt fs] \<and> map_of fs t = None \<and> fs' = (t, File []) # fs"
  unfolding CreateTemp_def temp_path_def Let_def by (auto split: if_splits)

lemma putLocked_stages:
  assumes "resolve key = Inr p" "putLocked flt key v fs = (r, fs')"
  obtains
    (early) "r \<noteq> None" "r \<noteq> Some (Errorf ''state: sync directory'')" "fs' = fs \<or> fs' = mkdir_all (butlast p) fs"
  | (temp) t fs1 n where "CreateTemp flt (butlast p) (mkdir_all (butlast p) fs) = Some (t, fs1)"
      "r \<noteq> None" "r \<noteq> Some (Errorf ''state: sync directory'')"
      "fs' = remove_temp flt t (AList.update t (File (take n v)) fs1)"
  | (renamed) t fs1 where "CreateTemp flt (butlast p) (mkdir_all (butlast p) fs) = Some (t, fs1)"
      "r = None \<or> r = Some (Errorf ''state: sync directory'')"
      "rename_temp flt t p (AList.update t (File v) fs1) = Some fs'"
proof (cases "fails flt MkdirAllC (butlast p) \<or> has_file_ancestor fs p")
  case True
  with assms early show thesis by (auto simp: putLocked_def)
next
  case False
  show thesis
  proof (cases "CreateTemp flt (butlast p) (mkdir_all (butlast p) fs)")
    case None
    with False assms early show thesis by (auto simp: putLocked_def)
  next
    case (Some tf)
    obtain t fs1 where c: "CreateTemp flt (butlast p) (mkdir_all (butlast p) fs) = Some (t, fs1)"
      using Some by (cases tf) simp
    show thesis
    proof (cases "fails flt WriteC t")
      case True
      then show thesis
        using temp [OF c, of "short_write flt t"] False c assms
        by (auto simp: putLocked_def write_temp_def)
    next
      case w: False
      let ?w = "AList.update t (File v) fs1"
      have "rename_temp flt t p ?w = Some fs' \<and> (r = None \<or> r = Some (Errorf ''state: sync directory'')) \<or>
        r \<noteq> None \<and> r \<noteq> Some (Errorf ''state: sync directory'') \<and> fs' = remove_temp flt t ?w"
        using False w c assms
        by (auto simp: putLocked_def write_temp_def split: if_splits option.splits)
      then show thesis
        using renamed [OF c] temp [OF c, of "length v"] by auto
    qed
  qed
qed

lemma putLocked_atomic:
  assumes "resolve key = Inr p" "\<not> has_prefix (last p) ''.tmp-''" "putLocked flt key v fs = (r, fs')"
  shows "\<exists>s. atomic_write p (butlast p @ [''.tmp-'' @ s]) v fs r fs'"
proof -
  have other: "p \<noteq> butlast p @ [''.tmp-'' @ s]" for s
  proof
    assume "p = butlast p @ [''.tmp-'' @ s]"
    then have "last p = ''.tmp-'' @ s" by (metis last_snoc)
    with assms(2) show False by (simp add: has_prefix_def)
  qed
  have fresh: "content fs t = None" if "map_of (mkdir_all (butlast p) fs) t = None" for t
    using that content_mkdir_all [of "butlast p" fs t] by (simp add: content_def)
  from assms(1,3) show ?thesis
  proof (cases rule: putLocked_stages)
    case early
    then show ?thesis by (auto simp: atomic_write_def)
  next
    case (temp t fs1 n)
    note c = CreateTemp_Some [OF temp(1)]
    from c other have "p \<noteq> t" by blast
    with temp c fresh [of t] have "atomic_write p t v fs r fs'"
      by (auto simp: atomic_write_def content_remove_temp simp del: AList.update.simps)
    with c show ?thesis by blast
  next
    case (renamed t fs1)
    note c = CreateTemp_Some [OF renamed(1)]
    from c other have t: "p \<noteq> t" by blast
    with renamed(2) c fresh [of t] content_rename [OF renamed(3), of v] have "atomic_write p t v fs r fs'"
      by (auto simp: atomic_write_def simp del: AList.update.simps)
    with c show ?thesis by blast
  qed
qed

lemma withWriteLock_cases:
  "\<exists>fs'. (\<forall>q. q \<noteq> lock_path \<longrightarrow> content fs' q = content fs q) \<and>
     (withWriteLock flt failed fn fs = (failed, fs') \<or> withWriteLock flt failed fn fs = fn fs')"
proof -
  define l where "l = (case map_of fs lock_path of None \<Rightarrow> (lock_path, File []) # fs | Some _ \<Rightarrow> fs)"
  have l: "\<forall>q. q \<noteq> lock_path \<longrightarrow> content l q = content fs q"
    by (simp add: l_def content_def split: option.split)
  have eq: "withWriteLock flt failed fn fs =
    (if fails flt MkdirBaseC [] \<or> fails flt OpenLockC lock_path \<or> map_of fs lock_path = Some Dir then (failed, fs)
     else if fails flt FlockC lock_path then (failed, l) else fn l)"
    by (simp only: withWriteLock_def l_def Let_def)
  show ?thesis unfolding eq using l by (auto split: if_splits)
qed

text \<open>
  C2. A put is atomic under any combination of failing system calls, short writes
  and names of the temporary file. For a key whose last segment does not start with
  \<^verbatim>\<open>.tmp-\<close>, the file of the key holds its old content or the whole new value and never a
  part of either. It holds the new value whenever the put reports success, and the old
  content whenever the put reports an error other than a failing directory sync, which
  comes after the rename. Of the other files (the lock file apart) at most one changes: a
  new file \<^verbatim>\<open>.tmp-*\<close> of the same directory that did not exist before, which a failing
  put leaves with a part of the value when its removal fails too, and never a successful
  one. A process that dies between two calls leaves the tree of such a failing put.
\<close>

theorem file_put_atomic:
  assumes "resolve key = Inr p" "p \<noteq> lock_path" "\<not> has_prefix (last p) ''.tmp-''"
    and "file_put flt fs key v = (r, fs')"
  shows "(content fs' p = content fs p \<or> content fs' p = Some v) \<and>
    (r = None \<longrightarrow> content fs' p = Some v) \<and>
    (r \<noteq> None \<and> r \<noteq> Some (Errorf ''state: sync directory'') \<longrightarrow> content fs' p = content fs p) \<and>
    (\<exists>s. let t = butlast p @ [''.tmp-'' @ s] in
       (content fs' t = content fs t \<or>
          r \<noteq> None \<and> content fs t = None \<and> (\<exists>n. content fs' t = Some (take n v))) \<and>
       (\<forall>q. q \<noteq> p \<and> q \<noteq> t \<and> q \<noteq> lock_path \<longrightarrow> content fs' q = content fs q))"
proof -
  from withWriteLock_cases [of fs flt "Some (Errorf ''state: lock'')" "putLocked flt key v"]
  obtain fs1 where fs1: "\<forall>q. q \<noteq> lock_path \<longrightarrow> content fs1 q = content fs q"
    and c: "(r, fs') = (Some (Errorf ''state: lock''), fs1) \<or> (r, fs') = putLocked flt key v fs1"
    using assms(4) unfolding file_put_def by metis
  have lock: "butlast p @ [''.tmp-'' @ s] \<noteq> lock_path" for s
    by (auto simp: lock_path_def)
  from c show ?thesis
  proof
    assume "(r, fs') = (Some (Errorf ''state: lock''), fs1)"
    with fs1 assms(2) lock show ?thesis by (simp add: Let_def)
  next
    assume "(r, fs') = putLocked flt key v fs1"
    from putLocked_atomic [OF assms(1,3) this [symmetric]]
    obtain s where "atomic_write p (butlast p @ [''.tmp-'' @ s]) v fs1 r fs'" by blast
    note a = this [unfolded atomic_write_def]
    have eqs: "content fs1 p = content fs p"
      "content fs1 (butlast p @ [''.tmp-'' @ s]) = content fs (butlast p @ [''.tmp-'' @ s])"
      using fs1 assms(2) lock by blast+
    have rest: "\<forall>q. q \<noteq> p \<and> q \<noteq> butlast p @ [''.tmp-'' @ s] \<and> q \<noteq> lock_path \<longrightarrow> content fs' q = content fs q"
      using a fs1 by metis
    from a [unfolded eqs] rest show ?thesis unfolding Let_def by (intro conjI exI [of _ s]) (elim conjE, assumption)+
  qed
qed

text \<open>
  Two failing puts: one whose directory sync fails has stored the value, and one that runs
  out of space after a byte and cannot remove its temporary file leaves that byte behind.
\<close>

definition demo_sync_fails :: faults where
  "demo_sync_fails = \<lparr>fails = (\<lambda>c p. c = SyncDirC), short_write = (\<lambda>p. 0), temp_suffix = (\<lambda>fs. ''1'')\<rparr>"

definition demo_no_space :: faults where
  "demo_no_space = \<lparr>fails = (\<lambda>c p. c = WriteC \<or> c = RemoveC), short_write = (\<lambda>p. 1), temp_suffix = (\<lambda>fs. ''1'')\<rparr>"

theorem file_put_atomic_witness:
  "file_put demo_sync_fails [] ''vpc/a'' [1, 2] =
     (Some (Errorf ''state: sync directory''), snd (file_put demo_sync_fails [] ''vpc/a'' [1, 2])) \<and>
   content (snd (file_put demo_sync_fails [] ''vpc/a'' [1, 2])) [''vpc'', ''a''] = Some [1, 2] \<and>
   file_put demo_no_space [] ''vpc/a'' [1, 2] =
     (Some (Errorf ''state: put write''), snd (file_put demo_no_space [] ''vpc/a'' [1, 2])) \<and>
   content (snd (file_put demo_no_space [] ''vpc/a'' [1, 2])) [''vpc'', ''a''] = content [] [''vpc'', ''a''] \<and>
   content (snd (file_put demo_no_space [] ''vpc/a'' [1, 2])) [''vpc'', ''.tmp-1''] = Some [1]"
proof -
  have k: "resolve ''vpc/a'' = Inr [''vpc'', ''a'']" "[''vpc'', ''a''] \<noteq> lock_path"
    "\<not> has_prefix (last [''vpc'', ''a'']) ''.tmp-''"
    by (simp_all add: resolve_def lock_path_def has_prefix_def)
  have r: "file_put demo_sync_fails [] ''vpc/a'' [1, 2] =
      (Some (Errorf ''state: sync directory''), snd (file_put demo_sync_fails [] ''vpc/a'' [1, 2]))"
    "content (snd (file_put demo_sync_fails [] ''vpc/a'' [1, 2])) [''vpc'', ''a''] = Some [1, 2]"
    and w: "file_put demo_no_space [] ''vpc/a'' [1, 2] =
      (Some (Errorf ''state: put write''), snd (file_put demo_no_space [] ''vpc/a'' [1, 2]))"
    "content (snd (file_put demo_no_space [] ''vpc/a'' [1, 2])) [''vpc'', ''.tmp-1''] = Some [1]"
    by code_simp+
  from file_put_atomic [OF k w(1)]
  have "content (snd (file_put demo_no_space [] ''vpc/a'' [1, 2])) [''vpc'', ''a''] = content [] [''vpc'', ''a'']"
    by simp
  with r w show ?thesis by simp
qed

text \<open>
  C1. Without system-call faults the file store refines the map: whatever sequence of
  reads, writes, deletes and compare-and-swaps clients issue on registry keys, every
  reply is the one the finite map gives. A registry key is a kind and a uid that are
  ordinary names, neither the lock file nor a temporary file. A swap expects either an
  absent key (the nil slice) or a non-empty value: a swap that expects an empty value is
  left out, because on an absent key the file store applies it and the map does not
  (\<open>cas_empty_swaps_absent\<close>).
\<close>

theorem file_store_refines_map:
  assumes "list_all (call_ok plain) cs"
  shows "run_calls (kv_step (FileStore no_faults)) [] cs = run_calls spec_step (\<lambda>_. None) cs"
proof -
  have "file_abs [] = (\<lambda>_. None)" by (rule ext) (simp add: file_abs_def)
  with fstore.run_refines [of "[]" cs] assms show ?thesis by (simp add: wf_fs_def)
qed

theorem file_store_refines_map_witness:
  "run_calls (kv_step (FileStore no_faults)) []
     [KPut ''vpc'' ''a'' [1], KCas ''vpc'' ''a'' (Some [1]) [2], KGet ''vpc'' ''a'', KGet ''vpc'' ''b''] =
   [Done None, Swapped (Inr True), Bytes (Inr [2]), Bytes (Inl ErrNotFound)]"
  by (subst file_store_refines_map) (simp_all add: plain_def segment_def has_prefix_def)

text \<open>
  The interface promises that a swap is applied only if the current value equals the
  expected one, and that the nil slice expects an absent key. A swap that expects the
  empty value is applied to an absent key, for every key and every state of the store,
  where the map refuses it.
\<close>

theorem cas_empty_swaps_absent:
  assumes "wf_fs fs" "plain a" "plain b" "file_abs fs (a, b) = None"
  shows "fst (kv_step (FileStore no_faults) fs (KCas a b (Some []) new)) = Swapped (Inr True) \<and>
    fst (spec_step (file_abs fs) (KCas a b (Some []) new)) = Swapped (Inr False)"
proof -
  from lock_prologue [OF assms(1)] obtain fs1 where
    "file_cas no_faults fs (store_key a b) (Some []) new = casLocked no_faults (store_key a b) (Some []) new fs1"
    "wf_fs fs1" "file_abs fs1 = file_abs fs"
    unfolding file_cas_def by metis
  with putLocked_ok [of fs1 a b new] assms show ?thesis
    by (auto simp: FileStore_def casLocked_def file_get_ok)
qed

text \<open>
  C3. Keys stay inside the store's directory: a key resolves to a non-empty
  list of ordinary names, none of them empty, a dot, a double dot or holding a
  separator, so no key reaches outside the base directory.
\<close>

theorem resolve_confined: "resolve key = Inr p \<Longrightarrow> p \<noteq> [] \<and> list_all segment p"
  unfolding list_all_iff using resolve_segments by blast

theorem resolve_confined_witness:
  "resolve ''vpc/../a'' = Inr [''a''] \<and> [''a''] \<noteq> [] \<and> list_all segment [''a'']"
proof -
  have r: "resolve ''vpc/../a'' = Inr [''a'']" by code_simp
  with resolve_confined [of "''vpc/../a''" "[''a'']"] show ?thesis by simp
qed

text \<open>
  Confinement is not separation: a uid that holds parent segments names a
  record of another kind. The registry key of a VPC with the uid
  \<^verbatim>\<open>../iam_binding/x\<close> is the file of the IAM binding \<^verbatim>\<open>x\<close>, so
  writing the one replaces the other.
\<close>

theorem resolve_alias:
  assumes "segment a" "segment b" "segment u"
  shows "resolve (store_key a (''../'' @ store_key b u)) = resolve (store_key b u)"
proof -
  have "split_on (CHR ''/'') (store_key a (''../'' @ store_key b u)) = [a, ''..'', b, u]"
    using assms by (simp add: store_key_def segment_def split_on_append split_on_single)
  moreover have "store_key a (''../'' @ store_key b u) \<noteq> []"
    by (simp add: store_key_def)
  ultimately have "resolve (store_key a (''../'' @ store_key b u)) = Inr [b, u]"
    using assms by (simp add: resolve_def segment_def)
  with assms show ?thesis by (simp add: resolve_store_key)
qed

theorem resolve_alias_witness:
  "file_get no_faults
     (snd (file_put no_faults [] (store_key ''vpc'' ''../iam_binding/x'') [7]))
     (store_key ''iam_binding'' ''x'') = Inr [7]"
proof -
  have "resolve (store_key ''vpc'' ''../iam_binding/x'') = Inr [''iam_binding'', ''x'']"
    using resolve_alias [of "''vpc''" "''iam_binding''" "''x''"]
    by (simp add: segment_def store_key_def resolve_def)
  then show ?thesis
    by (simp add: file_put_def putLocked_healthy withWriteLock_def file_get_def os_lookup_def
        has_file_ancestor_def mkdir_all_def lock_path_def resolve_def store_key_def)
qed

end
