(* ===== verification/Sha256.thy ===== *)
theory Sha256
  imports Prelude
begin

text \<open>
  The SHA-256 digest of \<^verbatim>\<open>crypto/sha256\<close> (FIPS 180-4) and the lower-case
  hexadecimal form of \<^verbatim>\<open>encoding/hex\<close>, which together give a stored value
  its revision. Nothing proved later depends on more of them than that they are
  functions of the bytes.
\<close>

type_synonym u32 = "32 word"

definition rotr :: "nat \<Rightarrow> u32 \<Rightarrow> u32" where
  "rotr n x = drop_bit n x OR push_bit (32 - n) x"

text \<open>
  The constants are the first 32 bits of the fractional parts of the square
  and cube roots of the first primes, computed here from integer roots.
\<close>

fun root_search :: "nat \<Rightarrow> nat \<Rightarrow> nat \<Rightarrow> nat \<Rightarrow> nat" where
  "root_search 0 k n r = r"
| "root_search (Suc b) k n r =
     (let r' = r + 2 ^ b in root_search b k n (if r' ^ k \<le> n then r' else r))"

definition frac_root :: "nat \<Rightarrow> nat \<Rightarrow> u32" where
  "frac_root k p = word_of_nat (root_search 40 k (p * 2 ^ (32 * k)) 0)"

definition small_primes :: "nat list" where
  "small_primes = filter (\<lambda>p. list_all (\<lambda>d. p mod d \<noteq> 0) [2..<p]) [2..<312]"

definition sha_k :: "u32 list" where
  "sha_k = map (frac_root 3) small_primes"

definition sha_init :: "u32 list" where
  "sha_init = map (frac_root 2) [2, 3, 5, 7, 11, 13, 17, 19]"

definition be_word :: "bytes \<Rightarrow> u32" where
  "be_word bs = le_get (rev bs)"

definition be_put :: "nat \<Rightarrow> 'a::len word \<Rightarrow> bytes" where
  "be_put n w = rev (le_put n w)"

definition sha_pad :: "bytes \<Rightarrow> bytes" where
  "sha_pad m = (let n = length m; z = (119 - n mod 64) mod 64 in
     m @ [0x80] @ replicate z 0 @ be_put 8 (word_of_nat (8 * n) :: 64 word))"

fun chunks :: "nat \<Rightarrow> nat \<Rightarrow> 'a list \<Rightarrow> 'a list list" where
  "chunks 0 k xs = []"
| "chunks (Suc c) k xs = take k xs # chunks c k (drop k xs)"

text \<open>The message schedule, newest word first.\<close>

fun sha_extend :: "nat \<Rightarrow> u32 list \<Rightarrow> u32 list" where
  "sha_extend 0 w = w"
| "sha_extend (Suc n) w =
     (let a = w ! 14; b = w ! 1;
          s0 = rotr 7 a XOR rotr 18 a XOR drop_bit 3 a;
          s1 = rotr 17 b XOR rotr 19 b XOR drop_bit 10 b
      in sha_extend n ((w ! 15 + s0 + w ! 6 + s1) # w))"

fun sha_round :: "u32 list \<Rightarrow> u32 \<times> u32 \<Rightarrow> u32 list" where
  "sha_round [a, b, c, d, e, f, g, h] (k, w) =
     (let s1 = rotr 6 e XOR rotr 11 e XOR rotr 25 e;
          ch = (e AND f) XOR (NOT e AND g);
          t1 = h + s1 + ch + k + w;
          s0 = rotr 2 a XOR rotr 13 a XOR rotr 22 a;
          mj = (a AND b) XOR (a AND c) XOR (b AND c)
      in [t1 + s0 + mj, a, b, c, d + t1, e, f, g])"
| "sha_round st _ = st"

definition sha_block :: "u32 list \<Rightarrow> bytes \<Rightarrow> u32 list" where
  "sha_block st blk =
     (let w = rev (sha_extend 48 (rev (map be_word (chunks 16 4 blk))))
      in map2 (+) st (foldl sha_round st (zip sha_k w)))"

definition sha256 :: "bytes \<Rightarrow> bytes" where
  "sha256 m = (let p = sha_pad m in
     concat (map (be_put 4) (foldl sha_block sha_init (chunks (length p div 64) 64 p))))"

definition hex_digit :: "nat \<Rightarrow> char" where
  "hex_digit n = ''0123456789abcdef'' ! n"

definition hex_encode :: "bytes \<Rightarrow> string" where
  "hex_encode bs = concat (map (\<lambda>b. [hex_digit (unat b div 16), hex_digit (unat b mod 16)]) bs)"

definition revision :: "bytes \<Rightarrow> string" where
  "revision data = hex_encode (sha256 data)"

lemma length_be_put [simp]: "length (be_put n w) = n"
  by (simp add: be_put_def)

lemma length_sha_round [simp]: "length st = 8 \<Longrightarrow> length (sha_round st kw) = 8"
  by (induction st kw rule: sha_round.induct) (simp_all add: Let_def)

lemma length_sha_rounds [simp]: "length st = 8 \<Longrightarrow> length (foldl sha_round st kws) = 8"
  by (induction kws arbitrary: st) auto

lemma length_sha_block [simp]: "length st = 8 \<Longrightarrow> length (sha_block st blk) = 8"
  by (simp add: sha_block_def Let_def)

lemma length_sha_blocks [simp]: "length st = 8 \<Longrightarrow> length (foldl sha_block st bs) = 8"
  by (induction bs arbitrary: st) auto

lemma length_sha256: "length (sha256 m) = 32"
proof -
  have "length (concat (map (be_put 4) ws)) = 4 * length ws" for ws :: "u32 list"
    by (induction ws) auto
  moreover have "length sha_init = 8" by (simp add: sha_init_def)
  ultimately show ?thesis by (simp add: sha256_def Let_def)
qed

lemma length_hex_encode: "length (hex_encode bs) = 2 * length bs"
  by (induction bs) (simp_all add: hex_encode_def)

text \<open>A revision is never the empty string, which stands for an absent one.\<close>

lemma revision_nonempty [simp]: "revision d \<noteq> []"
  using length_sha256 [of d] length_hex_encode [of "sha256 d"]
  by (auto simp: revision_def)

end
