(* ===== verification/Registry.thy ===== *)
theory Registry
  imports Resource Store Sha256
begin

text \<open>
  The typed registry over the byte store (\<^verbatim>\<open>internal/registry\<close>). Specs and
  statuses are type parameters of the Go type, so their JSON form is a
  parameter here: a \<open>codec\<close> holds \<^verbatim>\<open>json.Marshal\<close> and
  \<^verbatim>\<open>json.Unmarshal\<close> at the resource type, and the locale
  \<open>typed_registry\<close> states what the registry relies on. A put reads the stored
  bytes and swaps against them in two store calls; \<open>put_prepare\<close> and
  \<open>put_swap\<close> are the parts before and after the point where another writer can
  run.
\<close>

record ('s, 'st) codec =
  marshal :: "('s, 'st) resource \<Rightarrow> bytes option"
  unmarshal :: "bytes \<Rightarrow> ('s, 'st) resource option"
  unmarshal_meta :: "bytes \<Rightarrow> object_meta option"

record ('w, 's, 'st) registry =
  reg_store :: "'w store_ops"
  reg_kind :: string
  reg_codec :: "('s, 'st) codec"

definition reg_key :: "('w, 's, 'st) registry \<Rightarrow> string \<Rightarrow> string" where
  "reg_key r uid = store_key (reg_kind r) uid"

definition set_rv :: "string \<Rightarrow> ('s, 'st) resource \<Rightarrow> ('s, 'st) resource" where
  "set_rv v res = res\<lparr>metadata := (metadata res)\<lparr>md_resourceVersion := v\<rparr>\<rparr>"

abbreviation uid_of :: "('s, 'st) resource \<Rightarrow> string" where
  "uid_of res \<equiv> md_uid (metadata res)"

abbreviation rv_of :: "('s, 'st) resource \<Rightarrow> string" where
  "rv_of res \<equiv> md_resourceVersion (metadata res)"

definition stamp :: "('w, 's, 'st) registry \<Rightarrow> ('s, 'st) resource \<Rightarrow> ('s, 'st) resource" where
  "stamp r res = res\<lparr>apiVersion := APIVersion, kind := reg_kind r\<rparr>"

text \<open>\<^verbatim>\<open>Put\<close> up to its compare-and-swap: the expected bytes and the new ones.\<close>

definition put_prepare ::
    "('w, 's, 'st) registry \<Rightarrow> 'w \<Rightarrow> ('s, 'st) resource \<Rightarrow> (bytes option \<times> bytes) result" where
  "put_prepare r w res =
     (if uid_of res = [] then Inl (Errorf ''registry: resource has empty UID'')
      else case marshal (reg_codec r) (set_rv [] (stamp r res)) of
        None \<Rightarrow> Inl (Errorf ''registry: marshal'')
      | Some data \<Rightarrow>
          if rv_of res \<noteq> [] then
            (case st_get (reg_store r) w (reg_key r (uid_of res)) of
               Inl e \<Rightarrow> if errors_is e ErrNotFound then Inl ErrConflict else Inl e
             | Inr old \<Rightarrow> if revision old \<noteq> rv_of res then Inl ErrConflict else Inr (Some old, data))
          else Inr (None, data))"

definition put_swap ::
    "('w, 's, 'st) registry \<Rightarrow> 'w \<Rightarrow> ('s, 'st) resource \<Rightarrow> bytes option \<times> bytes \<Rightarrow>
      ('s, 'st) resource result \<times> 'w" where
  "put_swap r w res p = (case p of (old, data) \<Rightarrow>
     (case st_cas (reg_store r) w (reg_key r (uid_of res)) old data of
        (Inl e, w') \<Rightarrow> (Inl (Wrap ''registry: put'' e), w')
      | (Inr False, w') \<Rightarrow> (Inl ErrConflict, w')
      | (Inr True, w') \<Rightarrow> (Inr (set_rv (revision data) (stamp r res)), w')))"

text \<open>
  \<^verbatim>\<open>Put\<close> changes its argument in place; the resource returned is the
  argument after a successful call.
\<close>

definition reg_put ::
    "('w, 's, 'st) registry \<Rightarrow> 'w \<Rightarrow> ('s, 'st) resource \<Rightarrow> ('s, 'st) resource result \<times> 'w" where
  "reg_put r w res = (case put_prepare r w res of
     Inl e \<Rightarrow> (Inl e, w)
   | Inr p \<Rightarrow> put_swap r w res p)"

definition reg_WithContext :: "error option \<Rightarrow> ('w, 's, 'st) registry \<Rightarrow> ('w, 's, 'st) registry" where
  "reg_WithContext ctx r = r\<lparr>reg_store := WithContext ctx (reg_store r)\<rparr>"

definition reg_get :: "('w, 's, 'st) registry \<Rightarrow> 'w \<Rightarrow> string \<Rightarrow> ('s, 'st) resource result" where
  "reg_get r w uid = (case st_get (reg_store r) w (reg_key r uid) of
     Inl e \<Rightarrow> Inl e
   | Inr data \<Rightarrow> (case unmarshal (reg_codec r) data of
       None \<Rightarrow> Inl (Errorf ''registry: unmarshal'')
     | Some res \<Rightarrow> Inr (set_rv (revision data) res)))"

definition reg_delete :: "('w, 's, 'st) registry \<Rightarrow> 'w \<Rightarrow> string \<Rightarrow> error option \<times> 'w" where
  "reg_delete r w uid = (case st_delete (reg_store r) w (reg_key r uid) of
     (Some e, w') \<Rightarrow> (Some (Wrap ''registry: delete'' e), w')
   | (None, w') \<Rightarrow> (None, w'))"

definition update_prepare ::
    "('w, 's, 'st) registry \<Rightarrow> 'w \<Rightarrow> string \<Rightarrow> (('s, 'st) resource \<Rightarrow> ('s, 'st) resource result) \<Rightarrow>
      (bytes \<times> bytes) result" where
  "update_prepare r w uid mutate = (case st_get (reg_store r) w (reg_key r uid) of
     Inl e \<Rightarrow> Inl (Wrap ''registry: get'' e)
   | Inr old \<Rightarrow> (case unmarshal (reg_codec r) old of
       None \<Rightarrow> Inl (Errorf ''registry: unmarshal'')
     | Some res \<Rightarrow> (case mutate (set_rv (revision old) res) of
         Inl e \<Rightarrow> Inl e
       | Inr res \<Rightarrow> (case marshal (reg_codec r) (set_rv [] (stamp r res)) of
           None \<Rightarrow> Inl (Errorf ''registry: marshal'')
         | Some data \<Rightarrow> Inr (old, data)))))"

definition update_swap ::
    "('w, 's, 'st) registry \<Rightarrow> 'w \<Rightarrow> string \<Rightarrow> bytes \<times> bytes \<Rightarrow> bool result \<times> 'w" where
  "update_swap r w uid p = (case p of (old, data) \<Rightarrow>
     (case st_cas (reg_store r) w (reg_key r uid) (Some old) data of
        (Inl e, w') \<Rightarrow> (Inl (Wrap ''registry: swap'' e), w')
      | (Inr ok, w') \<Rightarrow> (Inr ok, w')))"

definition TryUpdate ::
    "('w, 's, 'st) registry \<Rightarrow> 'w \<Rightarrow> string \<Rightarrow> (('s, 'st) resource \<Rightarrow> ('s, 'st) resource result) \<Rightarrow>
      bool result \<times> 'w" where
  "TryUpdate r w uid mutate = (case update_prepare r w uid mutate of
     Inl e \<Rightarrow> (Inl e, w)
   | Inr p \<Rightarrow> update_swap r w uid p)"

fun decode_all :: "('s, 'st) codec \<Rightarrow> (string \<times> bytes) list \<Rightarrow> ('s, 'st) resource list result" where
  "decode_all c [] = Inr []"
| "decode_all c ((k, v) # kvs) = (case unmarshal c v of
     None \<Rightarrow> Inl (Errorf ''registry: unmarshal'')
   | Some res \<Rightarrow> (case decode_all c kvs of
       Inl e \<Rightarrow> Inl e
     | Inr items \<Rightarrow> Inr (set_rv (revision v) res # items)))"

definition reg_list :: "('w, 's, 'st) registry \<Rightarrow> 'w \<Rightarrow> ('s, 'st) resource list result" where
  "reg_list r w = (case st_list (reg_store r) w (reg_kind r) of
     Inl e \<Rightarrow> Inl (Wrap ''registry: list'' e)
   | Inr kvs \<Rightarrow> decode_all (reg_codec r) kvs)"

definition invalid_reference_uid :: "string \<Rightarrow> bool" where
  "invalid_reference_uid uid = (uid = ''.'' \<or> uid = ''..'' \<or>
     CHR ''/'' \<in> set uid \<or> CHR 0x5C \<in> set uid \<or> CHR 0x00 \<in> set uid)"

definition LookupMetadata ::
    "('w, 's, 'st) registry \<Rightarrow> 'w \<Rightarrow> string \<Rightarrow> string \<Rightarrow> object_meta result" where
  "LookupMetadata r w knd uid =
     (if invalid_reference_uid uid then Inl (Errorf ''invalid reference uid'')
      else case st_get (reg_store r) w (store_key knd uid) of
        Inl e \<Rightarrow> Inl e
      | Inr data \<Rightarrow> (case unmarshal_meta (reg_codec r) data of
          None \<Rightarrow> Inl (Errorf ''json: metadata'')
        | Some m \<Rightarrow> Inr m))"

subsection \<open>What the registry promises\<close>

lemma set_rv_simps [simp]:
  "uid_of (set_rv v res) = uid_of res" "rv_of (set_rv v res) = v"
  "spec (set_rv v res) = spec res" "status (set_rv v res) = status res"
  "kind (set_rv v res) = kind res" "apiVersion (set_rv v res) = apiVersion res"
  "set_rv v (set_rv v' res) = set_rv v res"
  by (simp_all add: set_rv_def)

lemma stamp_simps [simp]:
  "metadata (stamp r res) = metadata res" "spec (stamp r res) = spec res"
  "status (stamp r res) = status res" "kind (stamp r res) = reg_kind r"
  by (simp_all add: stamp_def)

text \<open>
  The resource a stored value stands for, and the typed view of one kind: a
  finite map from uids to resources that carry their revision.
\<close>

definition decode :: "('s, 'st) codec \<Rightarrow> bytes \<Rightarrow> ('s, 'st) resource option" where
  "decode c d = map_option (set_rv (revision d)) (unmarshal c d)"

definition view ::
    "('s, 'st) codec \<Rightarrow> string \<Rightarrow> (string \<times> string \<Rightarrow> bytes option) \<Rightarrow> string \<Rightarrow> ('s, 'st) resource option" where
  "view c k m uid = Option.bind (m (k, uid)) (decode c)"

definition typed_kind ::
    "('s, 'st) codec \<Rightarrow> string \<Rightarrow> (string \<times> string \<Rightarrow> bytes option) \<Rightarrow> bool" where
  "typed_kind c k m = (\<forall>uid d. m (k, uid) = Some d \<longrightarrow>
     (\<exists>res. marshal c res = Some d \<and> uid_of res = uid \<and> rv_of res = []))"

text \<open>The revision a put must carry: empty for a new resource.\<close>

definition current_rv :: "('s, 'st) resource option \<Rightarrow> string" where
  "current_rv v = (case v of None \<Rightarrow> [] | Some res \<Rightarrow> rv_of res)"

locale typed_registry = kv_store ops abs inv ok
  for ops :: "'w store_ops" and abs inv ok +
  fixes R :: "('w, 's, 'st) registry"
  assumes reg_store [simp]: "reg_store R = ops"
    and kind_ok [simp]: "ok (reg_kind R)"
    and json_round_trip: "marshal (reg_codec R) res = Some d \<Longrightarrow> unmarshal (reg_codec R) d = Some res"
    and json_nonempty: "marshal (reg_codec R) res \<noteq> Some []"
begin

abbreviation vw where "vw w \<equiv> view (reg_codec R) (reg_kind R) (abs w)"

abbreviation good where "good w \<equiv> inv w \<and> typed_kind (reg_codec R) (reg_kind R) (abs w)"

lemma stored_decodes:
  assumes "good w" "abs w (reg_kind R, uid) = Some d"
  shows "\<exists>res. marshal (reg_codec R) res = Some d \<and> unmarshal (reg_codec R) d = Some res \<and>
    uid_of res = uid \<and> rv_of res = [] \<and> d \<noteq> [] \<and> vw w uid = Some (set_rv (revision d) res)"
proof -
  from assms obtain res where r: "marshal (reg_codec R) res = Some d" "uid_of res = uid" "rv_of res = []"
    unfolding typed_kind_def by blast
  moreover from r have "unmarshal (reg_codec R) d = Some res" by (simp add: json_round_trip)
  moreover from r json_nonempty have "d \<noteq> []" by metis
  ultimately show ?thesis using assms by (auto simp: view_def decode_def)
qed

lemma vw_None [simp]: "good w \<Longrightarrow> vw w uid = None \<longleftrightarrow> abs w (reg_kind R, uid) = None"
  using stored_decodes [of w uid] by (cases "abs w (reg_kind R, uid)") (auto simp: view_def)

lemma vw_uid: "good w \<Longrightarrow> vw w uid = Some res \<Longrightarrow> uid_of res = uid \<and> rv_of res \<noteq> []"
  using stored_decodes [of w uid] by (cases "abs w (reg_kind R, uid)") (auto simp: view_def)

lemma current_rv_vw:
  "good w \<Longrightarrow> current_rv (vw w uid) =
     (case abs w (reg_kind R, uid) of None \<Rightarrow> [] | Some d \<Rightarrow> revision d)"
  using stored_decodes [of w uid]
  by (cases "abs w (reg_kind R, uid)") (auto simp: view_def current_rv_def)

lemma get_view:
  "good w \<Longrightarrow> ok uid \<Longrightarrow>
   reg_get R w uid = (case vw w uid of None \<Rightarrow> Inl ErrNotFound | Some res \<Rightarrow> Inr res)"
  using stored_decodes [of w uid]
  by (cases "abs w (reg_kind R, uid)") (auto simp: reg_get_def reg_key_def get_law view_def)

lemma typed_kind_upd:
  "typed_kind c k m \<Longrightarrow> marshal c res = Some d \<Longrightarrow> uid_of res = uid \<Longrightarrow> rv_of res = [] \<Longrightarrow>
   typed_kind c k (m((k, uid) \<mapsto> d))"
  by (auto simp: typed_kind_def)

lemma view_upd:
  assumes "marshal (reg_codec R) res = Some d"
  shows "view (reg_codec R) (reg_kind R) (m((reg_kind R, uid) \<mapsto> d)) =
    (view (reg_codec R) (reg_kind R) m)(uid \<mapsto> set_rv (revision d) res)"
  using assms by (auto simp: view_def decode_def json_round_trip)

lemma prepare_result:
  assumes "good w" "ok (uid_of res)" "uid_of res \<noteq> []"
    and "marshal (reg_codec R) (set_rv [] (stamp R res)) = Some d"
  shows "put_prepare R w res =
    (if rv_of res = [] then Inr (None, d)
     else if current_rv (vw w (uid_of res)) = rv_of res then Inr (abs w (reg_kind R, uid_of res), d)
     else Inl ErrConflict)"
  using assms
  by (auto simp: put_prepare_def reg_key_def get_law current_rv_vw split: option.split)

lemma swap_result:
  assumes "good w" "ok (uid_of res)" "old \<noteq> Some []"
    and "marshal (reg_codec R) (set_rv [] (stamp R res)) = Some d"
  shows "\<exists>w'. put_swap R w res (old, d) =
      (if abs w (reg_kind R, uid_of res) = old then Inr (set_rv (revision d) (stamp R res)) else Inl ErrConflict, w') \<and>
    good w' \<and> abs w' = (if abs w (reg_kind R, uid_of res) = old
      then (abs w)((reg_kind R, uid_of res) \<mapsto> d) else abs w)"
proof -
  from cas_law [of w "reg_kind R" "uid_of res" old d] assms obtain w' where
    w': "st_cas ops w (store_key (reg_kind R) (uid_of res)) old d =
           (Inr (abs w (reg_kind R, uid_of res) = old), w')" "inv w'"
      "abs w' = (if abs w (reg_kind R, uid_of res) = old
         then (abs w)((reg_kind R, uid_of res) \<mapsto> d) else abs w)"
    by auto
  moreover have "typed_kind (reg_codec R) (reg_kind R) (abs w')"
    using w'(3) assms typed_kind_upd [OF _ assms(4)] by auto
  ultimately show ?thesis
    by (intro exI [of _ w']) (auto simp: put_swap_def reg_key_def)
qed

text \<open>
  A put succeeds exactly when the caller's revision is the current one, and
  then the view gains the caller's resource and nothing else; otherwise it
  reports a conflict and changes nothing.
\<close>

lemma put_view:
  assumes "good w" "ok (uid_of res)" "uid_of res \<noteq> []"
    and "marshal (reg_codec R) (set_rv [] (stamp R res)) = Some d"
  shows "\<exists>w'. reg_put R w res =
      (if current_rv (vw w (uid_of res)) = rv_of res
       then Inr (set_rv (revision d) (stamp R res)) else Inl ErrConflict, w') \<and> good w' \<and>
    abs w' = (if current_rv (vw w (uid_of res)) = rv_of res
      then (abs w)((reg_kind R, uid_of res) \<mapsto> d) else abs w)"
proof (cases "abs w (reg_kind R, uid_of res)")
  case None
  then show ?thesis
    using assms prepare_result [OF assms] swap_result [of w res None d] current_rv_vw [of w "uid_of res"]
    by (auto simp: reg_put_def)
next
  case (Some old)
  with stored_decodes [of w "uid_of res" old] assms have "old \<noteq> []" by blast
  with Some show ?thesis
    using assms prepare_result [OF assms] swap_result [of w res None d]
      swap_result [of w res "Some old" d] current_rv_vw [of w "uid_of res"]
    by (auto simp: reg_put_def)
qed

lemma put_view_upd:
  assumes "good w" "ok (uid_of res)" "uid_of res \<noteq> []"
    and "marshal (reg_codec R) (set_rv [] (stamp R res)) = Some d"
    and "current_rv (vw w (uid_of res)) = rv_of res"
  shows "\<exists>w'. reg_put R w res = (Inr (set_rv (revision d) (stamp R res)), w') \<and> good w' \<and>
    vw w' = (vw w)(uid_of res \<mapsto> set_rv (revision d) (stamp R res))"
  using put_view [OF assms(1-4)] assms(5) view_upd [OF assms(4)] by auto

text \<open>
  No update is lost: however the store changed between the read of a put and
  its swap, the swap is applied only if the value it replaces still has the
  revision the caller had seen.
\<close>

lemma no_lost_update:
  assumes "good w1" "good w2" "ok (uid_of res)"
    and "put_prepare R w1 res = Inr (old, d)" "put_swap R w2 res (old, d) = (Inr res', w3)"
  shows "current_rv (vw w2 (uid_of res)) = rv_of res \<and> good w3 \<and>
    abs w3 = (abs w2)((reg_kind R, uid_of res) \<mapsto> d) \<and> vw w3 (uid_of res) = Some res'"
proof -
  have m: "marshal (reg_codec R) (set_rv [] (stamp R res)) = Some d" and u: "uid_of res \<noteq> []"
    using assms(4) by (auto simp: put_prepare_def split: if_splits option.splits sum.splits)
  from prepare_result [OF assms(1,3) u m] assms(1,4)
  have old: "old = (if rv_of res = [] then None else abs w1 (reg_kind R, uid_of res))"
    and rv: "rv_of res \<noteq> [] \<longrightarrow> current_rv (vw w1 (uid_of res)) = rv_of res"
    by (auto split: if_splits)
  have "old \<noteq> Some []"
    using old stored_decodes [OF assms(1), of "uid_of res"] by auto
  from swap_result [OF assms(2,3) this m] assms(5)
  have s: "abs w2 (reg_kind R, uid_of res) = old" "good w3"
    "abs w3 = (abs w2)((reg_kind R, uid_of res) \<mapsto> d)" "res' = set_rv (revision d) (stamp R res)"
    by (auto split: if_splits)
  have "current_rv (vw w2 (uid_of res)) = rv_of res"
    using s(1) old rv by (auto simp: current_rv_vw assms(1,2) split: option.splits if_splits)
  then show ?thesis using s view_upd [OF m] by auto
qed

lemma delete_view:
  assumes "good w" "ok uid"
  shows "\<exists>w'. reg_delete R w uid = (None, w') \<and> good w' \<and> vw w' = (vw w)(uid := None) \<and>
    abs w' = (abs w)((reg_kind R, uid) := None)"
proof -
  from delete_law [of w "reg_kind R" uid] assms obtain w' where
    "st_delete ops w (store_key (reg_kind R) uid) = (None, w')" "inv w'"
    "abs w' = (abs w)((reg_kind R, uid) := None)" by auto
  with assms show ?thesis
    by (intro exI [of _ w']) (auto simp: reg_delete_def reg_key_def typed_kind_def view_def)
qed

lemma decode_all_result:
  "(\<And>k v. (k, v) \<in> set kvs \<Longrightarrow> unmarshal c v \<noteq> None) \<Longrightarrow>
   decode_all c kvs = Inr (map (\<lambda>(k, v). the (decode c v)) kvs)"
proof (induction kvs)
  case Nil
  then show ?case by simp
next
  case (Cons kv kvs)
  obtain k v where kv: "kv = (k, v)" by (cases kv)
  from Cons.prems [of k v] kv obtain res where "unmarshal c v = Some res" by auto
  moreover have "decode_all c kvs = Inr (map (\<lambda>(k, v). the (decode c v)) kvs)"
    using Cons.prems by (intro Cons.IH) auto
  ultimately show ?case by (simp add: kv decode_def)
qed

text \<open>A listing has every resource of the kind once, in the order of the uids' keys.\<close>

lemma list_view:
  assumes "good w"
  shows "\<exists>items. reg_list R w = Inr items \<and> set items = {res. \<exists>uid. ok uid \<and> vw w uid = Some res} \<and>
    distinct (map uid_of items) \<and> sorted (map (\<lambda>res. store_key (reg_kind R) (uid_of res)) items)"
proof -
  from list_law [of w "reg_kind R"] assms(1) obtain kvs where
    kvs: "st_list ops w (reg_kind R) = Inr kvs" "distinct (map fst kvs)" "sorted (map fst kvs)"
      "\<And>k v. (k, v) \<in> set kvs \<longleftrightarrow>
        (\<exists>b. ok b \<and> k = store_key (reg_kind R) b \<and> abs w (reg_kind R, b) = Some v)"
    by auto
  define items where "items = map (\<lambda>(k, v). the (decode (reg_codec R) v)) kvs"
  have dec: "\<exists>res. decode (reg_codec R) v = Some res \<and> k = store_key (reg_kind R) (uid_of res) \<and>
      ok (uid_of res) \<and> vw w (uid_of res) = Some res" if "(k, v) \<in> set kvs" for k v
  proof -
    from that kvs(4) obtain b where b: "ok b" "k = store_key (reg_kind R) b" "abs w (reg_kind R, b) = Some v"
      by blast
    from stored_decodes [OF assms(1) b(3)] show ?thesis
      using b by (auto simp: decode_def)
  qed
  have "reg_list R w = Inr items"
    unfolding reg_list_def items_def
    using kvs(1) dec decode_all_result [of kvs "reg_codec R"]
    by (fastforce simp: decode_def)
  moreover have "set items = {res. \<exists>uid. ok uid \<and> vw w uid = Some res}"
  proof (intro equalityI subsetI)
    fix res
    assume "res \<in> set items"
    then obtain k v where "(k, v) \<in> set kvs" "res = the (decode (reg_codec R) v)"
      by (auto simp: items_def)
    with dec show "res \<in> {res. \<exists>uid. ok uid \<and> vw w uid = Some res}" by force
  next
    fix res
    assume "res \<in> {res. \<exists>uid. ok uid \<and> vw w uid = Some res}"
    then obtain uid where u: "ok uid" "vw w uid = Some res" by auto
    then obtain d where d: "abs w (reg_kind R, uid) = Some d" "decode (reg_codec R) d = Some res"
      by (auto simp: view_def bind_eq_Some_conv)
    with u kvs(4) have "(store_key (reg_kind R) uid, d) \<in> set kvs" by auto
    with d show "res \<in> set items" by (force simp: items_def)
  qed
  moreover have keys: "map (\<lambda>res. store_key (reg_kind R) (uid_of res)) items = map fst kvs"
    using dec by (fastforce simp: items_def)
  moreover have "distinct (map uid_of items)"
  proof -
    have "distinct (map (store_key (reg_kind R)) (map uid_of items))"
      using keys kvs(2) by (simp add: comp_def)
    then show ?thesis by (simp only: distinct_map)
  qed
  ultimately show ?thesis using kvs(3) by auto
qed

text \<open>Whatever a put answers, it changes the view at its uid or not at all, and no other kind.\<close>

lemma reg_put_cases:
  assumes "good w" "ok (uid_of res)" "reg_put R w res = (r, w')"
  shows "good w' \<and> (case r of
      Inl e \<Rightarrow> vw w' = vw w
    | Inr res' \<Rightarrow> vw w' = (vw w)(uid_of res \<mapsto> res') \<and> current_rv (vw w (uid_of res)) = rv_of res \<and>
        (\<exists>v. res' = set_rv v (stamp R res)))"
proof (cases "uid_of res = [] \<or> marshal (reg_codec R) (set_rv [] (stamp R res)) = None")
  case True
  then obtain e where "put_prepare R w res = Inl e"
    by (cases "uid_of res = []") (auto simp: put_prepare_def)
  with assms show ?thesis by (auto simp: reg_put_def)
next
  case False
  then obtain d where d: "marshal (reg_codec R) (set_rv [] (stamp R res)) = Some d" by auto
  from put_view [OF assms(1,2) _ d] False assms(3) view_upd [OF d] show ?thesis by auto
qed

lemma reg_put_other_kind:
  assumes "good w" "ok (uid_of res)" "reg_put R w res = (r, w')" "k \<noteq> reg_kind R"
  shows "abs w' (k, uid) = abs w (k, uid)"
proof (cases "uid_of res = [] \<or> marshal (reg_codec R) (set_rv [] (stamp R res)) = None")
  case True
  then obtain e where "put_prepare R w res = Inl e"
    by (cases "uid_of res = []") (auto simp: put_prepare_def)
  with assms show ?thesis by (auto simp: reg_put_def)
next
  case False
  then obtain d where d: "marshal (reg_codec R) (set_rv [] (stamp R res)) = Some d" by auto
  from put_view [OF assms(1,2) _ d] False assms(3,4) show ?thesis by auto
qed

lemma try_update_view:
  assumes "good w" "ok uid" "vw w uid = Some cur"
    and "mutate cur = Inr res" "uid_of res = uid"
    and "marshal (reg_codec R) (set_rv [] (stamp R res)) = Some d"
  shows "\<exists>w'. TryUpdate R w uid mutate = (Inr True, w') \<and> good w' \<and>
    vw w' = (vw w)(uid \<mapsto> set_rv (revision d) (stamp R res))"
proof -
  from assms(3) obtain old where old: "abs w (reg_kind R, uid) = Some old"
    by (auto simp: view_def bind_eq_Some_conv)
  from stored_decodes [OF assms(1) old] assms(3) obtain r0 where
    r0: "unmarshal (reg_codec R) old = Some r0" "cur = set_rv (revision old) r0" "old \<noteq> []" by auto
  from cas_law [of w "reg_kind R" uid "Some old" d] assms(1,2) old r0(3) obtain w' where
    w': "st_cas ops w (store_key (reg_kind R) uid) (Some old) d = (Inr True, w')" "inv w'"
      "abs w' = (abs w)((reg_kind R, uid) \<mapsto> d)" by auto
  have "TryUpdate R w uid mutate = (Inr True, w')"
    using assms old r0 w' by (simp add: TryUpdate_def update_prepare_def update_swap_def reg_key_def get_law)
  moreover have "typed_kind (reg_codec R) (reg_kind R) (abs w')"
    unfolding w'(3) using assms by (intro typed_kind_upd [OF _ assms(6)]) auto
  ultimately show ?thesis using w'(2,3) view_upd [OF assms(6)] by auto
qed

end


subsection \<open>Registries over the file store\<close>

text \<open>
  \<open>lawful_codec\<close> is what the registry relies on of \<^verbatim>\<open>encoding/json\<close>: a
  marshalled resource unmarshals to itself, and no JSON text is empty.
\<close>

definition lawful_codec :: "('s, 'st) codec \<Rightarrow> bool" where
  "lawful_codec c = (\<forall>res d. marshal c res = Some d \<longrightarrow> unmarshal c d = Some res \<and> d \<noteq> [])"

definition new_registry :: "'w store_ops \<Rightarrow> string \<Rightarrow> ('s, 'st) codec \<Rightarrow> ('w, 's, 'st) registry" where
  "new_registry store k c = \<lparr>reg_store = store, reg_kind = k, reg_codec = c\<rparr>"

lemma new_registry_simps [simp]:
  "reg_store (new_registry store k c) = store" "reg_kind (new_registry store k c) = k"
  "reg_codec (new_registry store k c) = c"
  by (simp_all add: new_registry_def)

abbreviation file_registry :: "string \<Rightarrow> ('s, 'st) codec \<Rightarrow> (fsys, 's, 'st) registry" where
  "file_registry \<equiv> new_registry (FileStore no_faults)"

abbreviation file_view :: "string \<Rightarrow> ('s, 'st) codec \<Rightarrow> fsys \<Rightarrow> string \<Rightarrow> ('s, 'st) resource option" where
  "file_view k c w \<equiv> view c k (file_abs w)"

definition file_good :: "string \<Rightarrow> ('s, 'st) codec \<Rightarrow> fsys \<Rightarrow> bool" where
  "file_good k c w = (wf_fs w \<and> typed_kind c k (file_abs w))"

lemma kv_store_typed_registry:
  "kv_store ops ab iv ok \<Longrightarrow> lawful_codec c \<Longrightarrow> ok k \<Longrightarrow>
   typed_registry ops ab iv ok (new_registry ops k c)"
  by (auto simp: typed_registry_def typed_registry_axioms_def lawful_codec_def)

lemmas file_registry_laws = kv_store_typed_registry [OF fstore.kv_store_axioms]

text \<open>
  A codec that tabulates finitely many resources keeps the laws, so they can
  hold; \<open>json_codec\<close> is the type of the codecs that do, at which the file
  registry of any kind interprets the contract.
\<close>

definition table_codec :: "('s, 'st) resource list \<Rightarrow> ('s, 'st) codec" where
  "table_codec rs = \<lparr>
     marshal = (\<lambda>r. if r \<in> set rs then Some (replicate (Suc (length (takeWhile (\<lambda>x. x \<noteq> r) rs))) 0) else None),
     unmarshal = (\<lambda>d. if 0 < length d \<and> length d \<le> length rs then Some (rs ! (length d - 1)) else None),
     unmarshal_meta = (\<lambda>d. if 0 < length d \<and> length d \<le> length rs
       then Some (metadata (rs ! (length d - 1))) else None)\<rparr>"

lemma takeWhile_neq_hit:
  "r \<in> set rs \<Longrightarrow> length (takeWhile (\<lambda>x. x \<noteq> r) rs) < length rs \<and>
    rs ! length (takeWhile (\<lambda>x. x \<noteq> r) rs) = r"
  by (induction rs) auto

lemma lawful_table_codec: "lawful_codec (table_codec rs)"
  using takeWhile_neq_hit [of _ rs]
  by (auto simp: lawful_codec_def table_codec_def Suc_le_eq split: if_splits)

typedef ('s, 'st) json_codec = "{c :: ('s, 'st) codec. lawful_codec c}"
  using lawful_table_codec by blast

typedef store_kind = "{k. plain k}"
  by (rule exI [of _ "''vpc''"]) code_simp

interpretation freg: typed_registry "FileStore no_faults" file_abs wf_fs plain
  "file_registry (Rep_store_kind k) (Rep_json_codec c)" for k c
  using Rep_store_kind [of k] Rep_json_codec [of c] file_registry_laws by auto

lemma good_empty [simp]: "file_good k c []"
  by (simp add: file_good_def wf_fs_def typed_kind_def file_abs_def)

text \<open>
  C5. A put is decided by the revision. It succeeds exactly when the caller's
  revision is the stored one (or both are absent); a get then returns the
  resource just written and every other uid reads as before. Otherwise the put
  reports a conflict and every uid reads as before.
\<close>

theorem registry_put_get:
  assumes "lawful_codec c" "plain k" "file_good k c w" "plain (uid_of res)" "plain uid'"
    and "marshal c (set_rv [] (stamp (file_registry k c) res)) = Some d"
  shows "\<exists>w'. if current_rv (file_view k c w (uid_of res)) = rv_of res
    then reg_put (file_registry k c) w res =
           (Inr (set_rv (revision d) (stamp (file_registry k c) res)), w') \<and> file_good k c w' \<and>
         reg_get (file_registry k c) w' uid' = (if uid' = uid_of res
           then Inr (set_rv (revision d) (stamp (file_registry k c) res))
           else reg_get (file_registry k c) w uid')
    else reg_put (file_registry k c) w res = (Inl ErrConflict, w') \<and> file_good k c w' \<and>
         reg_get (file_registry k c) w' uid' = reg_get (file_registry k c) w uid'"
proof -
  note laws = file_registry_laws [OF assms(1,2)]
  have ne: "uid_of res \<noteq> []" using assms(4) by (auto simp: plain_def segment_def)
  have g: "wf_fs w" "typed_kind c k (file_abs w)" using assms(3) by (auto simp: file_good_def)
  from typed_registry.put_view [OF laws, of w res d, unfolded new_registry_simps] obtain w' where
    w': "reg_put (file_registry k c) w res =
      (if current_rv (file_view k c w (uid_of res)) = rv_of res
       then Inr (set_rv (revision d) (stamp (file_registry k c) res)) else Inl ErrConflict, w')"
      "file_good k c w'"
      "file_abs w' = (if current_rv (file_view k c w (uid_of res)) = rv_of res
        then (file_abs w)((k, uid_of res) \<mapsto> d) else file_abs w)"
    using g assms ne by (auto simp: file_good_def)
  have "file_view k c w' = (if current_rv (file_view k c w (uid_of res)) = rv_of res
      then (file_view k c w)(uid_of res \<mapsto> set_rv (revision d) (stamp (file_registry k c) res))
      else file_view k c w)"
    using w'(3) typed_registry.view_upd [OF laws, of "set_rv [] (stamp (file_registry k c) res)" d] assms(6)
    by auto
  moreover have "reg_get (file_registry k c) v uid' =
      (case file_view k c v uid' of None \<Rightarrow> Inl ErrNotFound | Some res \<Rightarrow> Inr res)" if "file_good k c v" for v
    using typed_registry.get_view [OF laws, of v uid'] that assms(5) by (simp add: file_good_def)
  ultimately show ?thesis using w' assms(3) by (intro exI [of _ w']) auto
qed

definition example_vpc :: "(unit, unit) resource" where
  "example_vpc = \<lparr>apiVersion = APIVersion, kind = ''vpc'',
     metadata = \<lparr>md_uid = ''a'', md_name = ''a'', md_organizationId = [], md_projectId = [],
       md_ownerUid = ''alice'', md_labels = [], md_annotations = [], md_ownerRefs = [],
       md_finalizers = [], md_generation = 1, md_resourceVersion = [], md_deletionTimestamp = None,
       md_createdAt = 0\<rparr>, spec = (), status = ()\<rparr>"

lemma example_vpc_simps [simp]:
  "uid_of example_vpc = ''a''" "rv_of example_vpc = []"
  "set_rv [] example_vpc = example_vpc" "stamp (file_registry ''vpc'' c) example_vpc = example_vpc"
  by (simp_all add: example_vpc_def set_rv_def stamp_def)

lemma example_vpc_marshal [simp]: "marshal (table_codec [example_vpc]) example_vpc = Some [0]"
  by (simp add: table_codec_def)

lemma plain_examples [simp]: "plain ''vpc''" "plain ''a''" "plain ''b''"
  by code_simp+

theorem registry_put_get_witness:
  "\<exists>w'. reg_put (file_registry ''vpc'' (table_codec [example_vpc])) [] example_vpc =
      (Inr (set_rv (revision [0]) example_vpc), w') \<and>
    reg_get (file_registry ''vpc'' (table_codec [example_vpc])) w' ''a'' =
      Inr (set_rv (revision [0]) example_vpc)"
proof -
  have "current_rv (file_view ''vpc'' (table_codec [example_vpc]) [] ''a'') = []"
    by (simp add: view_def file_abs_def current_rv_def)
  then show ?thesis
    using registry_put_get [of "table_codec [example_vpc]" "''vpc''" "[]" example_vpc "''a''" "[0]"]
    by (auto simp: lawful_table_codec)
qed

text \<open>
  C4. No update is lost. Between the read of a put and its swap other writers
  may change the store in any way; the swap is applied only if the value it
  replaces has the revision the caller read, or is absent when the caller
  creates.
\<close>

theorem registry_no_lost_update:
  assumes "lawful_codec c" "plain k" "file_good k c w1" "file_good k c w2" "plain (uid_of res)"
    and "put_prepare (file_registry k c) w1 res = Inr p"
    and "put_swap (file_registry k c) w2 res p = (Inr res', w3)"
  shows "current_rv (file_view k c w2 (uid_of res)) = rv_of res \<and> file_good k c w3 \<and>
    file_view k c w3 (uid_of res) = Some res'"
  using typed_registry.no_lost_update [OF file_registry_laws [OF assms(1,2)], of w1 w2 res "fst p" "snd p" res' w3]
    assms by (auto simp: file_good_def)

theorem registry_no_lost_update_witness:
  "\<exists>w3. put_swap (file_registry ''vpc'' (table_codec [example_vpc])) [] example_vpc (None, [0]) =
      (Inr (set_rv (revision [0]) example_vpc), w3) \<and>
    file_view ''vpc'' (table_codec [example_vpc]) w3 ''a'' = Some (set_rv (revision [0]) example_vpc)"
proof -
  let ?c = "table_codec [example_vpc]"
  let ?R = "file_registry ''vpc'' ?c"
  have p: "put_prepare ?R [] example_vpc = Inr (None, [0])" by (simp add: put_prepare_def)
  have "file_abs [] (''vpc'', ''a'') = None" by (simp add: file_abs_def)
  then obtain w3 where
    s: "put_swap ?R [] example_vpc (None, [0]) = (Inr (set_rv (revision [0]) example_vpc), w3)"
    using typed_registry.swap_result [OF file_registry_laws [OF lawful_table_codec plain_examples(1)],
        of "[]" "[example_vpc]" example_vpc None "[0]"]
      good_empty [of "''vpc''" ?c] by (auto simp: file_good_def)
  with registry_no_lost_update [OF lawful_table_codec _ good_empty good_empty _ p s]
  show ?thesis by auto
qed

text \<open>
  C6. A reference lookup cannot be led to a record of another kind: whatever
  uid the caller supplies, a successful lookup returns the metadata stored
  under exactly that kind and uid.
\<close>

theorem lookup_metadata_confined:
  assumes "wf_fs w" "plain k" "LookupMetadata (file_registry k' c) w k uid = Inr m"
  shows "segment uid \<and> (\<exists>d. file_abs w (k, uid) = Some d \<and> unmarshal_meta c d = Some m)"
proof -
  from assms(3) have u: "\<not> invalid_reference_uid uid"
    by (auto simp: LookupMetadata_def split: if_splits)
  from assms(3) u obtain d where
    d: "file_get no_faults w (store_key k uid) = Inr d" "unmarshal_meta c d = Some m"
    by (auto simp: LookupMetadata_def FileStore_def split: sum.splits option.splits)
  show ?thesis
  proof (cases "uid = []")
    case True
    with assms(2) have "resolve (store_key k uid) = Inr [k]"
      by (auto simp: resolve_def store_key_def segment_def plain_def split_on_append)
    with d(1) wf_fs_top [OF assms(1), of k] assms(2) show ?thesis
      by (auto simp: file_get_def plain_def os_lookup_def split: if_splits option.splits entry.splits)
  next
    case False
    with u have s: "segment uid" by (auto simp: segment_def invalid_reference_uid_def)
    with assms(2) have "resolve (store_key k uid) = Inr [k, uid]"
      by (simp add: resolve_store_key)
    with d s show ?thesis
      by (auto simp: file_get_def file_abs_def os_lookup_def split: if_splits option.splits entry.splits)
  qed
qed

theorem lookup_metadata_confined_witness:
  "wf_fs [([''vpc''], Dir), ([''vpc'', ''a''], File [0])] \<and> segment ''a'' \<and>
   LookupMetadata (file_registry ''vpc'' (table_codec [example_vpc]))
     [([''vpc''], Dir), ([''vpc'', ''a''], File [0])] ''vpc'' ''a'' = Inr (metadata example_vpc)"
proof -
  let ?w = "[([''vpc''], Dir), ([''vpc'', ''a''], File [0])]"
  have w: "wf_fs ?w" by code_simp
  have "file_get no_faults ?w (store_key ''vpc'' ''a'') = Inr [0]" by code_simp
  then have l: "LookupMetadata (file_registry ''vpc'' (table_codec [example_vpc])) ?w ''vpc'' ''a'' =
      Inr (metadata example_vpc)"
    by (simp add: LookupMetadata_def invalid_reference_uid_def FileStore_def table_codec_def)
  with lookup_metadata_confined [OF w _ l] w show ?thesis by simp
qed

subsection \<open>The laws over the file store\<close>

lemma file_get_view:
  assumes "lawful_codec c" "plain k" "file_good k c w" "plain uid"
  shows "reg_get (file_registry k c) w uid = (case file_view k c w uid of None \<Rightarrow> Inl ErrNotFound | Some res \<Rightarrow> Inr res)"
  using typed_registry.get_view [OF file_registry_laws [OF assms(1,2)], of w uid] assms(3,4)
  by (simp add: file_good_def)

lemma file_put_cases:
  assumes "lawful_codec c" "plain k" "file_good k c w" "plain (uid_of res)"
    and "reg_put (file_registry k c) w res = (r, w')"
  shows "file_good k c w' \<and> (case r of
      Inl e \<Rightarrow> file_view k c w' = file_view k c w
    | Inr res' \<Rightarrow> file_view k c w' = (file_view k c w)(uid_of res \<mapsto> res') \<and>
        current_rv (file_view k c w (uid_of res)) = rv_of res \<and>
        (\<exists>v. res' = set_rv v (stamp (file_registry k c) res))) \<and>
    (\<forall>k' u. k' \<noteq> k \<longrightarrow> file_abs w' (k', u) = file_abs w (k', u))"
  using typed_registry.reg_put_cases [OF file_registry_laws [OF assms(1,2)], of w res r w']
    typed_registry.reg_put_other_kind [OF file_registry_laws [OF assms(1,2)], of w res r w'] assms
  by (auto simp: file_good_def split: sum.splits)

lemma file_delete_view:
  assumes "lawful_codec c" "plain k" "file_good k c w" "plain uid"
  shows "\<exists>w'. reg_delete (file_registry k c) w uid = (None, w') \<and> file_good k c w' \<and>
    file_view k c w' = (file_view k c w)(uid := None) \<and>
    (\<forall>k' u. k' \<noteq> k \<longrightarrow> file_abs w' (k', u) = file_abs w (k', u))"
  using typed_registry.delete_view [OF file_registry_laws [OF assms(1,2)], of w uid] assms(3,4)
  by (auto simp: file_good_def)

definition stored :: "('s, 'st) codec \<Rightarrow> string \<Rightarrow> fsys \<Rightarrow> ('s, 'st) resource set" where
  "stored c k w = {res. \<exists>uid. plain uid \<and> file_view k c w uid = Some res}"

lemma file_listing:
  assumes "lawful_codec c" "plain k" "file_good k c w"
  shows "\<exists>items. reg_list (file_registry k c) w = Inr items \<and> set items = stored c k w \<and> distinct (map uid_of items)"
  using typed_registry.list_view [OF file_registry_laws [OF assms(1,2)], of w] assms(3)
  by (auto simp: file_good_def stored_def)

lemma file_uid:
  assumes "lawful_codec c" "plain k" "file_good k c w" "file_view k c w uid = Some res"
  shows "uid_of res = uid"
  using typed_registry.vw_uid [OF file_registry_laws [OF assms(1,2)], of w uid res] assms(3,4)
  by (auto simp: file_good_def)

lemma stored_view:
  assumes "lawful_codec c" "plain k" "file_good k c w" "res \<in> stored c k w"
  shows "plain (uid_of res)" "file_view k c w (uid_of res) = Some res"
  using assms(4) file_uid [OF assms(1-3)] by (auto simp: stored_def)

lemma view_cong: "(\<And>u. m (k, u) = m' (k, u)) \<Longrightarrow> view c k m = view c k m'"
  by (auto simp: view_def)

lemma typed_kind_cong: "(\<And>u. m (k, u) = m' (k, u)) \<Longrightarrow> typed_kind c k m = typed_kind c k m'"
  by (auto simp: typed_kind_def)

lemma file_other_kind:
  assumes "file_good k c w" "file_good k' c' w'" "\<forall>u. file_abs w' (k, u) = file_abs w (k, u)"
  shows "file_good k c w'" "file_view k c w' = file_view k c w"
  using assms view_cong [of "file_abs w'" k "file_abs w" c] typed_kind_cong [of "file_abs w'" k "file_abs w" c]
  by (auto simp: file_good_def)

lemma file_put_succeeds:
  assumes "lawful_codec c" "plain k" "file_good k c w" "plain (uid_of res)"
    and "marshal c (set_rv [] (stamp (file_registry k c) res)) = Some d" "current_rv (file_view k c w (uid_of res)) = rv_of res"
  shows "\<exists>w'. reg_put (file_registry k c) w res = (Inr (set_rv (revision d) (stamp (file_registry k c) res)), w')"
  using typed_registry.put_view_upd [OF file_registry_laws [OF assms(1,2)], of w res d] assms(3-)
  by (auto simp: file_good_def plain_def segment_def)

end
