(* ===== verification/Iam.thy ===== *)
theory Iam
  imports Registry
begin

text \<open>
  Authorization (\<^verbatim>\<open>internal/iam\<close>) and the kinds it reads
  (\<^verbatim>\<open>organization.go\<close>, \<^verbatim>\<open>folder.go\<close>, \<^verbatim>\<open>project.go\<close>,
  \<^verbatim>\<open>hierarchy.go\<close>, \<^verbatim>\<open>iam_binding.go\<close>). A lookup or binding source may
  keep a cache, so each is a state transformer. The locale \<open>scope_source\<close> is the
  contract between the resolver and whatever answers its parent queries; the
  registry-backed lookup and the per-request cache both keep it.
\<close>

subsection \<open>The hierarchy and binding kinds\<close>

definition KindOrganization :: string where "KindOrganization = ''organization''"
definition KindFolder :: string where "KindFolder = ''folder''"
definition KindProject :: string where "KindProject = ''project''"
definition KindIAMBinding :: string where "KindIAMBinding = ''iam_binding''"
definition ParentKindOrganization :: string where "ParentKindOrganization = ''organization''"
definition ParentKindFolder :: string where "ParentKindFolder = ''folder''"

record parent_ref =
  parentKind :: string
  parentId :: string

fun parent_kind_loop :: "string list \<Rightarrow> string \<Rightarrow> bool" where
  "parent_kind_loop [] k = False"
| "parent_kind_loop (a # as) k = (if k = a then True else parent_kind_loop as k)"

definition ParentRef_Validate :: "'a parent_ref_scheme \<Rightarrow> string list \<Rightarrow> error option" where
  "ParentRef_Validate p allowed =
     (if parentId p = [] then Some (Errorf ''parentId is required'')
      else if parent_kind_loop allowed (parentKind p) then None
      else Some (Errorf ''parentKind must be one of allowed''))"

record organization_spec =
  org_displayName :: string

definition OrganizationSpec_Validate :: "organization_spec \<Rightarrow> error option" where
  "OrganizationSpec_Validate s =
     (if org_displayName s = [] then Some (Errorf ''organization: displayName is required'') else None)"

text \<open>Folders and projects embed their parent reference.\<close>

record folder_spec = parent_ref +
  folder_displayName :: string

record project_spec = parent_ref +
  project_displayName :: string

definition FolderSpec_Validate :: "folder_spec \<Rightarrow> error option" where
  "FolderSpec_Validate s =
     (if folder_displayName s = [] then Some (Errorf ''folder: displayName is required'')
      else map_option (Wrap ''folder'') (ParentRef_Validate s [ParentKindOrganization, ParentKindFolder]))"

definition ProjectSpec_Validate :: "project_spec \<Rightarrow> error option" where
  "ProjectSpec_Validate s =
     (if project_displayName s = [] then Some (Errorf ''project: displayName is required'')
      else map_option (Wrap ''project'') (ParentRef_Validate s [ParentKindOrganization, ParentKindFolder]))"

definition RoleViewer :: string where "RoleViewer = ''roles/viewer''"
definition RoleEditor :: string where "RoleEditor = ''roles/editor''"
definition RoleOwner :: string where "RoleOwner = ''roles/owner''"
definition MemberPrefixUser :: string where "MemberPrefixUser = ''user''"

record iam_binding_spec =
  ib_resource :: object_reference
  ib_role :: string
  ib_members :: "string list"

type_synonym iam_binding = "(iam_binding_spec, status_base) resource"
type_synonym project = "(project_spec, status_base) resource"
type_synonym folder = "(folder_spec, status_base) resource"

fun members_validate :: "string list \<Rightarrow> error option" where
  "members_validate [] = None"
| "members_validate (m # ms) = (case cut m (CHR '':'') of (prefix, rest, found) \<Rightarrow>
     if \<not> found \<or> prefix = [] \<or> rest = [] then Some (Errorf ''iam_binding: member must be formatted as <kind>:<id>'')
     else members_validate ms)"

definition IAMBindingSpec_Validate :: "iam_binding_spec \<Rightarrow> error option" where
  "IAMBindingSpec_Validate s =
     (if ref_kind (ib_resource s) = [] \<or> ref_uid (ib_resource s) = []
        then Some (Errorf ''iam_binding: resource.kind and resource.uid are required'')
      else if \<not> List.member [RoleViewer, RoleEditor, RoleOwner] (ib_role s)
        then Some (Errorf ''iam_binding: role must be one of the known roles'')
      else if ib_members s = [] then Some (Errorf ''iam_binding: members must not be empty'')
      else members_validate (ib_members s))"

subsection \<open>Roles\<close>

datatype permission = PermissionRead | PermissionWrite | PermissionDelete | PermissionAdmin

definition rolePermissions :: "(string \<times> permission list) list" where
  "rolePermissions = [
     (RoleViewer, [PermissionRead]),
     (RoleEditor, [PermissionRead, PermissionWrite, PermissionDelete]),
     (RoleOwner, [PermissionRead, PermissionWrite, PermissionDelete, PermissionAdmin])]"

definition Permissions :: "string \<Rightarrow> permission list" where
  "Permissions role = (case map_of rolePermissions role of None \<Rightarrow> [] | Some ps \<Rightarrow> ps)"

fun grants_loop :: "permission list \<Rightarrow> permission \<Rightarrow> bool" where
  "grants_loop [] perm = False"
| "grants_loop (p # ps) perm = (if p = perm then True else grants_loop ps perm)"

definition Grants :: "string \<Rightarrow> permission \<Rightarrow> bool" where
  "Grants role perm = grants_loop (Permissions role) perm"

subsection \<open>Resolution\<close>

record 'c scope_lookup =
  ProjectParent :: "string \<Rightarrow> 'c \<Rightarrow> (string \<times> string) result \<times> 'c"
  FolderParent :: "string \<Rightarrow> 'c \<Rightarrow> (string \<times> string) result \<times> 'c"

definition maxChainDepth :: nat where "maxChainDepth = 64"

definition obj_ref :: "string \<Rightarrow> string \<Rightarrow> object_reference" where
  "obj_ref k u = \<lparr>ref_kind = k, ref_uid = u, ref_name = []\<rparr>"

fun scope_loop ::
    "nat \<Rightarrow> 'c scope_lookup \<Rightarrow> object_reference list \<Rightarrow> string \<Rightarrow> string \<Rightarrow> 'c \<Rightarrow>
      object_reference list result \<times> 'c" where
  "scope_loop 0 L chain k i c = (Inl (Errorf ''iam: parent chain exceeds hops (cycle?)''), c)"
| "scope_loop (Suc n) L chain k i c =
     (if k = ParentKindOrganization then (Inr (chain @ [obj_ref KindOrganization i]), c)
      else if k = ParentKindFolder then
        (case FolderParent L i c of
           (Inl e, c') \<Rightarrow> (Inl e, c')
         | (Inr (k', i'), c') \<Rightarrow> scope_loop n L (chain @ [obj_ref KindFolder i]) k' i' c')
      else (Inl (Errorf ''iam: unknown parent kind''), c))"

definition ScopeChain :: "'c scope_lookup \<Rightarrow> string \<Rightarrow> 'c \<Rightarrow> object_reference list result \<times> 'c" where
  "ScopeChain L projectID c = (case ProjectParent L projectID c of
     (Inl e, c') \<Rightarrow> (Inl e, c')
   | (Inr (k, i), c') \<Rightarrow> scope_loop maxChainDepth L [obj_ref KindProject projectID] k i c')"

fun inChain :: "object_reference \<Rightarrow> object_reference list \<Rightarrow> bool" where
  "inChain ref [] = False"
| "inChain ref (c # cs) = (if ref_kind c = ref_kind ref \<and> ref_uid c = ref_uid ref then True else inChain ref cs)"

fun hasMember :: "string list \<Rightarrow> string \<Rightarrow> bool" where
  "hasMember [] subject = False"
| "hasMember (m # ms) subject = (if m = subject then True else hasMember ms subject)"

text \<open>The \<^verbatim>\<open>map[Permission]bool\<close> result as the set of its true keys.\<close>

fun EffectivePermissions :: "iam_binding list \<Rightarrow> object_reference list \<Rightarrow> string \<Rightarrow> permission set" where
  "EffectivePermissions [] chain subject = {}"
| "EffectivePermissions (b # bs) chain subject =
     (if \<not> inChain (ib_resource (spec b)) chain \<or> \<not> hasMember (ib_members (spec b)) subject
      then EffectivePermissions bs chain subject
      else set (Permissions (ib_role (spec b))) \<union> EffectivePermissions bs chain subject)"

subsection \<open>The authorizer\<close>

record 'c authorizer =
  az_lookup :: "'c scope_lookup"
  az_bindings :: "'c \<Rightarrow> iam_binding list result \<times> 'c"
  az_decide :: "(string \<Rightarrow> string \<Rightarrow> permission \<Rightarrow> 'c \<Rightarrow> bool result \<times> 'c) option"

definition Allowed ::
    "'c authorizer \<Rightarrow> string \<Rightarrow> bool \<Rightarrow> string \<Rightarrow> string \<Rightarrow> permission \<Rightarrow> 'c \<Rightarrow> bool result \<times> 'c" where
  "Allowed a subject isAdmin ownerUID projectID perm c =
     (if isAdmin \<or> (ownerUID \<noteq> [] \<and> ownerUID = subject) then (Inr True, c)
      else if projectID = [] then (Inr False, c)
      else case az_decide a of
        Some decide \<Rightarrow> decide subject projectID perm c
      | None \<Rightarrow> (case ScopeChain (az_lookup a) projectID c of
          (Inl e, c1) \<Rightarrow> (Inl e, c1)
        | (Inr chain, c1) \<Rightarrow> (case az_bindings a c1 of
            (Inl e, c2) \<Rightarrow> (Inl e, c2)
          | (Inr bs, c2) \<Rightarrow>
              (Inr (perm \<in> EffectivePermissions bs chain (MemberPrefixUser @ '':'' @ subject)), c2))))"

text \<open>
  The state a request's authorizer closes over: the outer state, the binding
  read made once, the two lookup caches and the decisions taken.
\<close>

record 'c request =
  rq_outer :: 'c
  rq_bindings :: "iam_binding list result option"
  rq_projects :: "string \<Rightarrow> (string \<times> string) result option"
  rq_folders :: "string \<Rightarrow> (string \<times> string) result option"
  rq_decisions :: "string \<times> string \<times> permission \<Rightarrow> bool result option"

definition new_request :: "'c \<Rightarrow> 'c request" where
  "new_request c = \<lparr>rq_outer = c, rq_bindings = None, rq_projects = (\<lambda>_. None),
     rq_folders = (\<lambda>_. None), rq_decisions = (\<lambda>_. None)\<rparr>"

definition requestLookup :: "'c scope_lookup \<Rightarrow> 'c request scope_lookup" where
  "requestLookup L = \<lparr>
     ProjectParent = (\<lambda>i q. case rq_projects q i of
         Some r \<Rightarrow> (r, q)
       | None \<Rightarrow> (case ProjectParent L i (rq_outer q) of (r, c) \<Rightarrow>
           (r, q\<lparr>rq_outer := c, rq_projects := (rq_projects q)(i \<mapsto> r)\<rparr>))),
     FolderParent = (\<lambda>i q. case rq_folders q i of
         Some r \<Rightarrow> (r, q)
       | None \<Rightarrow> (case FolderParent L i (rq_outer q) of (r, c) \<Rightarrow>
           (r, q\<lparr>rq_outer := c, rq_folders := (rq_folders q)(i \<mapsto> r)\<rparr>)))\<rparr>"

definition request_bindings ::
    "('c \<Rightarrow> iam_binding list result \<times> 'c) \<Rightarrow> 'c request \<Rightarrow> iam_binding list result \<times> 'c request" where
  "request_bindings B q = (case rq_bindings q of
     Some r \<Rightarrow> (r, q)
   | None \<Rightarrow> (case B (rq_outer q) of (r, c) \<Rightarrow> (r, q\<lparr>rq_outer := c, rq_bindings := Some r\<rparr>)))"

definition request_live :: "'c authorizer \<Rightarrow> 'c request authorizer" where
  "request_live a = \<lparr>az_lookup = requestLookup (az_lookup a),
     az_bindings = request_bindings (az_bindings a), az_decide = None\<rparr>"

definition request_decide ::
    "'c authorizer \<Rightarrow> string \<Rightarrow> string \<Rightarrow> permission \<Rightarrow> 'c request \<Rightarrow> bool result \<times> 'c request" where
  "request_decide a subject project perm q =
     (case rq_decisions q (subject, project, perm) of
        Some r \<Rightarrow> (r, q)
      | None \<Rightarrow> (case Allowed (request_live a) subject False [] project perm q of (r, q') \<Rightarrow>
          (r, q'\<lparr>rq_decisions := (rq_decisions q')((subject, project, perm) \<mapsto> r)\<rparr>)))"

definition ForRequest :: "'c authorizer \<Rightarrow> 'c request authorizer" where
  "ForRequest a = (request_live a)\<lparr>az_decide := Some (request_decide a)\<rparr>"

subsection \<open>The registry-backed lookup\<close>

definition RegistryLookup ::
    "('w, project_spec, status_base) registry \<Rightarrow> ('w, folder_spec, status_base) registry \<Rightarrow>
      'w scope_lookup" where
  "RegistryLookup projects folders = \<lparr>
     ProjectParent = (\<lambda>i w. (case reg_get projects w i of
         Inl e \<Rightarrow> Inl e | Inr p \<Rightarrow> Inr (parentKind (spec p), parentId (spec p)), w)),
     FolderParent = (\<lambda>i w. (case reg_get folders w i of
         Inl e \<Rightarrow> Inl e | Inr f \<Rightarrow> Inr (parentKind (spec f), parentId (spec f)), w))\<rparr>"

definition registry_authorizer ::
    "('w, project_spec, status_base) registry \<Rightarrow> ('w, folder_spec, status_base) registry \<Rightarrow>
      ('w, iam_binding_spec, status_base) registry \<Rightarrow> 'w authorizer" where
  "registry_authorizer projects folders bindings = \<lparr>
     az_lookup = RegistryLookup projects folders,
     az_bindings = (\<lambda>w. (reg_list bindings w, w)), az_decide = None\<rparr>"

subsection \<open>Specification\<close>

text \<open>
  \<open>climbs fp k i refs\<close>: following parents from the reference \<open>(k, i)\<close>
  passes the folders of \<open>refs\<close> and ends at an organization, its last element.
\<close>

inductive climbs ::
    "(string \<Rightarrow> (string \<times> string) result) \<Rightarrow> string \<Rightarrow> string \<Rightarrow> object_reference list \<Rightarrow> bool"
  for fp where
  climbs_org: "climbs fp ParentKindOrganization i [obj_ref KindOrganization i]"
| climbs_folder: "fp i = Inr (k', i') \<Longrightarrow> climbs fp k' i' refs \<Longrightarrow>
    climbs fp ParentKindFolder i (obj_ref KindFolder i # refs)"

inductive_cases climbs_orgE: "climbs fp ParentKindOrganization i refs"
inductive_cases climbs_folderE: "climbs fp ParentKindFolder i refs"
inductive_cases climbs_NilE: "climbs fp k i []"

text \<open>The scope of a project: itself and its ancestors up to the organization.\<close>

definition scope_of ::
    "(string \<Rightarrow> (string \<times> string) result) \<Rightarrow> (string \<Rightarrow> (string \<times> string) result) \<Rightarrow> string \<Rightarrow>
      object_reference list \<Rightarrow> bool" where
  "scope_of pp fp p chain = (\<exists>k i refs. pp p = Inr (k, i) \<and> climbs fp k i refs \<and>
     length refs \<le> maxChainDepth \<and> chain = obj_ref KindProject p # refs)"

lemma parent_kinds_distinct [simp]:
  "ParentKindOrganization \<noteq> ParentKindFolder" "ParentKindFolder \<noteq> ParentKindOrganization"
  by (simp_all add: ParentKindOrganization_def ParentKindFolder_def)

lemma climbs_kind: "climbs fp k i refs \<Longrightarrow> k = ParentKindOrganization \<or> k = ParentKindFolder"
  by (induction rule: climbs.induct) auto

lemma climbs_unique: "climbs fp k i refs \<Longrightarrow> climbs fp k i refs' \<Longrightarrow> refs' = refs"
proof (induction arbitrary: refs' rule: climbs.induct)
  case (climbs_org i)
  from climbs_org show ?case by (rule climbs_orgE) simp_all
next
  case (climbs_folder i k' i' refs)
  from climbs_folder.prems obtain k2 i2 refs2 where
    "refs' = obj_ref KindFolder i # refs2" "fp i = Inr (k2, i2)" "climbs fp k2 i2 refs2"
    by (rule climbs_folderE) simp_all
  with climbs_folder.hyps(1) climbs_folder.IH show ?case by simp
qed

lemma inChain_iff: "inChain ref chain \<longleftrightarrow>
    (\<exists>c \<in> set chain. ref_kind c = ref_kind ref \<and> ref_uid c = ref_uid ref)"
  by (induction chain) auto

lemma hasMember_iff [simp]: "hasMember ms s \<longleftrightarrow> s \<in> set ms"
  by (induction ms) auto

lemma grants_loop_iff: "grants_loop ps p \<longleftrightarrow> p \<in> set ps"
  by (induction ps) auto

lemma Grants_iff: "Grants role p \<longleftrightarrow> p \<in> set (Permissions role)"
  by (simp add: Grants_def grants_loop_iff)

text \<open>One binding grants the permission to the principal somewhere on the chain.\<close>

definition granted_by :: "object_reference list \<Rightarrow> string \<Rightarrow> permission \<Rightarrow> iam_binding \<Rightarrow> bool" where
  "granted_by chain who perm b = (inChain (ib_resource (spec b)) chain \<and>
     who \<in> set (ib_members (spec b)) \<and> Grants (ib_role (spec b)) perm)"

lemma EffectivePermissions_iff:
  "perm \<in> EffectivePermissions bs chain s \<longleftrightarrow> list_ex (granted_by chain s perm) bs"
  by (induction bs) (auto simp: granted_by_def Grants_iff)

lemma role_order:
  "set (Permissions RoleViewer) \<subset> set (Permissions RoleEditor)"
  "set (Permissions RoleEditor) \<subset> set (Permissions RoleOwner)"
  by (auto simp: Permissions_def rolePermissions_def RoleViewer_def RoleEditor_def RoleOwner_def)

lemma unknown_role:
  "role \<notin> {RoleViewer, RoleEditor, RoleOwner} \<Longrightarrow> Permissions role = []"
  by (simp add: Permissions_def rolePermissions_def)

text \<open>The three branches of a decision.\<close>

definition privileged :: "bool \<Rightarrow> string \<Rightarrow> string \<Rightarrow> bool" where
  "privileged adm own s = (adm \<or> (own \<noteq> [] \<and> own = s))"

lemma Allowed_privileged: "privileged adm own s \<Longrightarrow> Allowed a s adm own p perm c = (Inr True, c)"
  unfolding Allowed_def privileged_def by (rule if_P)

lemma Allowed_unscoped: "\<not> privileged adm own s \<Longrightarrow> Allowed a s adm own [] perm c = (Inr False, c)"
  by (auto simp: Allowed_def privileged_def)

lemma Allowed_scoped:
  assumes "\<not> privileged adm own s" "p \<noteq> []"
  shows "Allowed a s adm own p perm c = (case az_decide a of
     Some decide \<Rightarrow> decide s p perm c
   | None \<Rightarrow> (case ScopeChain (az_lookup a) p c of
       (Inl e, c1) \<Rightarrow> (Inl e, c1)
     | (Inr chain, c1) \<Rightarrow> (case az_bindings a c1 of
         (Inl e, c2) \<Rightarrow> (Inl e, c2)
       | (Inr bs, c2) \<Rightarrow>
           (Inr (perm \<in> EffectivePermissions bs chain (MemberPrefixUser @ '':'' @ s)), c2))))"
  unfolding Allowed_def if_not_P [OF assms(1) [unfolded privileged_def]] if_not_P [OF assms(2)] by (rule refl)

subsection \<open>Lookups and binding sources\<close>

definition pure_lookup ::
    "(string \<Rightarrow> (string \<times> string) result) \<Rightarrow> (string \<Rightarrow> (string \<times> string) result) \<Rightarrow> unit scope_lookup" where
  "pure_lookup pp fp = \<lparr>ProjectParent = (\<lambda>i c. (pp i, c)), FolderParent = (\<lambda>i c. (fp i, c))\<rparr>"

definition pure_authorizer ::
    "(string \<Rightarrow> (string \<times> string) result) \<Rightarrow> (string \<Rightarrow> (string \<times> string) result) \<Rightarrow>
      iam_binding list result \<Rightarrow> unit authorizer" where
  "pure_authorizer pp fp bs =
     \<lparr>az_lookup = pure_lookup pp fp, az_bindings = (\<lambda>c. (bs, c)), az_decide = None\<rparr>"

text \<open>
  The contract of a \<^verbatim>\<open>ScopeLookup\<close>: while \<open>inv\<close> holds, it answers with the
  parents \<open>pp\<close> and \<open>fp\<close>, and keeps \<open>inv\<close>.
\<close>

locale scope_source =
  fixes L :: "'c scope_lookup"
    and pp fp :: "string \<Rightarrow> (string \<times> string) result"
    and inv :: "'c \<Rightarrow> bool"
  assumes project_law: "inv c \<Longrightarrow> ProjectParent L i c = (r, c') \<Longrightarrow> r = pp i \<and> inv c'"
    and folder_law: "inv c \<Longrightarrow> FolderParent L i c = (r, c') \<Longrightarrow> r = fp i \<and> inv c'"
begin

lemma scope_loop_inv: "inv c \<Longrightarrow> scope_loop n L chain k i c = (r, c') \<Longrightarrow> inv c'"
proof (induction n arbitrary: chain k i c)
  case 0
  then show ?case by simp
next
  case (Suc n)
  obtain q c1 where q: "FolderParent L i c = (q, c1)" by fastforce
  moreover have "inv c1" using folder_law [OF Suc.prems(1) q] by simp
  ultimately show ?case using Suc by (cases q) (auto split: if_splits)
qed

lemma scope_loop_iff:
  "inv c \<Longrightarrow> scope_loop n L chain k i c = (r, c') \<Longrightarrow>
   r = Inr out \<longleftrightarrow> (\<exists>refs. climbs fp k i refs \<and> length refs \<le> n \<and> out = chain @ refs)"
proof (induction n arbitrary: chain k i c)
  case 0
  then show ?case by (auto elim: climbs_NilE)
next
  case (Suc n)
  consider "k = ParentKindOrganization" | "k = ParentKindFolder"
    | "k \<noteq> ParentKindOrganization" "k \<noteq> ParentKindFolder" by blast
  then show ?case
  proof cases
    case 1
    with Suc.prems show ?thesis by (auto intro: climbs_org elim: climbs_orgE)
  next
    case 2
    obtain q c1 where q: "FolderParent L i c = (q, c1)" by fastforce
    with folder_law [OF Suc.prems(1) q] have "q = fp i" "inv c1" by auto
    show ?thesis
    proof (cases q)
      case (Inl e)
      with \<open>q = fp i\<close> have "fp i = Inl e" by simp
      with 2 q Inl Suc.prems show ?thesis by (auto elim: climbs_folderE)
    next
      case (Inr ki)
      obtain k' i' where ki: "ki = (k', i')" by (cases ki)
      with 2 q Inr Suc.prems(2)
      have "scope_loop n L (chain @ [obj_ref KindFolder i]) k' i' c1 = (r, c')" by simp
      from Suc.IH [OF \<open>inv c1\<close> this]
      have "r = Inr out \<longleftrightarrow> (\<exists>refs. climbs fp k' i' refs \<and> length refs \<le> n \<and>
          out = chain @ obj_ref KindFolder i # refs)" by simp
      also have "\<dots> \<longleftrightarrow> (\<exists>refs. climbs fp k i refs \<and> length refs \<le> Suc n \<and> out = chain @ refs)"
        using \<open>q = fp i\<close> [symmetric] Inr ki 2
        by (auto intro!: climbs_folder elim!: climbs_folderE intro: exI)
      finally show ?thesis .
    qed
  next
    case 3
    with Suc.prems show ?thesis by (auto dest: climbs_kind)
  qed
qed

lemma scope_loop_pure:
  "inv c \<Longrightarrow> fst (scope_loop n L chain k i c) = fst (scope_loop n (pure_lookup pp fp) chain k i ())"
proof (induction n arbitrary: chain k i c)
  case 0
  then show ?case by simp
next
  case (Suc n)
  obtain q c1 where q: "FolderParent L i c = (q, c1)" by fastforce
  with folder_law [OF Suc.prems q] Suc.IH [of c1] show ?case
    by (auto simp: pure_lookup_def split: sum.split)
qed

lemma ScopeChain_pure:
  assumes "inv c"
  shows "fst (ScopeChain L p c) = fst (ScopeChain (pure_lookup pp fp) p ())"
proof -
  obtain q c1 where q: "ProjectParent L p c = (q, c1)" by fastforce
  with project_law [OF assms q] scope_loop_pure [of c1] show ?thesis
    by (auto simp: ScopeChain_def pure_lookup_def split: sum.split)
qed

lemma ScopeChain_inv: "inv c \<Longrightarrow> ScopeChain L p c = (r, c') \<Longrightarrow> inv c'"
proof -
  assume a: "inv c" "ScopeChain L p c = (r, c')"
  obtain q c1 where q: "ProjectParent L p c = (q, c1)" by fastforce
  moreover have "inv c1" using project_law [OF a(1) q] by simp
  ultimately show ?thesis
    using a(2) by (cases q) (auto simp: ScopeChain_def dest: scope_loop_inv)
qed

lemma ScopeChain_iff:
  assumes "inv c" "ScopeChain L p c = (r, c')"
  shows "r = Inr chain \<longleftrightarrow> scope_of pp fp p chain"
proof -
  obtain q c1 where q: "ProjectParent L p c = (q, c1)" by fastforce
  with project_law [OF assms(1) q] have q1: "q = pp p" "inv c1" by auto
  show ?thesis
  proof (cases q)
    case (Inl e)
    with q1 have "pp p = Inl e" by simp
    with q Inl assms show ?thesis by (auto simp: ScopeChain_def scope_of_def)
  next
    case (Inr ki)
    obtain k i where ki: "ki = (k, i)" by (cases ki)
    with q Inr assms(2)
    have "scope_loop maxChainDepth L [obj_ref KindProject p] k i c1 = (r, c')"
      by (simp add: ScopeChain_def)
    from scope_loop_iff [OF q1(2) this, of chain] show ?thesis
      using q1(1) [symmetric] Inr ki by (auto simp: scope_of_def)
  qed
qed

end

text \<open>A binding source with its lookup: what an authorizer decides from.\<close>

locale authorizer_source = scope_source L pp fp inv
  for L :: "'c scope_lookup" and pp fp inv +
  fixes B :: "'c \<Rightarrow> iam_binding list result \<times> 'c"
    and bs :: "iam_binding list result"
  assumes bindings_law: "inv c \<Longrightarrow> B c = (r, c') \<Longrightarrow> r = bs \<and> inv c'"
begin

abbreviation live where "live \<equiv> \<lparr>az_lookup = L, az_bindings = B, az_decide = None\<rparr>"

lemma Allowed_live_scoped:
  assumes "inv c" "\<not> privileged adm own s" "p \<noteq> []" "ScopeChain L p c = (q, c1)" "B c1 = (b, c2)"
  shows "Allowed live s adm own p perm c = (case q of
      Inl e \<Rightarrow> (Inl e, c1)
    | Inr chain \<Rightarrow> (case bs of
        Inl e \<Rightarrow> (Inl e, c2)
      | Inr bl \<Rightarrow> (Inr (list_ex (granted_by chain (MemberPrefixUser @ '':'' @ s) perm) bl), c2)))"
proof -
  have "b = bs" using bindings_law [OF ScopeChain_inv [OF assms(1,4)] assms(5)] by simp
  then show ?thesis
    unfolding Allowed_scoped [OF assms(2,3)]
    by (simp add: assms(4,5) EffectivePermissions_iff split: sum.split)
qed

lemma Allowed_inv: "inv c \<Longrightarrow> Allowed live s adm own p perm c = (r, c') \<Longrightarrow> inv c'"
proof -
  assume a: "inv c" "Allowed live s adm own p perm c = (r, c')"
  obtain q c1 where q: "ScopeChain L p c = (q, c1)" by fastforce
  obtain b c2 where b: "B c1 = (b, c2)" by fastforce
  have i: "inv c1" "inv c2" using ScopeChain_inv [OF a(1) q] bindings_law [OF _ b] by auto
  consider "privileged adm own s" | "\<not> privileged adm own s" "p = []"
    | "\<not> privileged adm own s" "p \<noteq> []" by blast
  then show ?thesis
    by cases (use a i q b in \<open>auto simp: Allowed_privileged Allowed_unscoped
      Allowed_live_scoped [OF a(1) _ _ q b] split: sum.splits\<close>)
qed

text \<open>The exact rule an authorizer applies.\<close>

lemma Allowed_iff:
  assumes "inv c" "Allowed live s adm own p perm c = (r, c')"
  shows "r = Inr True \<longleftrightarrow> privileged adm own s \<or>
    (p \<noteq> [] \<and> (\<exists>chain bl. scope_of pp fp p chain \<and> bs = Inr bl \<and>
       list_ex (granted_by chain (MemberPrefixUser @ '':'' @ s) perm) bl))"
proof -
  obtain q c1 where q: "ScopeChain L p c = (q, c1)" by fastforce
  obtain b c2 where b: "B c1 = (b, c2)" by fastforce
  note sc = ScopeChain_iff [OF assms(1) q, symmetric]
  consider "privileged adm own s" | "\<not> privileged adm own s" "p = []"
    | "\<not> privileged adm own s" "p \<noteq> []" by blast
  then show ?thesis
  proof cases
    case 1
    with assms(2) show ?thesis by (simp add: Allowed_privileged)
  next
    case 2
    with assms(2) show ?thesis by (auto simp: Allowed_unscoped)
  next
    case 3
    from assms(2) Allowed_live_scoped [OF assms(1) 3 q b, of perm] 3
    show ?thesis by (cases q; cases bs) (auto simp: sc)
  qed
qed

lemma Allowed_pure:
  assumes "inv c"
  shows "fst (Allowed live s adm own p perm c) = fst (Allowed (pure_authorizer pp fp bs) s adm own p perm ())"
proof -
  obtain q c1 where q: "ScopeChain L p c = (q, c1)" by fastforce
  obtain b c2 where b: "B c1 = (b, c2)" by fastforce
  have q1: "ScopeChain (pure_lookup pp fp) p () = (q, ())"
    using ScopeChain_pure [OF assms, of p] q by (simp add: prod_eq_iff)
  consider "privileged adm own s" | "\<not> privileged adm own s" "p = []"
    | "\<not> privileged adm own s" "p \<noteq> []" by blast
  then show ?thesis
  proof cases
    case 1
    then show ?thesis by (simp add: Allowed_privileged)
  next
    case 2
    then show ?thesis by (simp add: Allowed_unscoped)
  next
    case 3
    show ?thesis
      unfolding Allowed_live_scoped [OF assms 3 q b] Allowed_scoped [OF 3, of "pure_authorizer pp fp bs"]
      by (simp add: pure_authorizer_def q1 EffectivePermissions_iff split: sum.split)
  qed
qed

end

subsection \<open>The registry keeps the contract\<close>

definition registry_parents ::
    "('w, 'a parent_ref_scheme, status_base) registry \<Rightarrow> 'w \<Rightarrow> string \<Rightarrow> (string \<times> string) result" where
  "registry_parents R w i = (case reg_get R w i of
     Inl e \<Rightarrow> Inl e | Inr p \<Rightarrow> Inr (parentKind (spec p), parentId (spec p)))"

interpretation reg_source: authorizer_source "RegistryLookup P F" "registry_parents P w"
  "registry_parents F w" "\<lambda>c. c = w" "\<lambda>w. (reg_list R w, w)" "reg_list R w" for P F R w
  by unfold_locales (auto simp: RegistryLookup_def registry_parents_def)

text \<open>
  C8. The scope of a project is exactly its chain of parents: resolution
  returns the project, every folder above it and its organization when the
  parents lead to an organization within the hop limit, and an error in every
  other case, cycles included.
\<close>

theorem scope_chain_iff:
  "fst (ScopeChain (RegistryLookup P F) p w) = Inr chain \<longleftrightarrow>
   scope_of (registry_parents P w) (registry_parents F w) p chain"
proof -
  obtain r c' where r: "ScopeChain (RegistryLookup P F) p w = (r, c')" by fastforce
  from reg_source.ScopeChain_iff [OF refl r] r show ?thesis by simp
qed


subsection \<open>The per-request cache keeps the contract\<close>

text \<open>Every cached answer is the source's answer.\<close>

definition cache_ok ::
    "('c \<Rightarrow> bool) \<Rightarrow> (string \<Rightarrow> (string \<times> string) result) \<Rightarrow> (string \<Rightarrow> (string \<times> string) result) \<Rightarrow>
      iam_binding list result \<Rightarrow> 'c request \<Rightarrow> bool" where
  "cache_ok iv pp fp bs q = (iv (rq_outer q) \<and>
     (\<forall>i r. rq_projects q i = Some r \<longrightarrow> r = pp i) \<and>
     (\<forall>i r. rq_folders q i = Some r \<longrightarrow> r = fp i) \<and>
     (\<forall>r. rq_bindings q = Some r \<longrightarrow> r = bs) \<and>
     (\<forall>s p perm r. rq_decisions q (s, p, perm) = Some r \<longrightarrow>
        r = fst (Allowed (pure_authorizer pp fp bs) s False [] p perm ())))"

context authorizer_source
begin

lemma request_source:
  "authorizer_source (requestLookup L) pp fp (cache_ok inv pp fp bs) (request_bindings B) bs"
proof (unfold_locales, goal_cases)
  case (1 c i r c')
  then show ?case
    by (auto simp: requestLookup_def cache_ok_def dest: project_law split: option.splits prod.splits if_splits)
next
  case (2 c i r c')
  then show ?case
    by (auto simp: requestLookup_def cache_ok_def dest: folder_law split: option.splits prod.splits if_splits)
next
  case (3 c r c')
  then show ?case
    by (auto simp: request_bindings_def cache_ok_def dest: bindings_law split: option.splits prod.splits if_splits)
qed

lemmas req_Allowed_pure = authorizer_source.Allowed_pure [OF request_source]
lemmas req_Allowed_inv = authorizer_source.Allowed_inv [OF request_source]

lemma request_Allowed:
  assumes "cache_ok inv pp fp bs q" "Allowed (ForRequest live) s adm own p perm q = (r, q')"
  shows "r = fst (Allowed (pure_authorizer pp fp bs) s adm own p perm ()) \<and> cache_ok inv pp fp bs q'"
proof (cases "privileged adm own s \<or> p = []")
  case True
  with assms show ?thesis
    by (cases "privileged adm own s") (auto simp: Allowed_privileged Allowed_unscoped)
next
  case False
  then have f: "\<not> privileged adm own s" "p \<noteq> []" by auto
  have f': "\<not> privileged False [] s" by (simp add: privileged_def)
  have pure: "fst (Allowed (pure_authorizer pp fp bs) s adm own p perm ()) =
      fst (Allowed (pure_authorizer pp fp bs) s False [] p perm ())"
    by (simp only: Allowed_scoped [OF f] Allowed_scoped [OF f' f(2)])
  from assms(2) have d: "request_decide live s p perm q = (r, q')"
    by (simp add: Allowed_scoped [OF f] ForRequest_def)
  obtain r1 q1 where r1: "Allowed (request_live live) s False [] p perm q = (r1, q1)" by fastforce
  have "r1 = fst (Allowed (pure_authorizer pp fp bs) s False [] p perm ())" "cache_ok inv pp fp bs q1"
    using req_Allowed_pure [OF assms(1), of s False "[]" p perm] req_Allowed_inv [OF assms(1)] r1
    by (simp_all add: request_live_def)
  with d r1 assms(1) show ?thesis
    unfolding pure by (auto simp: request_decide_def cache_ok_def split: option.splits if_splits)
qed

lemma new_request_ok: "inv c \<Longrightarrow> cache_ok inv pp fp bs (new_request c)"
  by (simp add: cache_ok_def new_request_def)

end

record access_query =
  aq_subject :: string
  aq_isAdmin :: bool
  aq_owner :: string
  aq_project :: string
  aq_perm :: permission

definition ask :: "'c authorizer \<Rightarrow> access_query \<Rightarrow> 'c \<Rightarrow> bool result \<times> 'c" where
  "ask a x = Allowed a (aq_subject x) (aq_isAdmin x) (aq_owner x) (aq_project x) (aq_perm x)"

fun ask_all :: "'c authorizer \<Rightarrow> access_query list \<Rightarrow> 'c \<Rightarrow> bool result list" where
  "ask_all a [] c = []"
| "ask_all a (x # xs) c = (case ask a x c of (r, c') \<Rightarrow> r # ask_all a xs c')"

lemma ask_all_request:
  "cache_ok (\<lambda>c. c = w) (registry_parents P w) (registry_parents F w) (reg_list R w) q \<Longrightarrow>
   ask_all (ForRequest (registry_authorizer P F R)) xs q = map (\<lambda>x. fst (ask (registry_authorizer P F R) x w)) xs"
proof (induction xs arbitrary: q)
  case Nil
  then show ?case by simp
next
  case (Cons x xs)
  obtain r q' where r: "ask (ForRequest (registry_authorizer P F R)) x q = (r, q')" by fastforce
  with reg_source.request_Allowed [OF Cons.prems] reg_source.Allowed_pure [of w w P F R]
  have "r = fst (ask (registry_authorizer P F R) x w)"
    "cache_ok (\<lambda>c. c = w) (registry_parents P w) (registry_parents F w) (reg_list R w) q'"
    by (auto simp: ask_def registry_authorizer_def)
  with Cons.IH r show ?case by simp
qed

text \<open>
  C9. The per-request cache changes no decision: any sequence of questions put
  to a request's authorizer gets the answers the live authorizer gives on the
  state the request began with.
\<close>

theorem for_request_equiv:
  "ask_all (ForRequest (registry_authorizer P F R)) xs (new_request w) =
   map (\<lambda>x. fst (ask (registry_authorizer P F R) x w)) xs"
  by (rule ask_all_request) (rule reg_source.new_request_ok [OF refl])

end
