(* ===== verification/Auth.thy ===== *)
theory Auth
  imports Prelude
begin

text \<open>
  Request authentication (\<^verbatim>\<open>internal/auth\<close>): bearer tokens, the static
  token table, the chain of authenticators and the middleware. The JWT library
  and the identity provider's introspection endpoint are parameters: a function
  from the presented token to the verified claims.
\<close>

record identity =
  id_subject :: string
  id_roles :: "string list"

fun has_role_loop :: "string list \<Rightarrow> string \<Rightarrow> bool" where
  "has_role_loop [] role = False"
| "has_role_loop (r # rs) role = (if r = role then True else has_role_loop rs role)"

definition HasRole :: "identity \<Rightarrow> string \<Rightarrow> bool" where
  "HasRole i role = has_role_loop (id_roles i) role"

definition AdminRole :: string where "AdminRole = ''admin''"

definition ErrUnauthenticated :: error where "ErrUnauthenticated = Errorf ''auth: unauthenticated''"

subsection \<open>String helpers of the standard library\<close>

definition ascii_lower :: "char \<Rightarrow> char" where
  "ascii_lower c = (let n = of_char c :: nat in if 65 \<le> n \<and> n \<le> 90 then char_of (n + 32) else c)"

text \<open>
  \<^verbatim>\<open>strings.EqualFold\<close> against an ASCII text without the letters k and s,
  the only ones with non-ASCII foldings.
\<close>

definition equal_fold_ascii :: "string \<Rightarrow> string \<Rightarrow> bool" where
  "equal_fold_ascii s t = (map ascii_lower s = map ascii_lower t)"

text \<open>The UTF-8 encodings of the runes \<^verbatim>\<open>unicode.IsSpace\<close> accepts.\<close>

definition space_runes :: "string list" where
  "space_runes = [
     [CHR 0x09], [CHR 0x0A], [CHR 0x0B],
     [CHR 0x0C], [CHR 0x0D], [CHR 0x20],
     [CHR 0xC2, CHR 0x85], [CHR 0xC2, CHR 0xA0], [CHR 0xE1, CHR 0x9A, CHR 0x80],
     [CHR 0xE2, CHR 0x80, CHR 0x80], [CHR 0xE2, CHR 0x80, CHR 0x81], [CHR 0xE2, CHR 0x80, CHR 0x82],
     [CHR 0xE2, CHR 0x80, CHR 0x83], [CHR 0xE2, CHR 0x80, CHR 0x84], [CHR 0xE2, CHR 0x80, CHR 0x85],
     [CHR 0xE2, CHR 0x80, CHR 0x86], [CHR 0xE2, CHR 0x80, CHR 0x87], [CHR 0xE2, CHR 0x80, CHR 0x88],
     [CHR 0xE2, CHR 0x80, CHR 0x89], [CHR 0xE2, CHR 0x80, CHR 0x8A], [CHR 0xE2, CHR 0x80, CHR 0xA8],
     [CHR 0xE2, CHR 0x80, CHR 0xA9], [CHR 0xE2, CHR 0x80, CHR 0xAF], [CHR 0xE2, CHR 0x81, CHR 0x9F],
     [CHR 0xE3, CHR 0x80, CHR 0x80]]"

definition strip_prefix_rune :: "string list \<Rightarrow> string \<Rightarrow> string option" where
  "strip_prefix_rune rs s = map_option (\<lambda>r. drop (length r) s) (List.find (\<lambda>r. has_prefix s r) rs)"

fun trim_left :: "nat \<Rightarrow> string list \<Rightarrow> string \<Rightarrow> string" where
  "trim_left 0 rs s = s"
| "trim_left (Suc n) rs s = (case strip_prefix_rune rs s of None \<Rightarrow> s | Some t \<Rightarrow> trim_left n rs t)"

definition TrimSpace :: "string \<Rightarrow> string" where
  "TrimSpace s =
     (let t = trim_left (length s) space_runes s
      in rev (trim_left (length t) (map rev space_runes) (rev t)))"

subsection \<open>Authenticators\<close>

text \<open>An \<^verbatim>\<open>Authenticator\<close> reads the \<^verbatim>\<open>Authorization\<close> header of the request.\<close>

type_synonym authenticator = "string \<Rightarrow> identity result"

definition bearerToken :: "string \<Rightarrow> string option" where
  "bearerToken header =
     (let prefix = ''Bearer '' in
      if length header \<le> length prefix \<or> \<not> equal_fold_ascii (take (length prefix) header) prefix then None
      else let token = TrimSpace (drop (length prefix) header) in
        if token = [] then None else Some token)"

definition TokenAuthenticator :: "(string \<times> string) list \<Rightarrow> authenticator" where
  "TokenAuthenticator tokens header = (case bearerToken header of
     None \<Rightarrow> Inl ErrUnauthenticated
   | Some token \<Rightarrow> (case map_of tokens token of
       None \<Rightarrow> Inl ErrUnauthenticated
     | Some subject \<Rightarrow> Inr \<lparr>id_subject = subject, id_roles = []\<rparr>))"

record claims =
  cl_subject :: string
  cl_roles :: "string list"

definition JWTAuthenticator :: "(string \<Rightarrow> claims option) \<Rightarrow> authenticator" where
  "JWTAuthenticator parse header = (case bearerToken header of
     None \<Rightarrow> Inl ErrUnauthenticated
   | Some token \<Rightarrow> (case parse token of
       None \<Rightarrow> Inl ErrUnauthenticated
     | Some c \<Rightarrow> if cl_subject c = [] then Inl ErrUnauthenticated
         else Inr \<lparr>id_subject = cl_subject c, id_roles = cl_roles c\<rparr>))"

text \<open>
  The introspection reply: a transport error, or a status code and the decoded
  body, absent when it is not the expected JSON.
\<close>

record introspection =
  in_active :: bool
  in_sub :: string
  in_roles :: "string list"

datatype introspection_reply = TransportError | Reply nat "introspection option"

definition introspect :: "(string \<Rightarrow> introspection_reply) \<Rightarrow> string \<Rightarrow> identity result" where
  "introspect endpoint token = (case endpoint token of
     TransportError \<Rightarrow> Inl (Errorf ''introspect: transport'')
   | Reply status body \<Rightarrow>
       if status \<noteq> 200 then Inl ErrUnauthenticated
       else (case body of
           None \<Rightarrow> Inl (Errorf ''introspect: decode'')
         | Some out \<Rightarrow>
             if \<not> in_active out \<or> in_sub out = [] then Inl ErrUnauthenticated
             else Inr \<lparr>id_subject = in_sub out, id_roles = in_roles out\<rparr>))"

definition IntrospectionAuthenticator :: "(string \<Rightarrow> introspection_reply) \<Rightarrow> authenticator" where
  "IntrospectionAuthenticator endpoint header = (case bearerToken header of
     None \<Rightarrow> Inl ErrUnauthenticated
   | Some token \<Rightarrow> (case introspect endpoint token of
       Inl e \<Rightarrow> Inl ErrUnauthenticated
     | Inr i \<Rightarrow> Inr i))"

fun chain_loop :: "error \<Rightarrow> authenticator list \<Rightarrow> authenticator" where
  "chain_loop lastErr [] header = Inl lastErr"
| "chain_loop lastErr (a # as) header = (case a header of
     Inr i \<Rightarrow> Inr i
   | Inl e \<Rightarrow> chain_loop e as header)"

definition Chain :: "authenticator list \<Rightarrow> authenticator" where
  "Chain authns = chain_loop ErrUnauthenticated authns"

text \<open>
  \<^verbatim>\<open>ParseTokens\<close> reads \<^verbatim>\<open>token:subject\<close> pairs; a later entry for a
  token replaces an earlier one, so later entries come first here.
\<close>

fun parse_tokens_loop :: "(string \<times> string) list \<Rightarrow> string list \<Rightarrow> (string \<times> string) list result" where
  "parse_tokens_loop tokens [] = Inr tokens"
| "parse_tokens_loop tokens (pair # pairs) =
     (let pair = TrimSpace pair in
      if pair = [] then parse_tokens_loop tokens pairs
      else case cut pair (CHR '':'') of (token, subject, ok) \<Rightarrow>
        if \<not> ok \<or> token = [] \<or> subject = [] then Inl (Errorf ''auth: invalid token entry'')
        else parse_tokens_loop ((token, subject) # tokens) pairs)"

definition ParseTokens :: "string \<Rightarrow> (string \<times> string) list result" where
  "ParseTokens s = (case parse_tokens_loop [] (split_on (CHR '','') s) of
     Inl e \<Rightarrow> Inl e
   | Inr tokens \<Rightarrow> if tokens = [] then Inl (Errorf ''auth: no tokens parsed'') else Inr tokens)"

text \<open>The middleware: the wrapped handler runs with an identity, or a 401 is sent.\<close>

definition Middleware :: "authenticator \<Rightarrow> (identity option \<Rightarrow> 'q \<Rightarrow> 'r) \<Rightarrow> ('q \<Rightarrow> 'r) \<Rightarrow> string \<Rightarrow> 'q \<Rightarrow> 'r" where
  "Middleware a next unauthorized header q = (case a header of
     Inl e \<Rightarrow> unauthorized q
   | Inr i \<Rightarrow> next (Some i) q)"

subsection \<open>Properties\<close>

lemma has_role_loop_iff: "has_role_loop rs role \<longleftrightarrow> role \<in> set rs"
  by (induction rs) auto

lemma HasRole_iff: "HasRole i role \<longleftrightarrow> role \<in> set (id_roles i)"
  by (simp add: HasRole_def has_role_loop_iff)

text \<open>What an authenticator promises: the identities it returns have a subject.\<close>

definition named_subjects :: "authenticator \<Rightarrow> bool" where
  "named_subjects a = (\<forall>header i. a header = Inr i \<longrightarrow> id_subject i \<noteq> [])"

lemma parse_tokens_loop_named:
  "parse_tokens_loop tokens pairs = Inr out \<Longrightarrow> list_all (\<lambda>p. fst p \<noteq> [] \<and> snd p \<noteq> []) tokens \<Longrightarrow>
   list_all (\<lambda>p. fst p \<noteq> [] \<and> snd p \<noteq> []) out"
proof (induction pairs arbitrary: tokens)
  case Nil
  then show ?case by simp
next
  case (Cons pair pairs)
  obtain t s ok where c: "cut (TrimSpace pair) (CHR '':'') = (t, s, ok)" by (cases "cut (TrimSpace pair) (CHR '':'')")
  with Cons show ?case by (auto simp: Let_def split: if_splits)
qed

lemma ParseTokens_named: "ParseTokens s = Inr tokens \<Longrightarrow> (t, subj) \<in> set tokens \<Longrightarrow> t \<noteq> [] \<and> subj \<noteq> []"
  using parse_tokens_loop_named [of "[]" "split_on (CHR '','') s" tokens]
  by (auto simp: ParseTokens_def list_all_iff split: sum.splits if_splits)

lemma Token_named: "ParseTokens s = Inr tokens \<Longrightarrow> named_subjects (TokenAuthenticator tokens)"
  by (auto simp: named_subjects_def TokenAuthenticator_def dest!: map_of_SomeD ParseTokens_named
      split: option.splits)

lemma JWT_named: "named_subjects (JWTAuthenticator parse)"
  by (auto simp: named_subjects_def JWTAuthenticator_def split: option.splits if_splits)

lemma Introspection_named: "named_subjects (IntrospectionAuthenticator endpoint)"
  by (auto simp: named_subjects_def IntrospectionAuthenticator_def introspect_def
      split: option.splits if_splits sum.splits introspection_reply.splits)

lemma chain_loop_first:
  "chain_loop e as header = Inr i \<longleftrightarrow>
   (\<exists>pre a post. as = pre @ a # post \<and> a header = Inr i \<and> (\<forall>b \<in> set pre. \<exists>e. b header = Inl e))"
proof (induction as arbitrary: e)
  case Nil
  then show ?case by simp
next
  case (Cons a as)
  show ?case
  proof (cases "a header")
    case (Inl e')
    then have "chain_loop e (a # as) header = Inr i \<longleftrightarrow>
      (\<exists>pre b post. as = pre @ b # post \<and> b header = Inr i \<and> (\<forall>b \<in> set pre. \<exists>e. b header = Inl e))"
      using Cons.IH by simp
    also have "\<dots> \<longleftrightarrow> (\<exists>pre b post. a # as = pre @ b # post \<and> b header = Inr i \<and>
        (\<forall>b \<in> set pre. \<exists>e. b header = Inl e))"
      using Inl by (auto simp: Cons_eq_append_conv) (metis append_Cons set_ConsD)+
    finally show ?thesis .
  next
    case (Inr j)
    then have "chain_loop e (a # as) header = Inr i \<longleftrightarrow> j = i" by simp
    moreover have "j = i" if "a # as = pre @ b # post" "b header = Inr i" "\<forall>b \<in> set pre. \<exists>e. b header = Inl e"
      for pre b post using that Inr by (cases pre) auto
    moreover have "a # as = [] @ a # as" by simp
    ultimately show ?thesis using Inr by (metis empty_iff empty_set)
  qed
qed

lemma Chain_named: "\<forall>a \<in> set as. named_subjects a \<Longrightarrow> named_subjects (Chain as)"
  by (auto simp: named_subjects_def Chain_def chain_loop_first)

text \<open>
  C11. Behind the middleware of the API, which chains the configured token
  table, the JWT verifier and the introspection client in any order, the wrapped
  handler only ever sees an identity with a non-empty subject; everyone else is
  answered with the unauthorized response.
\<close>

theorem middleware_identity:
  assumes "ParseTokens conf = Inr tokens"
    and "set authns \<subseteq> {TokenAuthenticator tokens, JWTAuthenticator parse, IntrospectionAuthenticator endpoint}"
  shows "Middleware (Chain authns) next unauthorized header q = unauthorized q \<or>
    (\<exists>i. id_subject i \<noteq> [] \<and> Chain authns header = Inr i \<and>
       Middleware (Chain authns) next unauthorized header q = next (Some i) q)"
proof -
  have "named_subjects (Chain authns)"
    using assms Token_named JWT_named Introspection_named by (intro Chain_named) auto
  then show ?thesis
    by (cases "Chain authns header") (auto simp: Middleware_def named_subjects_def)
qed

theorem middleware_identity_witness:
  "Middleware (Chain [TokenAuthenticator [(''t1'', ''alice'')]]) (\<lambda>i q. map_option id_subject i) (\<lambda>q. None)
     ''bearer  t1'' () = Some ''alice''"
proof -
  have p: "ParseTokens '' t1:alice, '' = Inr [(''t1'', ''alice'')]" by code_simp
  have "Chain [TokenAuthenticator [(''t1'', ''alice'')]] ''bearer  t1'' = Inr \<lparr>id_subject = ''alice'', id_roles = []\<rparr>"
    by code_simp
  with middleware_identity [OF p, of "[TokenAuthenticator [(''t1'', ''alice'')]]" "\<lambda>_. None" "\<lambda>_. TransportError"
      "\<lambda>i q. map_option id_subject i" "\<lambda>q. None" "''bearer  t1''" "()"]
  show ?thesis by (auto simp: Middleware_def)
qed

end
