(* ===== verification/Pagination.thy ===== *)
theory Pagination
  imports Resource
begin

text \<open>
  List pagination (\<^verbatim>\<open>internal/handler/pagination.go\<close>) with the library
  functions it calls: \<^verbatim>\<open>strconv.Atoi\<close>, the unpadded URL alphabet of
  \<^verbatim>\<open>encoding/base64\<close> and the binary search of \<^verbatim>\<open>sort.Search\<close>. Strings
  are byte strings ordered bytewise, as Go orders them.
\<close>

subsection \<open>Decimal integers\<close>

definition digit_val :: "char \<Rightarrow> int option" where
  "digit_val c = (let n = of_char c :: nat in if 48 \<le> n \<and> n \<le> 57 then Some (int n - 48) else None)"

fun digits_val :: "int \<Rightarrow> string \<Rightarrow> int option" where
  "digits_val acc [] = Some acc"
| "digits_val acc (c # cs) = (case digit_val c of None \<Rightarrow> None | Some d \<Rightarrow> digits_val (10 * acc + d) cs)"

definition atoi_abs :: "string \<Rightarrow> int option" where
  "atoi_abs s = (if s = [] then None else digits_val 0 s)"

definition atoi :: "string \<Rightarrow> int option" where
  "atoi s = (case s of
     [] \<Rightarrow> None
   | c # cs \<Rightarrow>
       (case (if c = CHR ''-'' then map_option uminus (atoi_abs cs)
              else if c = CHR ''+'' then atoi_abs cs else atoi_abs s) of
          None \<Rightarrow> None
        | Some n \<Rightarrow> if - (2 ^ 63) \<le> n \<and> n < 2 ^ 63 then Some n else None))"

subsection \<open>Unpadded URL-safe base64\<close>

definition b64_alphabet :: string where
  "b64_alphabet = ''ABCDEFGHIJKLMNOPQRSTUVWXYZabcdefghijklmnopqrstuvwxyz0123456789-_''"

fun sextets :: "nat list \<Rightarrow> nat list" where
  "sextets [] = []"
| "sextets [a] = [a div 4, (a mod 4) * 16]"
| "sextets [a, b] = [a div 4, (a mod 4) * 16 + b div 16, (b mod 16) * 4]"
| "sextets (a # b # c # rest) =
     a div 4 # ((a mod 4) * 16 + b div 16) # ((b mod 16) * 4 + c div 64) # (c mod 64) # sextets rest"

fun octets :: "nat list \<Rightarrow> nat list option" where
  "octets [] = Some []"
| "octets [p] = None"
| "octets [p, q] = Some [p * 4 + q div 16]"
| "octets [p, q, r] = Some [p * 4 + q div 16, (q mod 16) * 16 + r div 4]"
| "octets (p # q # r # s # rest) =
     map_option (\<lambda>t. (p * 4 + q div 16) # ((q mod 16) * 16 + r div 4) # ((r mod 4) * 64 + s) # t) (octets rest)"

definition b64_encode :: "string \<Rightarrow> string" where
  "b64_encode s = map (\<lambda>n. b64_alphabet ! n) (sextets (map of_char s))"

fun index_of :: "'a \<Rightarrow> 'a list \<Rightarrow> nat option" where
  "index_of x [] = None"
| "index_of x (y # ys) = (if x = y then Some 0 else map_option Suc (index_of x ys))"

fun b64_vals :: "string \<Rightarrow> nat list option" where
  "b64_vals [] = Some []"
| "b64_vals (c # cs) =
     (if c = CHR 0x0A \<or> c = CHR 0x0D then b64_vals cs
      else case index_of c b64_alphabet of
        None \<Rightarrow> None
      | Some n \<Rightarrow> map_option ((#) n) (b64_vals cs))"

definition b64_decode :: "string \<Rightarrow> string option" where
  "b64_decode s = (case b64_vals s of
     None \<Rightarrow> None
   | Some ns \<Rightarrow> map_option (map char_of) (octets ns))"

subsection \<open>Binary search\<close>

function search_loop :: "(nat \<Rightarrow> bool) \<Rightarrow> nat \<Rightarrow> nat \<Rightarrow> nat" where
  "search_loop f i j =
     (if i < j then let h = (i + j) div 2 in if \<not> f h then search_loop f (Suc h) j else search_loop f i h
      else i)"
  by pat_completeness auto
termination
  by (relation "measure (\<lambda>(f, i, j). j - i)") auto

definition sort_Search :: "nat \<Rightarrow> (nat \<Rightarrow> bool) \<Rightarrow> nat" where
  "sort_Search n f = search_loop f 0 n"

subsection \<open>Pages\<close>

definition pageParameters :: "smap \<Rightarrow> (nat \<times> string) result" where
  "pageParameters q =
     (let raw = smap_get q ''limit''; token = smap_get q ''continue'';
          lim = (if raw = [] then Some 100
            else case atoi raw of
              None \<Rightarrow> None
            | Some n \<Rightarrow> if n < 1 \<or> n > 1000 then None else Some (nat n))
      in case lim of
        None \<Rightarrow> Inl (Errorf ''limit must be between 1 and 1000'')
      | Some sz \<Rightarrow>
          if length token > 4096 then Inl (Errorf ''invalid continuation token'')
          else if token = [] then Inr (sz, [])
          else case b64_decode token of
            None \<Rightarrow> Inl (Errorf ''invalid continuation token'')
          | Some after \<Rightarrow> if after = [] then Inl (Errorf ''invalid continuation token'') else Inr (sz, after))"

abbreviation item_uid :: "('s, 'st) resource \<Rightarrow> string" where
  "item_uid it \<equiv> md_uid (metadata it)"

definition page_of ::
    "nat \<Rightarrow> string \<Rightarrow> string \<Rightarrow> ('s, 'st) resource list \<Rightarrow> ('s, 'st) resource_list" where
  "page_of sz after knd items =
     (let items = sort_key item_uid items;
          start = sort_Search (length items) (\<lambda>i. item_uid (items ! i) > after);
          fin = min (length items) (start + sz);
          next = (if fin < length items then b64_encode (item_uid (items ! (fin - 1))) else [])
      in \<lparr>list_apiVersion = APIVersion, list_kind = knd,
          list_items = drop start (take fin items), list_continue = next\<rparr>)"

definition writeList ::
    "smap \<Rightarrow> string \<Rightarrow> ('s, 'st) resource list \<Rightarrow> ('s, 'st) resource_list result" where
  "writeList q knd items = (case pageParameters q of
     Inl e \<Rightarrow> Inl e
   | Inr (sz, after) \<Rightarrow> Inr (page_of sz after knd items))"

subsection \<open>The base64 round trip\<close>

lemma alphabet_index: "n < 64 \<Longrightarrow> index_of (b64_alphabet ! n) b64_alphabet = Some n"
proof -
  have "list_all (\<lambda>n. index_of (b64_alphabet ! n) b64_alphabet = Some n) [0..<64]" by code_simp
  then show "n < 64 \<Longrightarrow> ?thesis" by (simp add: list_all_iff)
qed

lemma alphabet_no_newline: "n < 64 \<Longrightarrow> b64_alphabet ! n \<noteq> CHR 0x0A \<and> b64_alphabet ! n \<noteq> CHR 0x0D"
proof -
  have "list_all (\<lambda>n. b64_alphabet ! n \<noteq> CHR 0x0A \<and> b64_alphabet ! n \<noteq> CHR 0x0D) [0..<64]" by code_simp
  then show "n < 64 \<Longrightarrow> ?thesis" by (simp add: list_all_iff)
qed

lemma b64_vals_encoded: "list_all (\<lambda>n. n < 64) ns \<Longrightarrow> b64_vals (map ((!) b64_alphabet) ns) = Some ns"
  by (induction ns) (auto simp: alphabet_index dest: alphabet_no_newline)

lemma sextets_bound: "list_all (\<lambda>n. n < 256) bs \<Longrightarrow> list_all (\<lambda>n. n < 64) (sextets bs)"
  by (induction bs rule: sextets.induct) auto

lemma octets_sextets: "list_all (\<lambda>n. n < 256) bs \<Longrightarrow> octets (sextets bs) = Some bs"
proof (induction bs rule: sextets.induct)
  case (4 a b c rest)
  have "b div 16 < 16" "c div 64 < 4" using 4 by auto
  then have "((a mod 4) * 16 + b div 16) div 16 = a mod 4" "((a mod 4) * 16 + b div 16) mod 16 = b div 16"
    "((b mod 16) * 4 + c div 64) div 4 = b mod 16" "((b mod 16) * 4 + c div 64) mod 4 = c div 64"
    by auto
  moreover have "a div 4 * 4 + a mod 4 = a" "b div 16 * 16 + b mod 16 = b" "c div 64 * 64 + c mod 64 = c"
    by simp_all
  ultimately show ?case using 4 by simp
next
  case (3 a b)
  have "b div 16 < 16" using 3 by auto
  then have "((a mod 4) * 16 + b div 16) div 16 = a mod 4" "((a mod 4) * 16 + b div 16) mod 16 = b div 16"
    by auto
  moreover have "a div 4 * 4 + a mod 4 = a" "b div 16 * 16 + b mod 16 = b" by simp_all
  ultimately show ?case by simp
qed auto

lemma length_sextets: "length (sextets bs) = (4 * length bs + 2) div 3"
  by (induction bs rule: sextets.induct) auto

lemma length_b64_encode: "length (b64_encode s) = (4 * length s + 2) div 3"
  by (simp add: b64_encode_def length_sextets)

lemma b64_encode_Nil_iff [simp]: "b64_encode s = [] \<longleftrightarrow> s = []"
proof -
  have "length (b64_encode s) = 0 \<longleftrightarrow> length s = 0" unfolding length_b64_encode by (cases "length s") auto
  then show ?thesis by simp
qed

lemma b64_decode_encode: "b64_decode (b64_encode s) = Some s"
proof -
  have b: "list_all (\<lambda>n. n < 256) (map (of_char :: char \<Rightarrow> nat) s)"
    by (auto simp: list_all_iff)
  then show ?thesis
    by (simp add: b64_decode_def b64_encode_def b64_vals_encoded [OF sextets_bound [OF b]] octets_sextets comp_def)
qed

subsection \<open>Search and pages\<close>

declare search_loop.simps [simp del]

lemma search_loop_spec:
  assumes mono: "\<And>a b. a \<le> b \<Longrightarrow> b < n \<Longrightarrow> f a \<Longrightarrow> f b"
  shows "i \<le> j \<Longrightarrow> j \<le> n \<Longrightarrow> \<forall>a < i. \<not> f a \<Longrightarrow> \<forall>b < n. j \<le> b \<longrightarrow> f b \<Longrightarrow>
    search_loop f i j \<le> n \<and> (\<forall>a < n. f a \<longleftrightarrow> search_loop f i j \<le> a)"
proof (induction "j - i" arbitrary: i j rule: less_induct)
  case less
  show ?case
  proof (cases "i < j")
    case False
    then have "search_loop f i j = i" by (subst search_loop.simps) simp
    with False less.prems show ?thesis by (auto simp: not_less)
  next
    case True
    let ?h = "(i + j) div 2"
    have h: "i \<le> ?h" "?h < j" using True by auto
    show ?thesis
    proof (cases "f ?h")
      case True
      have u: "\<forall>b < n. ?h \<le> b \<longrightarrow> f b" using mono True by blast
      have "search_loop f i j = search_loop f i ?h"
        using True \<open>i < j\<close> by (simp add: search_loop.simps [of f i j] Let_def)
      moreover have "?h - i < j - i" "?h \<le> n" using h less.prems(2) by auto
      ultimately show ?thesis
        using less.hyps [OF _ h(1) _ less.prems(3) u] by presburger
    next
      case False
      have u: "\<forall>a < Suc ?h. \<not> f a"
        using mono [of _ ?h] False h less.prems(2) by (metis less_Suc_eq_le order.strict_trans2)
      have "search_loop f i j = search_loop f (Suc ?h) j"
        using False \<open>i < j\<close> by (simp add: search_loop.simps [of f i j] Let_def)
      moreover have "j - Suc ?h < j - i" "Suc ?h \<le> j" using h by auto
      ultimately show ?thesis
        using less.hyps [OF _ _ less.prems(2) u less.prems(4)] by presburger
    qed
  qed
qed

lemma sort_Search_spec:
  assumes "\<And>a b. a \<le> b \<Longrightarrow> b < n \<Longrightarrow> f a \<Longrightarrow> f b"
  shows "sort_Search n f \<le> n \<and> (\<forall>a < n. f a \<longleftrightarrow> sort_Search n f \<le> a)"
proof -
  have "search_loop f 0 n \<le> n \<and> (\<forall>a < n. f a \<longleftrightarrow> search_loop f 0 n \<le> a)"
    by (rule search_loop_spec) (use assms in auto)
  then show ?thesis by (simp add: sort_Search_def)
qed

lemma filter_drop:
  assumes "k \<le> length xs" "\<forall>a < length xs. P (xs ! a) \<longleftrightarrow> k \<le> a"
  shows "filter P xs = drop k xs"
proof -
  have "filter P (take k xs) = []"
    using assms by (auto simp: filter_empty_conv in_set_conv_nth)
  moreover have "filter P (drop k xs) = drop k xs"
    using assms by (auto simp: filter_id_conv in_set_conv_nth)
  ultimately show ?thesis
    by (metis append_Nil append_take_drop_id filter_append)
qed

text \<open>The items of a page and its token, in terms of the items after the last one seen.\<close>

abbreviation after_items :: "string \<Rightarrow> ('s, 'st) resource list \<Rightarrow> ('s, 'st) resource list" where
  "after_items a items \<equiv> filter (\<lambda>it. a < item_uid it) (sort_key item_uid items)"

lemma page_of_eq:
  assumes "0 < sz"
  shows "list_items (page_of sz a knd items) = take sz (after_items a items)"
    and "list_continue (page_of sz a knd items) =
      (if sz < length (after_items a items) then b64_encode (item_uid (after_items a items ! (sz - 1))) else [])"
proof -
  let ?S = "sort_key item_uid items"
  let ?f = "\<lambda>i. item_uid (?S ! i) > a"
  let ?k = "sort_Search (length ?S) ?f"
  have srt: "sorted (map item_uid ?S)" by simp
  have "?k \<le> length ?S \<and> (\<forall>i < length ?S. ?f i \<longleftrightarrow> ?k \<le> i)"
  proof (rule sort_Search_spec)
    fix i j
    assume "i \<le> j" "j < length ?S" "a < item_uid (?S ! i)"
    moreover have "item_uid (?S ! i) \<le> item_uid (?S ! j)"
      using sorted_nth_mono [OF srt, of i j] calculation by simp
    ultimately show "a < item_uid (?S ! j)" by (meson order_less_le_trans)
  qed
  then have k: "?k \<le> length ?S" and F: "after_items a items = drop ?k ?S"
    by (auto intro!: filter_drop)
  show "list_items (page_of sz a knd items) = take sz (after_items a items)"
    unfolding F by (simp add: page_of_def Let_def drop_take min_def)
  show "list_continue (page_of sz a knd items) =
      (if sz < length (after_items a items) then b64_encode (item_uid (after_items a items ! (sz - 1))) else [])"
    unfolding F using assms k by (auto simp: page_of_def Let_def min_def)
qed

lemma after_next:
  assumes "distinct (map item_uid items)" "n < length (after_items a items)"
  shows "after_items (item_uid (after_items a items ! n)) items = drop (Suc n) (after_items a items)"
proof -
  let ?S = "sort_key item_uid items"
  let ?F = "after_items a items"
  let ?x = "item_uid (?F ! n)"
  have "sorted_wrt (<) (map item_uid ?S)"
    using assms(1) by (simp add: strict_sorted_iff distinct_map)
  then have sF: "sorted_wrt (<) (map item_uid ?F)"
    by (simp add: sorted_wrt_map sorted_wrt_filter)
  have "a < ?x" using assms(2) nth_mem [OF assms(2)] by auto
  then have "after_items ?x items = filter (\<lambda>it. ?x < item_uid it) ?F"
    by (auto simp: filter_filter intro!: filter_cong dest: order_less_trans)
  also have "\<dots> = drop (Suc n) ?F"
  proof (rule filter_drop)
    show "Suc n \<le> length ?F" using assms(2) by simp
    have lt: "item_uid (?F ! i) < item_uid (?F ! j)" if "i < j" "j < length ?F" for i j
      using sF that by (simp add: sorted_wrt_iff_nth_less)
    show "\<forall>i < length ?F. ?x < item_uid (?F ! i) \<longleftrightarrow> Suc n \<le> i"
    proof (intro allI impI)
      fix i
      assume i: "i < length ?F"
      consider "n < i" | "i = n" | "i < n" by linarith
      then show "?x < item_uid (?F ! i) \<longleftrightarrow> Suc n \<le> i"
        by cases (use lt [of n i] lt [of i n] i assms(2) in \<open>auto dest: order_less_trans\<close>)
    qed
  qed
  finally show ?thesis .
qed

text \<open>A client that follows continuation tokens until there is none.\<close>

fun fetch_all ::
    "nat \<Rightarrow> string \<Rightarrow> string \<Rightarrow> string \<Rightarrow> ('s, 'st) resource list \<Rightarrow> ('s, 'st) resource list option" where
  "fetch_all 0 limit token knd items = None"
| "fetch_all (Suc n) limit token knd items =
     (case writeList [(''limit'', limit), (''continue'', token)] knd items of
        Inl e \<Rightarrow> None
      | Inr page \<Rightarrow>
          if list_continue page = [] then Some (list_items page)
          else map_option (append (list_items page)) (fetch_all n limit (list_continue page) knd items))"

definition valid_limit :: "string \<Rightarrow> nat \<Rightarrow> bool" where
  "valid_limit limit sz = (if limit = [] then sz = 100 else atoi limit = Some (int sz) \<and> 1 \<le> sz \<and> sz \<le> 1000)"

lemma pageParameters_token:
  assumes "valid_limit limit sz" "length a \<le> 3072"
  shows "pageParameters [(''limit'', limit), (''continue'', b64_encode a)] = Inr (sz, a)"
proof -
  have "length (b64_encode a) \<le> 4096" unfolding length_b64_encode using assms(2) by linarith
  moreover have "b64_encode [] = []" by simp
  ultimately show ?thesis
    using assms(1) by (auto simp: pageParameters_def Let_def smap_get_def valid_limit_def b64_decode_encode
      split: if_splits)
qed

lemma fetch_all_from:
  assumes lim: "valid_limit limit sz" and d: "distinct (map item_uid items)"
    and len: "\<forall>it \<in> set items. length (item_uid it) \<le> 3072 \<and> item_uid it \<noteq> []"
  shows "length (after_items a items) < n \<Longrightarrow> length a \<le> 3072 \<Longrightarrow>
    fetch_all n limit (b64_encode a) knd items = Some (after_items a items)"
proof (induction n arbitrary: a)
  case 0
  then show ?case by simp
next
  case (Suc n)
  have sz: "0 < sz" using lim by (auto simp: valid_limit_def split: if_splits)
  let ?F = "after_items a items"
  let ?x = "item_uid (?F ! (sz - 1))"
  have w: "writeList [(''limit'', limit), (''continue'', b64_encode a)] knd items = Inr (page_of sz a knd items)"
    by (simp add: writeList_def pageParameters_token [OF lim Suc.prems(2)])
  show ?case
  proof (cases "sz < length ?F")
    case False
    with w show ?thesis by (simp add: page_of_eq [OF sz])
  next
    case True
    then have "?F ! (sz - 1) \<in> set ?F" using sz by (intro nth_mem) simp
    then have x: "length ?x \<le> 3072" "?x \<noteq> []" using len by auto
    have nxt: "after_items ?x items = drop sz ?F"
      using after_next [OF d, of "sz - 1" a] True sz by simp
    have "length (after_items ?x items) < n" unfolding nxt using Suc.prems(1) True sz by simp
    then have "fetch_all n limit (b64_encode ?x) knd items = Some (drop sz ?F)"
      using Suc.IH [of ?x] x nxt by simp
    with w True x show ?thesis by (simp add: page_of_eq [OF sz])
  qed
qed

text \<open>
  C10. Following the continuation tokens visits every item exactly once, in the
  order of the uids, whatever the page size; the walk ends after at most one
  request per item and one more.
\<close>

theorem pagination_complete:
  assumes "valid_limit limit sz" "distinct (map item_uid items)"
    and "list_all (\<lambda>it. item_uid it \<noteq> [] \<and> length (item_uid it) \<le> 3072) items"
  shows "fetch_all (Suc (length items)) limit [] knd items = Some (sort_key item_uid items)"
proof -
  have "after_items [] items = sort_key item_uid items"
    using assms(3) by (auto simp: filter_id_conv list_all_iff less_le)
  then show ?thesis
    using fetch_all_from [OF assms(1,2), of "[]" "Suc (length items)" knd] assms(3) b64_encode_Nil_iff [of "[]"]
    by (simp add: list_all_iff del: b64_encode_Nil_iff)
qed

definition example_item :: "string \<Rightarrow> (unit, unit) resource" where
  "example_item u = \<lparr>apiVersion = APIVersion, kind = ''vpc'',
     metadata = \<lparr>md_uid = u, md_name = u, md_organizationId = [], md_projectId = [],
       md_ownerUid = ''alice'', md_labels = [], md_annotations = [], md_ownerRefs = [],
       md_finalizers = [], md_generation = 1, md_resourceVersion = [], md_deletionTimestamp = None,
       md_createdAt = 0\<rparr>, spec = (), status = ()\<rparr>"

theorem pagination_complete_witness:
  "fetch_all 4 ''2'' [] ''vpc'' [example_item ''c'', example_item ''a'', example_item ''b''] =
   Some [example_item ''a'', example_item ''b'', example_item ''c'']"
proof -
  let ?items = "[example_item ''c'', example_item ''a'', example_item ''b'']"
  have "valid_limit ''2'' 2" by code_simp
  moreover have "distinct (map item_uid ?items)" by (simp add: example_item_def)
  moreover have "list_all (\<lambda>it. item_uid it \<noteq> [] \<and> length (item_uid it) \<le> 3072) ?items"
    by (simp add: example_item_def)
  ultimately have "fetch_all (Suc (length ?items)) ''2'' [] ''vpc'' ?items = Some (sort_key item_uid ?items)"
    by (rule pagination_complete)
  moreover have "sort_key item_uid ?items = [example_item ''a'', example_item ''b'', example_item ''c'']"
    by (simp add: example_item_def)
  ultimately show ?thesis by (simp add: numeral_eq_Suc)
qed

end
