(* ===== verification/Handler.thy ===== *)
theory Handler
  imports Iam Auth Pagination
begin

text \<open>
  The generic CRUD handler (\<^verbatim>\<open>internal/handler/handler.go\<close>). A request
  carries the identity the middleware attached, the error of its context, the
  \<^verbatim>\<open>uid\<close> path value, its query and its decoded body. What the handler finds
  out about the spec type with type assertions is a \<open>spec_ops\<close> record. A
  response is a status and a body; the store is passed through. The live
  authorizer reads the store and changes nothing, so \<open>may\<close> drops its state.
\<close>

datatype json =
    JNull
  | JBool bool
  | JNumber string
  | JString string
  | JArray "json list"
  | JObject "(string \<times> json) list"

record 's spec_ops =
  sp_privileged :: "'s \<Rightarrow> bool"
  sp_default :: "'s \<Rightarrow> 's"
  sp_validate :: "'s \<Rightarrow> error option"
  sp_json :: "'s \<Rightarrow> json option"

record ('w, 's, 'st) handler =
  h_reg :: "('w, 's, 'st) registry"
  h_kind :: string
  h_az :: "'w authorizer option"
  h_adminOnly :: bool
  h_spec :: "'s spec_ops"
  h_zero :: 'st

record ('s, 'st) http_request =
  hr_identity :: "identity option"
  hr_ctx :: "error option"
  hr_uid :: string
  hr_query :: smap
  hr_body :: "('s, 'st) resource option"

datatype ('s, 'st) body =
    NoBody
  | ErrorBody string
  | ResourceBody "('s, 'st) resource"
  | ListBody "('s, 'st) resource_list"

record ('s, 'st) response =
  rs_status :: nat
  rs_body :: "('s, 'st) body"

definition respond :: "nat \<Rightarrow> ('s, 'st) body \<Rightarrow> ('s, 'st) response" where
  "respond st b = \<lparr>rs_status = st, rs_body = b\<rparr>"

definition writeError :: "nat \<Rightarrow> string \<Rightarrow> ('s, 'st) response" where
  "writeError st msg = respond st (ErrorBody msg)"

definition authorize ::
    "bool \<Rightarrow> 'c authorizer option \<Rightarrow> identity option \<Rightarrow> string \<Rightarrow> string \<Rightarrow> permission \<Rightarrow> 'c \<Rightarrow> bool \<times> 'c" where
  "authorize adminOnly az ident ownerUID projectID perm c =
     (if \<not> adminOnly \<and> Option.is_none az then (True, c)
      else case ident of
        None \<Rightarrow> (False, c)
      | Some i \<Rightarrow>
          if adminOnly then (HasRole i AdminRole, c)
          else (case az of
              None \<Rightarrow> (False, c)
            | Some a \<Rightarrow> (case Allowed a (id_subject i) (HasRole i AdminRole) ownerUID projectID perm c of
                (Inl e, c') \<Rightarrow> (False, c')
              | (Inr allowed, c') \<Rightarrow> (allowed, c'))))"

definition may ::
    "('w, 's, 'st) handler \<Rightarrow> identity option \<Rightarrow> object_meta \<Rightarrow> permission \<Rightarrow> 'w \<Rightarrow> bool" where
  "may h ident m perm w = fst (authorize (h_adminOnly h) (h_az h) ident (md_ownerUid m) (md_projectId m) perm w)"

definition withContext :: "error option \<Rightarrow> ('w, 's, 'st) handler \<Rightarrow> ('w, 's, 'st) handler" where
  "withContext ctx h = h\<lparr>h_reg := reg_WithContext ctx (h_reg h)\<rparr>"

subsection \<open>Reading\<close>

fun visible_loop ::
    "bool \<Rightarrow> 'c authorizer option \<Rightarrow> identity option \<Rightarrow> ('s, 'st) resource list \<Rightarrow> 'c \<Rightarrow>
      ('s, 'st) resource list \<times> 'c" where
  "visible_loop adm az ident [] c = ([], c)"
| "visible_loop adm az ident (it # its) c =
     (case authorize adm az ident (md_ownerUid (metadata it)) (md_projectId (metadata it)) PermissionRead c of
        (ok, c1) \<Rightarrow> (case visible_loop adm az ident its c1 of
          (vs, c2) \<Rightarrow> (if ok then it # vs else vs, c2)))"

definition handler_list ::
    "('w, 's, 'st) handler \<Rightarrow> ('s, 'st) http_request \<Rightarrow> 'w \<Rightarrow> ('s, 'st) response" where
  "handler_list h0 r w =
     (let h = withContext (hr_ctx r) h0 in
      case pageParameters (hr_query r) of
        Inl e \<Rightarrow> writeError 400 ''bad page parameters''
      | Inr _ \<Rightarrow> (case reg_list (h_reg h) w of
          Inl e \<Rightarrow> writeError 500 ''list failed''
        | Inr items \<Rightarrow>
            let items = (if \<not> Option.is_none (h_az h) \<or> h_adminOnly h
                then fst (visible_loop (h_adminOnly h) (map_option ForRequest (h_az h)) (hr_identity r) items (new_request w))
                else items)
            in case writeList (hr_query r) (h_kind h) items of
              Inl e \<Rightarrow> writeError 400 ''bad page parameters''
            | Inr page \<Rightarrow> respond 200 (ListBody page)))"

definition handler_get ::
    "('w, 's, 'st) handler \<Rightarrow> ('s, 'st) http_request \<Rightarrow> 'w \<Rightarrow> ('s, 'st) response" where
  "handler_get h0 r w =
     (let h = withContext (hr_ctx r) h0 in
      case reg_get (h_reg h) w (hr_uid r) of
        Inr res \<Rightarrow>
          if \<not> may h (hr_identity r) (metadata res) PermissionRead w then writeError 403 ''forbidden''
          else respond 200 (ResourceBody res)
      | Inl e \<Rightarrow> if errors_is e ErrNotFound then writeError 404 ''not found'' else writeError 500 ''get failed'')"

subsection \<open>References\<close>

definition KindVPC :: string where "KindVPC = ''vpc''"
definition KindSubnet :: string where "KindSubnet = ''subnet''"
definition KindDisk :: string where "KindDisk = ''disk''"
definition KindSSLCert :: string where "KindSSLCert = ''ssl_cert''"
definition KindSSLCA :: string where "KindSSLCA = ''ssl_ca''"
definition KindSecurityGroup :: string where "KindSecurityGroup = ''security_group''"
definition KindKMSKey :: string where "KindKMSKey = ''kms_key''"
definition KindKMSKeyring :: string where "KindKMSKeyring = ''kms_keyring''"
definition KindNodePool :: string where "KindNodePool = ''node_pool''"
definition KindCompute :: string where "KindCompute = ''compute''"
definition KindFunction :: string where "KindFunction = ''function''"
definition KindLBTargetGroup :: string where "KindLBTargetGroup = ''lb_target_group''"
definition KindLoadBalancer :: string where "KindLoadBalancer = ''load_balancer''"
definition KindWAFPolicy :: string where "KindWAFPolicy = ''waf_policy''"
definition KindDNSZone :: string where "KindDNSZone = ''dns_zone''"
definition KindSecret :: string where "KindSecret = ''secret''"

definition reference_fields :: "(string \<times> string) list" where
  "reference_fields = [
     (''vpcId'', KindVPC), (''vpc1Id'', KindVPC), (''vpc2Id'', KindVPC), (''vpcIds'', KindVPC),
     (''subnetId'', KindSubnet), (''diskId'', KindDisk), (''sslCertId'', KindSSLCert),
     (''certificateIds'', KindSSLCert), (''caId'', KindSSLCA), (''backendCaId'', KindSSLCA),
     (''securityGroupId'', KindSecurityGroup), (''kmsKeyId'', KindKMSKey), (''keyringId'', KindKMSKeyring),
     (''nodePoolId'', KindNodePool), (''targetNodePoolId'', KindNodePool), (''computeId'', KindCompute),
     (''functionId'', KindFunction), (''targetGroupId'', KindLBTargetGroup),
     (''defaultTargetGroupId'', KindLBTargetGroup), (''loadBalancerId'', KindLoadBalancer),
     (''lbId'', KindLoadBalancer), (''policyId'', KindWAFPolicy), (''zoneId'', KindDNSZone),
     (''secretId'', KindSecret)]"

definition json_string :: "json option \<Rightarrow> string" where
  "json_string v = (case v of Some (JString s) \<Rightarrow> s | _ \<Rightarrow> [])"

fun first_error :: "error option list \<Rightarrow> error option" where
  "first_error [] = None"
| "first_error (Some e # es) = Some e"
| "first_error (None # es) = first_error es"

definition typed_pair ::
    "(string \<Rightarrow> string \<Rightarrow> error option) \<Rightarrow> (string \<times> json) list \<Rightarrow> string \<times> string \<Rightarrow> error option" where
  "typed_pair check fs pair =
     (let k = json_string (map_of fs (fst pair)); uid = json_string (map_of fs (snd pair)) in
      if uid \<noteq> [] then
        if List.member [''igw'', ''subnet'', ''compute'', ''organization'', ''folder''] k then check k uid
        else Some (Errorf ''invalid reference kind'')
      else None)"

fun check_field :: "(string \<Rightarrow> string \<Rightarrow> error option) \<Rightarrow> string \<Rightarrow> json \<Rightarrow> error option" where
  "check_field check k (JString s) = check k s"
| "check_field check k (JArray vs) =
     first_error (map (\<lambda>v. case v of JString s \<Rightarrow> check k s | _ \<Rightarrow> None) vs)"
| "check_field check k _ = None"

fun walk :: "(string \<Rightarrow> string \<Rightarrow> error option) \<Rightarrow> json \<Rightarrow> error option"
and walk_fields :: "(string \<Rightarrow> string \<Rightarrow> error option) \<Rightarrow> (string \<times> json) list \<Rightarrow> error option"
and walk_items :: "(string \<Rightarrow> string \<Rightarrow> error option) \<Rightarrow> json list \<Rightarrow> error option" where
  "walk check (JObject fs) =
     (case first_error [typed_pair check fs (''targetType'', ''targetId''),
          typed_pair check fs (''parentKind'', ''parentId'')] of
        Some e \<Rightarrow> Some e
      | None \<Rightarrow> walk_fields check fs)"
| "walk check (JArray vs) = walk_items check vs"
| "walk check _ = None"
| "walk_fields check [] = None"
| "walk_fields check ((field, child) # fs) =
     (case (case map_of reference_fields field of
          Some k \<Rightarrow> check_field check k child
        | None \<Rightarrow> walk check child) of
        Some e \<Rightarrow> Some e
      | None \<Rightarrow> walk_fields check fs)"
| "walk_items check [] = None"
| "walk_items check (v # vs) = (case walk check v of Some e \<Rightarrow> Some e | None \<Rightarrow> walk_items check vs)"

definition check_reference ::
    "('w, 's, 'st) registry \<Rightarrow> 'w authorizer \<Rightarrow> identity \<Rightarrow> object_meta \<Rightarrow> 'w \<Rightarrow> string \<Rightarrow> string \<Rightarrow> error option" where
  "check_reference reg az i m w k uid =
     (if uid = [] then None
      else case LookupMetadata reg w k uid of
        Inl e \<Rightarrow> Some e
      | Inr target \<Rightarrow>
          if HasRole i AdminRole then None
          else if k = KindNodePool then None
          else if k = KindSSLCA \<or> k = KindSSLCert \<or> k = KindSecret then Some (Errorf ''platform-managed reference'')
          else if md_projectId target \<noteq> md_projectId m then Some (Errorf ''cross-project reference'')
          else (case fst (Allowed az (id_subject i) False (md_ownerUid target) (md_projectId target) PermissionWrite w) of
              Inl e \<Rightarrow> Some e
            | Inr allowed \<Rightarrow> if \<not> allowed then Some (Errorf ''reference permission denied'') else None))"

definition authorizeReferences ::
    "('w, 's, 'st) handler \<Rightarrow> identity option \<Rightarrow> object_meta \<Rightarrow> 's \<Rightarrow> 'w \<Rightarrow> error option" where
  "authorizeReferences h ident m sp w = (case h_az h of
     None \<Rightarrow> None
   | Some az \<Rightarrow> (case ident of
       None \<Rightarrow> Some (Errorf ''missing identity'')
     | Some i \<Rightarrow> (case sp_json (h_spec h) sp of
         None \<Rightarrow> Some (Errorf ''json'')
       | Some v \<Rightarrow> walk (check_reference (h_reg h) az i m w) v)))"

subsection \<open>Writing\<close>

text \<open>What a create may do, and the owner it records; \<^const>\<open>None\<close> is a 403.\<close>

definition create_owner ::
    "('w, 's, 'st) handler \<Rightarrow> identity option \<Rightarrow> object_meta \<Rightarrow> 'w \<Rightarrow> string option" where
  "create_owner h ident m w =
     (if h_adminOnly h then
        (case ident of
           None \<Rightarrow> None
         | Some i \<Rightarrow> if \<not> HasRole i AdminRole then None else Some (id_subject i))
      else case h_az h of
        None \<Rightarrow> Some (md_ownerUid m)
      | Some az \<Rightarrow> (case ident of
          None \<Rightarrow> None
        | Some i \<Rightarrow>
            if md_projectId m \<noteq> [] \<and>
               fst (Allowed az (id_subject i) (HasRole i AdminRole) [] (md_projectId m) PermissionWrite w) \<noteq> Inr True
            then None
            else Some (id_subject i)))"

definition carry_over :: "object_meta \<Rightarrow> object_meta \<Rightarrow> object_meta" where
  "carry_over existing m = m\<lparr>md_resourceVersion := md_resourceVersion existing,
     md_createdAt := md_createdAt existing, md_generation := i64 (md_generation existing + 1),
     md_ownerUid := md_ownerUid existing, md_finalizers := md_finalizers existing,
     md_deletionTimestamp := md_deletionTimestamp existing\<rparr>"

definition fresh_meta :: "time \<Rightarrow> string \<Rightarrow> object_meta \<Rightarrow> object_meta" where
  "fresh_meta now owner m = m\<lparr>md_ownerUid := owner, md_createdAt := now, md_generation := 1,
     md_finalizers := [], md_deletionTimestamp := None, md_resourceVersion := []\<rparr>"

definition put_finish ::
    "('w, 's, 'st) handler \<Rightarrow> identity option \<Rightarrow> nat \<Rightarrow> ('s, 'st) resource \<Rightarrow> 'w \<Rightarrow> ('s, 'st) response \<times> 'w" where
  "put_finish h ident okStatus res w =
     (let res = res\<lparr>spec := sp_default (h_spec h) (spec res)\<rparr> in
      case sp_validate (h_spec h) (spec res) of
        Some e \<Rightarrow> (writeError 400 ''invalid spec'', w)
      | None \<Rightarrow>
          if authorizeReferences h ident (metadata res) (spec res) w \<noteq> None
          then (writeError 403 ''reference is unavailable or outside the permitted scope'', w)
          else (case reg_put (h_reg h) w res of
              (Inl e, w') \<Rightarrow>
                (if errors_is e ErrConflict then writeError 409 ''resource version conflict''
                 else writeError 500 ''put failed'', w')
            | (Inr res, w') \<Rightarrow> (respond okStatus (ResourceBody res), w')))"

definition handler_put ::
    "time \<Rightarrow> ('w, 's, 'st) handler \<Rightarrow> ('s, 'st) http_request \<Rightarrow> 'w \<Rightarrow> ('s, 'st) response \<times> 'w" where
  "handler_put now h0 r w =
     (let h = withContext (hr_ctx r) h0 in
      case hr_body r of
        None \<Rightarrow> (writeError 400 ''invalid body'', w)
      | Some res \<Rightarrow>
          if sp_privileged (h_spec h) (spec res) \<and>
             \<not> (case hr_identity r of None \<Rightarrow> False | Some i \<Rightarrow> HasRole i AdminRole)
          then (writeError 403 ''admin role required for privileged compute'', w)
          else
            let res = res\<lparr>metadata := (metadata res)\<lparr>md_uid := hr_uid r\<rparr>\<rparr> in
            (case reg_get (h_reg h) w (hr_uid r) of
               Inr existing \<Rightarrow>
                 if rv_of res \<noteq> [] \<and> rv_of res \<noteq> rv_of existing
                 then (writeError 409 ''resource version conflict'', w)
                 else if md_projectId (metadata res) \<noteq> md_projectId (metadata existing)
                 then (writeError 400 ''projectId is immutable once set'', w)
                 else if \<not> may h (hr_identity r) (metadata existing) PermissionWrite w
                 then (writeError 403 ''forbidden'', w)
                 else put_finish h (hr_identity r) 200
                   (res\<lparr>metadata := carry_over (metadata existing) (metadata res), status := status existing\<rparr>) w
             | Inl e \<Rightarrow>
                 if errors_is e ErrNotFound then
                   (case create_owner h (hr_identity r) (metadata res) w of
                      None \<Rightarrow> (writeError 403 ''forbidden'', w)
                    | Some owner \<Rightarrow> put_finish h (hr_identity r) 201
                        (res\<lparr>metadata := fresh_meta now owner (metadata res), status := h_zero h\<rparr>) w)
                 else (writeError 500 ''get failed'', w)))"

definition handler_delete ::
    "time \<Rightarrow> ('w, 's, 'st) handler \<Rightarrow> ('s, 'st) http_request \<Rightarrow> 'w \<Rightarrow> ('s, 'st) response \<times> 'w" where
  "handler_delete now h0 r w =
     (let h = withContext (hr_ctx r) h0 in
      case reg_get (h_reg h) w (hr_uid r) of
        Inl e \<Rightarrow> (if errors_is e ErrNotFound then respond 204 NoBody else writeError 500 ''get failed'', w)
      | Inr existing \<Rightarrow>
          if \<not> may h (hr_identity r) (metadata existing) PermissionDelete w then (writeError 403 ''forbidden'', w)
          else if md_finalizers (metadata existing) = [] then
            (case reg_delete (h_reg h) w (hr_uid r) of
               (Some e, w') \<Rightarrow> (writeError 500 ''delete failed'', w')
             | (None, w') \<Rightarrow> (respond 204 NoBody, w'))
          else
            let existing = existing\<lparr>metadata := (metadata existing)\<lparr>md_deletionTimestamp := Some now\<rparr>\<rparr> in
            (case reg_put (h_reg h) w existing of
               (Inl e, w') \<Rightarrow> (writeError 500 ''put failed'', w')
             | (Inr res, w') \<Rightarrow> (respond 202 (ResourceBody res), w')))"

subsection \<open>What a write does to the store\<close>

lemma withContext_None [simp]: "withContext None h = h"
  by (simp add: withContext_def reg_WithContext_def WithContext_def)

lemma respond_simps [simp]:
  "rs_status (respond st b) = st" "rs_body (respond st b) = b" "rs_status (writeError st m) = st"
  by (simp_all add: respond_def writeError_def)

text \<open>The fields of a stored resource a client's update cannot change.\<close>

definition keeps_server_fields :: "('s, 'st) resource \<Rightarrow> ('s, 'st) resource \<Rightarrow> bool" where
  "keeps_server_fields old new = (
     md_uid (metadata new) = md_uid (metadata old) \<and>
     md_projectId (metadata new) = md_projectId (metadata old) \<and>
     md_ownerUid (metadata new) = md_ownerUid (metadata old) \<and>
     md_createdAt (metadata new) = md_createdAt (metadata old) \<and>
     md_finalizers (metadata new) = md_finalizers (metadata old) \<and>
     md_deletionTimestamp (metadata new) = md_deletionTimestamp (metadata old) \<and>
     md_generation (metadata new) = i64 (md_generation (metadata old) + 1) \<and>
     status new = status old)"

definition fresh_resource :: "time \<Rightarrow> 'st \<Rightarrow> ('s, 'st) resource \<Rightarrow> bool" where
  "fresh_resource now zero new = (
     md_createdAt (metadata new) = now \<and>
     md_generation (metadata new) = 1 \<and> md_finalizers (metadata new) = [] \<and>
     md_deletionTimestamp (metadata new) = None \<and> status new = zero)"

lemma set_rv_meta [simp]:
  "md_projectId (metadata (set_rv v r)) = md_projectId (metadata r)"
  "md_ownerUid (metadata (set_rv v r)) = md_ownerUid (metadata r)"
  "md_createdAt (metadata (set_rv v r)) = md_createdAt (metadata r)"
  "md_finalizers (metadata (set_rv v r)) = md_finalizers (metadata r)"
  "md_deletionTimestamp (metadata (set_rv v r)) = md_deletionTimestamp (metadata r)"
  "md_generation (metadata (set_rv v r)) = md_generation (metadata r)"
  by (simp_all add: set_rv_def)

text \<open>
  Who may create the resource \<open>b\<close> of a request, and whom the stored resource names as
  its owner. An admin-only kind takes an administrator. With an authorizer the caller is
  known, and a resource of a project takes write permission on that project without the
  owner's fast path. Either way the caller's subject is the owner. With neither, the
  client's own \<^verbatim>\<open>ownerUid\<close> stays.
\<close>

definition created_by ::
    "('w, 's, 'st) handler \<Rightarrow> ('s, 'st) http_request \<Rightarrow> 'w \<Rightarrow> ('s, 'st) resource \<Rightarrow> string \<Rightarrow> bool" where
  "created_by h r w b owner \<longleftrightarrow>
     (h_adminOnly h \<longrightarrow> (\<exists>i. hr_identity r = Some i \<and> HasRole i AdminRole \<and> owner = id_subject i)) \<and>
     (\<forall>az. \<not> h_adminOnly h \<and> h_az h = Some az \<longrightarrow>
        (\<exists>i. hr_identity r = Some i \<and> owner = id_subject i \<and>
          (md_projectId (metadata b) \<noteq> [] \<longrightarrow>
             fst (Allowed az (id_subject i) (HasRole i AdminRole) [] (md_projectId (metadata b)) PermissionWrite w)
               = Inr True))) \<and>
     (\<not> h_adminOnly h \<and> h_az h = None \<longrightarrow> owner = md_ownerUid (metadata b))"

text \<open>
  A successful create and a successful update of the resource at the request's
  uid, as relations between the view before and after.
\<close>

definition put_created ::
    "time \<Rightarrow> ('w, 's, 'st) handler \<Rightarrow> ('s, 'st) http_request \<Rightarrow> 'w \<Rightarrow> ('s, 'st) response \<Rightarrow>
      (string \<Rightarrow> ('s, 'st) resource option) \<Rightarrow> (string \<Rightarrow> ('s, 'st) resource option) \<Rightarrow> bool" where
  "put_created now h r w resp v v' = (\<exists>res. rs_status resp = 201 \<and> rs_body resp = ResourceBody res \<and>
     v' = v(hr_uid r \<mapsto> res) \<and> sp_validate (h_spec h) (spec res) = None \<and>
     authorizeReferences h (hr_identity r) (metadata (set_rv [] res)) (spec res) w = None \<and>
     fresh_resource now (h_zero h) res \<and>
     (\<exists>b. hr_body r = Some b \<and> spec res = sp_default (h_spec h) (spec b) \<and>
        md_projectId (metadata res) = md_projectId (metadata b) \<and> created_by h r w b (md_ownerUid (metadata res))))"

definition put_updated ::
    "('w, 's, 'st) handler \<Rightarrow> ('s, 'st) http_request \<Rightarrow> 'w \<Rightarrow> ('s, 'st) response \<Rightarrow> ('s, 'st) resource \<Rightarrow>
      (string \<Rightarrow> ('s, 'st) resource option) \<Rightarrow> (string \<Rightarrow> ('s, 'st) resource option) \<Rightarrow> bool" where
  "put_updated h r w resp old v v' = (\<exists>res. rs_status resp = 200 \<and> rs_body resp = ResourceBody res \<and>
     v' = v(hr_uid r \<mapsto> res) \<and> sp_validate (h_spec h) (spec res) = None \<and>
     authorizeReferences h (hr_identity r) (metadata (set_rv (rv_of old) res)) (spec res) w = None \<and>
     (\<exists>b. hr_body r = Some b \<and> spec res = sp_default (h_spec h) (spec b)) \<and>
     keeps_server_fields old res \<and> may h (hr_identity r) (metadata old) PermissionWrite w)"

context typed_registry
begin

lemma put_finish_refused:
  assumes "good w" "ok (uid_of res)" "h_reg h = R" "put_finish h ident st res w = (resp, w')" "st < 400"
    and "\<not> rs_status resp < 400"
  shows "good w' \<and> vw w' = vw w"
proof -
  let ?res = "res\<lparr>spec := sp_default (h_spec h) (spec res)\<rparr>"
  obtain r w1 where r: "reg_put R w ?res = (r, w1)" by fastforce
  with reg_put_cases [OF assms(1) _ r] assms(2) have c: "good w1" "isl r \<Longrightarrow> vw w1 = vw w"
    by (cases r; simp)+
  show ?thesis
    using assms r c by (cases r) (auto simp: put_finish_def Let_def split: if_splits option.splits)
qed

lemma put_finish_ok:
  assumes "good w" "ok (uid_of res)" "h_reg h = R" "put_finish h ident st res w = (resp, w')"
    and "rs_status resp < 400"
  obtains v where "good w'" "rs_status resp = st"
    "rs_body resp = ResourceBody (set_rv v (stamp R (res\<lparr>spec := sp_default (h_spec h) (spec res)\<rparr>)))"
    "vw w' = (vw w)(uid_of res \<mapsto> set_rv v (stamp R (res\<lparr>spec := sp_default (h_spec h) (spec res)\<rparr>)))"
    "sp_validate (h_spec h) (sp_default (h_spec h) (spec res)) = None"
    "authorizeReferences h ident (metadata res) (sp_default (h_spec h) (spec res)) w = None"
proof -
  let ?res = "res\<lparr>spec := sp_default (h_spec h) (spec res)\<rparr>"
  obtain r w1 where r: "reg_put R w ?res = (r, w1)" by fastforce
  have pre: "sp_validate (h_spec h) (sp_default (h_spec h) (spec res)) = None"
    "authorizeReferences h ident (metadata res) (sp_default (h_spec h) (spec res)) w = None"
    using assms(4,5) by (auto simp: put_finish_def Let_def split: if_splits option.splits)
  with assms(3-5) r obtain res' where res': "r = Inr res'" "w' = w1" "resp = respond st (ResourceBody res')"
    by (cases r) (auto simp: put_finish_def Let_def split: if_splits)
  from reg_put_cases [OF assms(1) _ r] assms(2) res' obtain v where
    "good w1" "vw w1 = (vw w)(uid_of res \<mapsto> res')" "res' = set_rv v (stamp R ?res)" by auto
  with pre res' show ?thesis by (intro that) auto
qed

text \<open>
  The three things a put can do: create for a caller who may create, update
  what the caller may write, or refuse and change nothing.
\<close>

lemma put_create:
  assumes "good w" "ok (hr_uid r)" "h_reg h = R" "hr_ctx r = None" "vw w (hr_uid r) = None"
    and "handler_put now h r w = (resp, w')" "rs_status resp < 400"
  shows "good w' \<and> put_created now h r w resp (vw w) (vw w')"
proof -
  from assms(6,7,4) obtain b where b: "hr_body r = Some b" by (cases "hr_body r") (auto simp: handler_put_def)
  define res where "res = b\<lparr>metadata := (metadata b)\<lparr>md_uid := hr_uid r\<rparr>\<rparr>"
  have get: "reg_get R w (hr_uid r) = Inl ErrNotFound" using get_view [OF assms(1,2)] assms(5) by simp
  with assms(3,4,6,7) b obtain owner where owner: "create_owner h (hr_identity r) (metadata res) w = Some owner"
    unfolding res_def by (auto simp: handler_put_def Let_def split: if_splits option.splits)
  let ?new = "res\<lparr>metadata := fresh_meta now owner (metadata res), status := h_zero h\<rparr>"
  have u: "uid_of ?new = hr_uid r" by (simp add: fresh_meta_def res_def)
  have "put_finish h (hr_identity r) 201 ?new w = (resp, w')"
    using assms(3,4,6,7) b get owner unfolding res_def
    by (auto simp: handler_put_def Let_def split: if_splits)
  from put_finish_ok [OF assms(1) _ assms(3) this assms(7)] assms(2) u obtain v where
    c: "good w'" "rs_status resp = 201"
      "rs_body resp = ResourceBody (set_rv v (stamp R (?new\<lparr>spec := sp_default (h_spec h) (spec ?new)\<rparr>)))"
      "vw w' = (vw w)(hr_uid r \<mapsto> set_rv v (stamp R (?new\<lparr>spec := sp_default (h_spec h) (spec ?new)\<rparr>)))"
      "sp_validate (h_spec h) (sp_default (h_spec h) (spec ?new)) = None"
      "authorizeReferences h (hr_identity r) (metadata ?new) (sp_default (h_spec h) (spec ?new)) w = None"
    by metis
  moreover have "created_by h r w b owner"
    using owner by (auto simp: created_by_def create_owner_def res_def split: if_splits option.splits)
  ultimately show ?thesis
    using b unfolding put_created_def
    by (intro conjI exI [of _ "set_rv v (stamp R (?new\<lparr>spec := sp_default (h_spec h) (spec ?new)\<rparr>))"]
        exI [of _ b])
      (simp_all add: fresh_resource_def fresh_meta_def set_rv_def res_def)
qed

lemma put_update:
  assumes "good w" "ok (hr_uid r)" "h_reg h = R" "hr_ctx r = None" "vw w (hr_uid r) = Some old"
    and "handler_put now h r w = (resp, w')" "rs_status resp < 400"
  shows "good w' \<and> put_updated h r w resp old (vw w) (vw w')"
proof -
  from assms(6,7,4) obtain b where b: "hr_body r = Some b" by (cases "hr_body r") (auto simp: handler_put_def)
  define res where "res = b\<lparr>metadata := (metadata b)\<lparr>md_uid := hr_uid r\<rparr>\<rparr>"
  have get: "reg_get R w (hr_uid r) = Inr old" using get_view [OF assms(1,2)] assms(5) by simp
  have checks: "may h (hr_identity r) (metadata old) PermissionWrite w"
      "md_projectId (metadata res) = md_projectId (metadata old)"
    using assms(3,4,6,7) b get unfolding res_def
    by (auto simp: handler_put_def Let_def split: if_splits)
  let ?new = "res\<lparr>metadata := carry_over (metadata old) (metadata res), status := status old\<rparr>"
  have u: "uid_of ?new = hr_uid r" by (simp add: carry_over_def res_def)
  have "put_finish h (hr_identity r) 200 ?new w = (resp, w')"
    using assms(3,4,6,7) b get checks unfolding res_def
    by (auto simp: handler_put_def Let_def split: if_splits)
  from put_finish_ok [OF assms(1) _ assms(3) this assms(7)] assms(2) u obtain v where
    c: "good w'" "rs_status resp = 200"
      "rs_body resp = ResourceBody (set_rv v (stamp R (?new\<lparr>spec := sp_default (h_spec h) (spec ?new)\<rparr>)))"
      "vw w' = (vw w)(hr_uid r \<mapsto> set_rv v (stamp R (?new\<lparr>spec := sp_default (h_spec h) (spec ?new)\<rparr>)))"
      "sp_validate (h_spec h) (sp_default (h_spec h) (spec ?new)) = None"
      "authorizeReferences h (hr_identity r) (metadata ?new) (sp_default (h_spec h) (spec ?new)) w = None"
    by metis
  let ?fin = "set_rv v (stamp R (?new\<lparr>spec := sp_default (h_spec h) (spec ?new)\<rparr>))"
  have "metadata (set_rv (rv_of old) ?fin) = metadata ?new"
    by (rule object_meta.equality) (simp_all add: set_rv_def carry_over_def)
  then have "authorizeReferences h (hr_identity r) (metadata (set_rv (rv_of old) ?fin)) (spec ?fin) w = None"
    using c(6) by simp
  moreover have "uid_of old = hr_uid r" using vw_uid [OF assms(1,5)] by simp
  then have "keeps_server_fields old ?fin"
    using checks u by (simp add: keeps_server_fields_def carry_over_def)
  ultimately show ?thesis
    using c checks b unfolding put_updated_def by (intro conjI exI [of _ ?fin] exI [of _ b]) (simp_all add: res_def)
qed

lemma put_refused:
  assumes "good w" "ok (hr_uid r)" "h_reg h = R" "hr_ctx r = None"
    and "handler_put now h r w = (resp, w')" "\<not> rs_status resp < 400"
  shows "good w' \<and> vw w' = vw w"
proof -
  have fin: "good w' \<and> vw w' = vw w"
    if "put_finish h (hr_identity r) st res w = (resp, w')" "st < 400" "uid_of res = hr_uid r" for st res
    using put_finish_refused [OF assms(1) _ assms(3) that(1,2) assms(6)] assms(2) that(3) by simp
  have "(\<exists>st res. put_finish h (hr_identity r) st res w = (resp, w') \<and> st < 400 \<and> uid_of res = hr_uid r) \<or> w' = w"
    using assms(4,5)
    by (auto simp: handler_put_def Let_def fresh_meta_def carry_over_def
        split: option.splits if_splits sum.splits intro!: exI)
  with fin assms(1) show ?thesis by blast
qed

lemma delete_cases:
  assumes "good w" "ok (hr_uid r)" "h_reg h = R" "hr_ctx r = None"
    and "handler_delete now h r w = (resp, w')"
  shows "good w' \<and> (case vw w (hr_uid r) of
      None \<Rightarrow> resp = respond 204 NoBody \<and> vw w' = vw w
    | Some old \<Rightarrow>
        if \<not> may h (hr_identity r) (metadata old) PermissionDelete w
        then rs_status resp = 403 \<and> vw w' = vw w
        else if md_finalizers (metadata old) = [] then resp = respond 204 NoBody \<and> vw w' = (vw w)(hr_uid r := None)
        else (if rs_status resp = 202
          then (\<exists>v. vw w' = (vw w)(hr_uid r \<mapsto> set_rv v (stamp R
             (old\<lparr>metadata := (metadata old)\<lparr>md_deletionTimestamp := Some now\<rparr>\<rparr>))))
          else rs_status resp = 500 \<and> vw w' = vw w))"
proof (cases "vw w (hr_uid r)")
  case None
  with assms show ?thesis by (auto simp: handler_delete_def get_view simp del: vw_None)
next
  case (Some old)
  have u: "uid_of old = hr_uid r" using vw_uid [OF assms(1) Some] by simp
  let ?new = "old\<lparr>metadata := (metadata old)\<lparr>md_deletionTimestamp := Some now\<rparr>\<rparr>"
  obtain q w1 where q: "reg_put R w ?new = (q, w1)" by fastforce
  note q' = reg_put_cases [OF assms(1) _ q]
  consider "\<not> may h (hr_identity r) (metadata old) PermissionDelete w"
    | "may h (hr_identity r) (metadata old) PermissionDelete w" "md_finalizers (metadata old) = []"
    | "may h (hr_identity r) (metadata old) PermissionDelete w" "md_finalizers (metadata old) \<noteq> []" by blast
  then show ?thesis
  proof cases
    case 1
    with assms Some show ?thesis by (auto simp: handler_delete_def get_view)
  next
    case 2
    with assms Some delete_view [of w "hr_uid r"] show ?thesis
      by (auto simp: handler_delete_def get_view)
  next
    case 3
    with assms Some q q' u show ?thesis
      by (cases q) (auto simp: handler_delete_def get_view)
  qed
qed

text \<open>A put that passes every check is applied.\<close>

lemma put_finish_progress:
  assumes "good w" "ok (uid_of res)" "uid_of res \<noteq> []" "h_reg h = R"
    and "res\<lparr>spec := sp_default (h_spec h) (spec res)\<rparr> = res'" "sp_validate (h_spec h) (spec res') = None"
    and "authorizeReferences h ident (metadata res) (spec res') w = None"
    and "marshal (reg_codec R) (set_rv [] (stamp R res')) = Some d"
    and "current_rv (vw w (uid_of res)) = rv_of res"
  shows "\<exists>w'. put_finish h ident st res w = (respond st (ResourceBody (set_rv (revision d) (stamp R res'))), w') \<and>
    good w' \<and> vw w' = (vw w)(uid_of res \<mapsto> set_rv (revision d) (stamp R res'))"
proof -
  have m: "metadata res' = metadata res" using assms(5) by auto
  from put_view_upd [of w res' d] m assms(1,2,3,8,9) obtain w' where
    "reg_put R w res' = (Inr (set_rv (revision d) (stamp R res')), w')" "good w'"
    "vw w' = (vw w)(uid_of res' \<mapsto> set_rv (revision d) (stamp R res'))" by auto
  with m assms(4-7) show ?thesis by (simp add: put_finish_def)
qed

end

subsection \<open>What a list shows\<close>

lemma authorize_request:
  assumes "cache_ok (\<lambda>c. c = w) (registry_parents P w) (registry_parents F w) (reg_list B w) q"
    and "authorize adm (Some (ForRequest (registry_authorizer P F B))) ident own prj perm q = (ok, q')"
  shows "ok = fst (authorize adm (Some (registry_authorizer P F B)) ident own prj perm w) \<and>
    cache_ok (\<lambda>c. c = w) (registry_parents P w) (registry_parents F w) (reg_list B w) q'"
proof (cases "adm \<or> ident = None")
  case True
  with assms show ?thesis by (auto simp: authorize_def split: option.splits)
next
  case False
  then obtain i where i: "ident = Some i" "\<not> adm" by auto
  obtain r q1 where r: "Allowed (ForRequest (registry_authorizer P F B)) (id_subject i) (HasRole i AdminRole) own prj perm q = (r, q1)"
    by fastforce
  from reg_source.request_Allowed [OF assms(1)] r
  have "r = fst (Allowed (registry_authorizer P F B) (id_subject i) (HasRole i AdminRole) own prj perm w)"
    "cache_ok (\<lambda>c. c = w) (registry_parents P w) (registry_parents F w) (reg_list B w) q1"
    using reg_source.Allowed_pure [of w w P F B] by (auto simp: registry_authorizer_def)
  then show ?thesis
    using assms(2) r i
    by (cases "Allowed (registry_authorizer P F B) (id_subject i) (HasRole i AdminRole) own prj perm w"; cases r)
      (auto simp: authorize_def)
qed

lemma visible_loop_request:
  "cache_ok (\<lambda>c. c = w) (registry_parents P w) (registry_parents F w) (reg_list B w) q \<Longrightarrow>
   fst (visible_loop adm (Some (ForRequest (registry_authorizer P F B))) ident items q) =
   filter (\<lambda>it. fst (authorize adm (Some (registry_authorizer P F B)) ident
     (md_ownerUid (metadata it)) (md_projectId (metadata it)) PermissionRead w)) items"
proof (induction items arbitrary: q)
  case Nil
  then show ?case by simp
next
  case (Cons it items)
  obtain ok q1 where q1: "authorize adm (Some (ForRequest (registry_authorizer P F B))) ident
      (md_ownerUid (metadata it)) (md_projectId (metadata it)) PermissionRead q = (ok, q1)" by fastforce
  from authorize_request [OF Cons.prems q1] Cons.IH [of q1] q1 show ?case
    by (auto split: prod.splits)
qed

lemma visible_loop_admin:
  "fst (visible_loop True None ident items q) =
   filter (\<lambda>it. fst (authorize True None ident
     (md_ownerUid (metadata it)) (md_projectId (metadata it)) PermissionRead w)) items"
  by (induction items arbitrary: q) (auto simp: authorize_def case_prod_beta split: option.splits)

text \<open>
  C17. A list shows exactly what the caller may read: the page a client gets is
  a page of the stored resources on which the authorization rule grants it
  read, whether the decision comes from the rule or from the request's cache.
\<close>

theorem list_shows_readable:
  fixes h :: "('w, 's, 'st) handler"
  shows "handler_list (h\<lparr>h_az := map_option (\<lambda>(P, F, B). registry_authorizer P F B) az\<rparr>) r w =
   (case pageParameters (hr_query r) of
      Inl e \<Rightarrow> writeError 400 ''bad page parameters''
    | Inr (sz, after) \<Rightarrow> (case reg_list (reg_WithContext (hr_ctx r) (h_reg h)) w of
        Inl e \<Rightarrow> writeError 500 ''list failed''
      | Inr items \<Rightarrow> respond 200 (ListBody (page_of sz after (h_kind h)
          (filter (\<lambda>it. may (h\<lparr>h_az := map_option (\<lambda>(P, F, B). registry_authorizer P F B) az\<rparr>)
             (hr_identity r) (metadata it) PermissionRead w) items)))))"
proof -
  have vis: "fst (visible_loop (h_adminOnly h) (map_option ForRequest (map_option (\<lambda>(P, F, B). registry_authorizer P F B) az))
      (hr_identity r) items (new_request w)) =
    filter (\<lambda>it. may (h\<lparr>h_az := map_option (\<lambda>(P, F, B). registry_authorizer P F B) az\<rparr>)
      (hr_identity r) (metadata it) PermissionRead w) items" if "az \<noteq> None \<or> h_adminOnly h"
    for items :: "('s, 'st) resource list"
    using that visible_loop_request [OF reg_source.new_request_ok [OF refl]]
      visible_loop_admin [of "hr_identity r" items "new_request w" w]
    by (cases az) (auto simp: may_def)
  have all: "filter (\<lambda>it. may (h\<lparr>h_az := map_option (\<lambda>(P, F, B). registry_authorizer P F B) az\<rparr>)
      (hr_identity r) (metadata it) PermissionRead w) items = items" if "az = None" "\<not> h_adminOnly h"
    for items :: "('s, 'st) resource list"
    using that by (simp add: may_def authorize_def)
  show ?thesis
    using vis all
    by (cases az; cases "h_adminOnly h")
      (auto simp: handler_list_def withContext_def writeList_def Let_def split: sum.split prod.split)
qed

subsection \<open>References\<close>

text \<open>
  The fields of the specs in \<^verbatim>\<open>internal/domain/resource\<close> that hold the uid of
  another resource, or a list of uids, by the kind they name. Three places of the specs that
  name a resource are not among them: the \<^verbatim>\<open>publicIpId\<close> of a load balancer, the
  \<^verbatim>\<open>gateway\<close> of a route, which may be the uid of an internet gateway, and the
  \<^verbatim>\<open>resource\<close> of an IAM binding.
\<close>

definition names_kind :: "string \<Rightarrow> string \<Rightarrow> bool" where
  "names_kind f k \<longleftrightarrow> (f, k) \<in> {
     (''vpcId'', ''vpc''), (''vpc1Id'', ''vpc''), (''vpc2Id'', ''vpc''), (''vpcIds'', ''vpc''),
     (''subnetId'', ''subnet''), (''securityGroupId'', ''security_group''),
     (''computeId'', ''compute''), (''functionId'', ''function''),
     (''nodePoolId'', ''node_pool''), (''targetNodePoolId'', ''node_pool''),
     (''diskId'', ''disk''), (''kmsKeyId'', ''kms_key''), (''keyringId'', ''kms_keyring''),
     (''lbId'', ''load_balancer''), (''loadBalancerId'', ''load_balancer''),
     (''targetGroupId'', ''lb_target_group''), (''defaultTargetGroupId'', ''lb_target_group''),
     (''policyId'', ''waf_policy''), (''zoneId'', ''dns_zone''),
     (''sslCertId'', ''ssl_cert''), (''certificateIds'', ''ssl_cert''),
     (''caId'', ''ssl_ca''), (''backendCaId'', ''ssl_ca''), (''secretId'', ''secret'')}"

text \<open>The table of the handler has exactly these fields.\<close>

lemma reference_fields_complete: "map_of reference_fields f = Some k \<longleftrightarrow> names_kind f k"
proof -
  have "distinct (map fst reference_fields)" by code_simp
  then have "map_of reference_fields f = Some k \<longleftrightarrow> (f, k) \<in> set reference_fields" by simp
  also have "set reference_fields = {p. names_kind (fst p) (snd p)}"
    unfolding names_kind_def prod.collapse Collect_mem_eq by code_simp
  finally show ?thesis by simp
qed

text \<open>
  \<open>refers v k u\<close>: the JSON form of a spec names the resource \<open>u\<close> of kind \<open>k\<close>, in a
  field of the list above or in a pair of a kind and a uid, at any depth.
\<close>

inductive refers :: "json \<Rightarrow> string \<Rightarrow> string \<Rightarrow> bool" where
  ref_field: "(f, JString u) \<in> set fs \<Longrightarrow> names_kind f k \<Longrightarrow> refers (JObject fs) k u"
| ref_fields: "(f, JArray vs) \<in> set fs \<Longrightarrow> names_kind f k \<Longrightarrow> JString u \<in> set vs \<Longrightarrow>
    refers (JObject fs) k u"
| ref_pair: "(kf, uf) \<in> {(''targetType'', ''targetId''), (''parentKind'', ''parentId'')} \<Longrightarrow>
    map_of fs kf = Some (JString k) \<Longrightarrow> map_of fs uf = Some (JString u) \<Longrightarrow> u \<noteq> [] \<Longrightarrow> refers (JObject fs) k u"
| ref_inside: "(f, child) \<in> set fs \<Longrightarrow> \<forall>k. \<not> names_kind f k \<Longrightarrow> refers child k u \<Longrightarrow>
    refers (JObject fs) k u"
| ref_item: "v \<in> set vs \<Longrightarrow> refers v k u \<Longrightarrow> refers (JArray vs) k u"

lemma first_error_None [simp]: "first_error es = None \<longleftrightarrow> (\<forall>e \<in> set es. e = None)"
  by (induction es rule: first_error.induct) auto

lemma walk_fields_None:
  "walk_fields check fs = None \<Longrightarrow> (f, child) \<in> set fs \<Longrightarrow>
   (case map_of reference_fields f of Some k \<Rightarrow> check_field check k child | None \<Rightarrow> walk check child) = None"
  by (induction fs) (auto split: option.splits)

lemma walk_items_None: "walk_items check vs = None \<Longrightarrow> v \<in> set vs \<Longrightarrow> walk check v = None"
  by (induction vs) (auto split: option.splits)

lemma walk_object_None:
  "walk check (JObject fs) = None \<Longrightarrow>
   walk_fields check fs = None \<and> typed_pair check fs (''targetType'', ''targetId'') = None \<and>
   typed_pair check fs (''parentKind'', ''parentId'') = None"
  by (auto split: option.splits)

lemma walk_checks_refs: "refers v k u \<Longrightarrow> walk check v = None \<Longrightarrow> check k u = None"
proof (induction rule: refers.induct)
  case (ref_field f u fs k)
  from walk_fields_None [OF _ ref_field(1), of check] walk_object_None [OF ref_field(3)] ref_field(2)
  show ?case by (simp flip: reference_fields_complete)
next
  case (ref_fields f vs fs k u)
  from walk_fields_None [OF _ ref_fields(1), of check] walk_object_None [OF ref_fields(4)] ref_fields(2,3)
  show ?case by (force simp flip: reference_fields_complete)
next
  case (ref_pair kf uf fs k u)
  with walk_object_None [OF ref_pair(5)] show ?case
    by (auto simp: typed_pair_def json_string_def split: if_splits)
next
  case (ref_inside f child fs k u)
  from walk_fields_None [OF _ ref_inside(1), of check] walk_object_None [OF ref_inside(5)] ref_inside(2,4)
  show ?case by (auto simp flip: reference_fields_complete)
next
  case (ref_item v vs k u)
  then show ?case by (auto dest: walk_items_None)
qed

text \<open>What an accepted reference of an ordinary caller guarantees.\<close>

definition reference_in_scope ::
    "('w, 's, 'st) registry \<Rightarrow> 'w authorizer \<Rightarrow> identity \<Rightarrow> object_meta \<Rightarrow> 'w \<Rightarrow> string \<Rightarrow> string \<Rightarrow> bool" where
  "reference_in_scope reg az i m w k u = (\<exists>target. LookupMetadata reg w k u = Inr target \<and>
     (k = KindNodePool \<or> (k \<noteq> KindSSLCA \<and> k \<noteq> KindSSLCert \<and> k \<noteq> KindSecret \<and>
        md_projectId target = md_projectId m \<and>
        fst (Allowed az (id_subject i) False (md_ownerUid target) (md_projectId target) PermissionWrite w) = Inr True)))"

lemma authorized_reference:
  assumes "authorizeReferences h (Some i) m sp w = None" "h_az h = Some az" "sp_json (h_spec h) sp = Some v"
    and "\<not> HasRole i AdminRole" "refers v k u" "u \<noteq> []"
  shows "reference_in_scope (h_reg h) az i m w k u"
proof -
  have "check_reference (h_reg h) az i m w k u = None"
    using walk_checks_refs [OF assms(5)] assms(1-3) by (simp add: authorizeReferences_def)
  with assms(4,6) show ?thesis
    by (auto simp: check_reference_def reference_in_scope_def split: sum.splits if_splits)
qed

subsection \<open>Properties of the write path over the file store\<close>

text \<open>
  C12. An update keeps what the server owns: when a put to an existing resource
  succeeds, the caller may write that resource, and the stored result has the
  old owner, project, creation time, finalizers, deletion mark and status, the
  next generation, a spec that validates and passed the reference check; no
  other resource of the kind changes.
\<close>

theorem put_update_keeps_server_fields:
  assumes "lawful_codec c" "plain k" "file_good k c w" "plain (hr_uid r)" "h_reg h = file_registry k c"
    and "hr_ctx r = None" "file_view k c w (hr_uid r) = Some old"
    and "handler_put now h r w = (resp, w')" "rs_status resp < 400"
  shows "put_updated h r w resp old (file_view k c w) (file_view k c w')"
  using typed_registry.put_update [OF file_registry_laws [OF assms(1,2)], of w r h old now resp w'] assms
  by (simp add: file_good_def)

text \<open>
  C13. A create is authorized and starts fresh, on a file store without system-call
  faults: when a put to an absent uid succeeds, then on an admin-only kind the caller is
  an administrator, and with an authorizer the caller is known and has write permission
  on the project of the resource, if it has one. In both cases the stored resource names
  the caller as its owner, whatever owner the client sent. Without an authorizer, on a
  kind that is not admin-only, the owner the client sent is stored. The stored resource
  has the client's spec with its defaults filled in, the client's project, the first
  generation, the current time, no finalizers, no deletion mark and the zero status, and
  no other resource of the kind changes.
\<close>

theorem put_create_fresh:
  assumes "lawful_codec c" "plain k" "file_good k c w" "plain (hr_uid r)" "h_reg h = file_registry k c"
    and "hr_ctx r = None" "file_view k c w (hr_uid r) = None"
    and "handler_put now h r w = (resp, w')" "rs_status resp < 400"
  shows "put_created now h r w resp (file_view k c w) (file_view k c w')"
  using typed_registry.put_create [OF file_registry_laws [OF assms(1,2)], of w r h now resp w'] assms
  by (simp add: file_good_def)

text \<open>
  C14. A refused put changes nothing, on a file store without system-call faults: on
  every error response, whichever check failed, all resources of the kind read as before.
  The restriction is needed. A put whose directory sync fails answers 500 with the new
  value in place, see the witness of \<open>Store.file_put_atomic\<close>.
\<close>

theorem put_refused_unchanged:
  assumes "lawful_codec c" "plain k" "file_good k c w" "plain (hr_uid r)" "h_reg h = file_registry k c"
    and "hr_ctx r = None" "handler_put now h r w = (resp, w')" "\<not> rs_status resp < 400"
  shows "file_view k c w' = file_view k c w"
  using typed_registry.put_refused [OF file_registry_laws [OF assms(1,2)], of w r h now resp w'] assms
  by (simp add: file_good_def)

text \<open>
  C16. A delete respects ownership and finalizers: without permission nothing
  changes; a resource without finalizers is removed; one with finalizers stays,
  unchanged but for its deletion mark.
\<close>

theorem delete_respects_finalizers:
  assumes "lawful_codec c" "plain k" "file_good k c w" "plain (hr_uid r)" "h_reg h = file_registry k c"
    and "hr_ctx r = None" "file_view k c w (hr_uid r) = Some old" "handler_delete now h r w = (resp, w')"
  shows "if \<not> may h (hr_identity r) (metadata old) PermissionDelete w
    then rs_status resp = 403 \<and> file_view k c w' = file_view k c w
    else if md_finalizers (metadata old) = []
    then resp = respond 204 NoBody \<and> file_view k c w' = (file_view k c w)(hr_uid r := None)
    else if rs_status resp = 202
    then (\<exists>v. file_view k c w' = (file_view k c w)(hr_uid r \<mapsto> set_rv v (stamp (file_registry k c)
       (old\<lparr>metadata := (metadata old)\<lparr>md_deletionTimestamp := Some now\<rparr>\<rparr>))))
    else rs_status resp = 500 \<and> file_view k c w' = file_view k c w"
  using typed_registry.delete_cases [OF file_registry_laws [OF assms(1,2)], of w r h now resp w',
      unfolded new_registry_simps] assms
  by (simp add: file_good_def)


text \<open>
  Whatever resource a load balancer names as its public address, or a route as its
  gateway, the reference check neither looks it up nor asks the authorizer.
\<close>

theorem unchecked_references:
  "walk check (JObject [(''publicIpId'', JString u)]) = None"
  "walk check (JObject [(''gateway'', JString u)]) = None"
  by (simp_all add: typed_pair_def json_string_def reference_fields_def)

subsection \<open>An example\<close>

definition subnet_spec_ops :: "json spec_ops" where
  "subnet_spec_ops = \<lparr>sp_privileged = (\<lambda>_. False), sp_default = (\<lambda>x. x), sp_validate = (\<lambda>_. None), sp_json = Some\<rparr>"

definition example_subnet :: "int \<Rightarrow> string \<Rightarrow> (json, unit) resource" where
  "example_subnet gen owner = \<lparr>apiVersion = APIVersion, kind = ''subnet'',
     metadata = \<lparr>md_uid = ''s1'', md_name = [], md_organizationId = [], md_projectId = [],
       md_ownerUid = owner, md_labels = [], md_annotations = [], md_ownerRefs = [],
       md_finalizers = [], md_generation = gen, md_resourceVersion = [], md_deletionTimestamp = None,
       md_createdAt = 0\<rparr>, spec = JObject [(''vpcId'', JString ''v1'')], status = ()\<rparr>"

definition example_codec :: "(json, unit) codec" where
  "example_codec = table_codec [example_subnet 1 ''alice'', example_subnet 2 ''alice'']"

definition example_az :: "fsys authorizer" where
  "example_az = registry_authorizer (file_registry KindProject (table_codec []))
     (file_registry KindFolder (table_codec [])) (file_registry KindIAMBinding (table_codec []))"

definition example_handler :: "(fsys, json, unit) handler" where
  "example_handler = \<lparr>h_reg = file_registry ''subnet'' example_codec, h_kind = ''subnet'', h_az = Some example_az,
     h_adminOnly = False, h_spec = subnet_spec_ops, h_zero = ()\<rparr>"

definition example_request :: "string \<Rightarrow> (json, unit) http_request" where
  "example_request who = \<lparr>hr_identity = Some \<lparr>id_subject = who, id_roles = []\<rparr>, hr_ctx = None, hr_uid = ''s1'',
     hr_query = [], hr_body = Some (example_subnet 99 ''mallory'')\<rparr>"

definition example_world :: fsys where
  "example_world = [([''vpc''], Dir), ([''vpc'', ''v1''], File [0])]"

definition example_world2 :: fsys where
  "example_world2 = [([''vpc''], Dir), ([''vpc'', ''v1''], File [0]), ([''subnet''], Dir), ([''subnet'', ''s1''], File [0])]"

lemma plain_subnet [simp]: "plain ''subnet''" "plain ''s1''"
  by code_simp+

lemma lawful_example [simp]: "lawful_codec example_codec"
  by (simp add: example_codec_def lawful_table_codec)

lemma example_world_good [simp]: "file_good ''subnet'' example_codec example_world"
proof -
  have "wf_fs example_world" by code_simp
  then show ?thesis by (simp add: file_good_def typed_kind_def file_abs_def example_world_def)
qed

lemma example_simps [simp]:
  "h_reg example_handler = file_registry ''subnet'' example_codec"
  "hr_ctx (example_request who) = None" "hr_uid (example_request who) = ''s1''"
  by (simp_all add: example_handler_def example_request_def)

lemma example_world_view [simp]: "file_view ''subnet'' example_codec example_world u = None"
  by (simp add: view_def file_abs_def example_world_def)

lemma example_references:
  assumes "file_get no_faults w (store_key ''vpc'' ''v1'') = Inr [0]" "md_projectId m = []"
  shows "authorizeReferences example_handler (Some \<lparr>id_subject = ''alice'', id_roles = []\<rparr>) m
     (JObject [(''vpcId'', JString ''v1'')]) w = None"
proof -
  have l: "LookupMetadata (file_registry ''subnet'' example_codec) w ''vpc'' ''v1'' =
      Inr (metadata (example_subnet 1 ''alice''))"
    using assms(1)
    by (simp add: LookupMetadata_def invalid_reference_uid_def FileStore_def example_codec_def table_codec_def)
  have "check_reference (file_registry ''subnet'' example_codec) example_az
      \<lparr>id_subject = ''alice'', id_roles = []\<rparr> m w ''vpc'' ''v1'' = None"
    using assms(2) unfolding check_reference_def l
    by (simp add: HasRole_def KindNodePool_def KindSSLCA_def KindSSLCert_def KindSecret_def
        Allowed_privileged privileged_def example_subnet_def)
  then show ?thesis
    by (simp add: authorizeReferences_def example_handler_def subnet_spec_ops_def typed_pair_def json_string_def
        reference_fields_def KindVPC_def)
qed

lemma example_lookups:
  "file_get no_faults example_world (store_key ''vpc'' ''v1'') = Inr [0]"
  "file_get no_faults example_world2 (store_key ''vpc'' ''v1'') = Inr [0]"
  by code_simp+

lemma example_marshal [simp]:
  "marshal example_codec (example_subnet 1 ''alice'') = Some [0]"
  "marshal example_codec (example_subnet 2 ''alice'') = Some [0, 0]"
  by (simp_all add: example_codec_def table_codec_def example_subnet_def)

abbreviation example_created :: "(json, unit) resource" where
  "example_created \<equiv> set_rv (revision [0]) (example_subnet 1 ''alice'')"

lemma example_stamped:
  "set_rv [] (stamp (file_registry ''subnet'' c) (example_subnet n own)) = example_subnet n own"
  "stamp (file_registry ''subnet'' c) (example_subnet n own) = example_subnet n own"
  by (simp_all add: example_subnet_def set_rv_def stamp_def)

lemma example_finish:
  assumes "file_good ''subnet'' example_codec w" "md_uid (metadata res) = ''s1''" "md_projectId (metadata res) = []"
    and "set_rv [] (stamp (file_registry ''subnet'' example_codec) res) = example_subnet n ''alice''"
    and "marshal example_codec (example_subnet n ''alice'') = Some d"
    and "spec res = JObject [(''vpcId'', JString ''v1'')]"
    and "current_rv (file_view ''subnet'' example_codec w ''s1'') = rv_of res"
    and "authorizeReferences example_handler ident (metadata res) (spec res) w = None"
  shows "\<exists>w'. put_finish example_handler ident st res w =
      (respond st (ResourceBody (set_rv (revision d) (example_subnet n ''alice''))), w') \<and>
    file_good ''subnet'' example_codec w' \<and>
    file_view ''subnet'' example_codec w' ''s1'' = Some (set_rv (revision d) (example_subnet n ''alice''))"
proof -
  have "set_rv (revision d) (stamp (file_registry ''subnet'' example_codec) res) =
      set_rv (revision d) (example_subnet n ''alice'')"
    unfolding assms(4) [symmetric] by simp
  with typed_registry.put_finish_progress [OF file_registry_laws [OF lawful_example plain_subnet(1)],
      of w res example_handler res ident d st] assms
  show ?thesis by (auto simp: file_good_def example_handler_def subnet_spec_ops_def)
qed

lemma example_create:
  "\<exists>w'. handler_put 0 example_handler (example_request ''alice'') example_world =
      (respond 201 (ResourceBody example_created), w') \<and>
    file_good ''subnet'' example_codec w' \<and> file_view ''subnet'' example_codec w' ''s1'' = Some example_created"
proof -
  let ?new = "(example_subnet 99 ''mallory'')\<lparr>metadata := fresh_meta 0 ''alice''
      ((metadata (example_subnet 99 ''mallory''))\<lparr>md_uid := ''s1''\<rparr>), status := ()\<rparr>"
  have get: "reg_get (file_registry ''subnet'' example_codec) example_world ''s1'' = Inl ErrNotFound"
    using typed_registry.get_view [OF file_registry_laws [OF lawful_example plain_subnet(1)], of example_world "''s1''"]
      example_world_good by (simp add: file_good_def)
  have "\<exists>w'. put_finish example_handler (Some \<lparr>id_subject = ''alice'', id_roles = []\<rparr>) 201 ?new example_world =
      (respond 201 (ResourceBody example_created), w') \<and>
    file_good ''subnet'' example_codec w' \<and> file_view ''subnet'' example_codec w' ''s1'' = Some example_created"
    by (rule example_finish) (simp_all add: example_subnet_def fresh_meta_def set_rv_def stamp_def current_rv_def
        example_references [OF example_lookups(1), unfolded example_handler_def] example_marshal [unfolded example_subnet_def] example_handler_def)
  then show ?thesis
    using get by (simp add: handler_put_def Let_def example_request_def example_handler_def subnet_spec_ops_def
        create_owner_def example_subnet_def)
qed

lemma example_world2_view:
  "file_good ''subnet'' example_codec example_world2"
  "file_view ''subnet'' example_codec example_world2 ''s1'' = Some example_created"
proof -
  have "wf_fs example_world2" by code_simp
  moreover have "file_abs example_world2 (''subnet'', u) = (if u = ''s1'' then Some [0] else None)" for u
    by (simp add: file_abs_def example_world2_def)
  moreover have "unmarshal example_codec [0] = Some (example_subnet 1 ''alice'')"
    by (simp add: example_codec_def table_codec_def)
  moreover have "uid_of (example_subnet 1 ''alice'') = ''s1''" "rv_of (example_subnet 1 ''alice'') = []"
    by (simp_all add: example_subnet_def)
  ultimately show "file_good ''subnet'' example_codec example_world2"
    "file_view ''subnet'' example_codec example_world2 ''s1'' = Some example_created"
    by (auto simp: file_good_def typed_kind_def view_def decode_def intro: exI [of _ "example_subnet 1 ''alice''"])
qed

lemma example_may: "md_ownerUid m = ''alice'' \<Longrightarrow> may example_handler (Some \<lparr>id_subject = ''alice'', id_roles = []\<rparr>) m perm w"
  by (simp add: may_def authorize_def example_handler_def Allowed_privileged privileged_def)

lemma example_get: "reg_get (file_registry ''subnet'' example_codec) example_world2 ''s1'' = Inr example_created"
  using typed_registry.get_view [OF file_registry_laws [OF lawful_example plain_subnet(1)], of example_world2 "''s1''"]
    example_world2_view by (simp add: file_good_def)

lemma example_update:
  "\<exists>w'. handler_put 7 example_handler (example_request ''alice'') example_world2 =
      (respond 200 (ResourceBody (set_rv (revision [0, 0]) (example_subnet 2 ''alice''))), w')"
proof -
  let ?new = "(example_subnet 99 ''mallory'')\<lparr>metadata := carry_over (metadata example_created)
      ((metadata (example_subnet 99 ''mallory''))\<lparr>md_uid := ''s1''\<rparr>), status := ()\<rparr>"
  have "\<exists>w'. put_finish example_handler (Some \<lparr>id_subject = ''alice'', id_roles = []\<rparr>) 200 ?new example_world2 =
      (respond 200 (ResourceBody (set_rv (revision [0, 0]) (example_subnet 2 ''alice''))), w') \<and>
    file_good ''subnet'' example_codec w' \<and>
    file_view ''subnet'' example_codec w' ''s1'' = Some (set_rv (revision [0, 0]) (example_subnet 2 ''alice''))"
  proof (rule example_finish)
    show "authorizeReferences example_handler (Some \<lparr>id_subject = ''alice'', id_roles = []\<rparr>)
        (metadata ?new) (spec ?new) example_world2 = None"
      using example_references [OF example_lookups(2), of "metadata ?new"]
      by (simp add: example_subnet_def carry_over_def)
  qed (simp_all add: example_world2_view, simp_all add: example_subnet_def carry_over_def set_rv_def stamp_def current_rv_def)
  moreover have "handler_put 7 example_handler (example_request ''alice'') example_world2 =
      put_finish example_handler (Some \<lparr>id_subject = ''alice'', id_roles = []\<rparr>) 200 ?new example_world2"
    using example_get example_may [of "metadata example_created" PermissionWrite example_world2]
    by (simp add: handler_put_def Let_def example_request_def subnet_spec_ops_def example_handler_def example_subnet_def)
  ultimately show ?thesis by metis
qed

theorem put_create_fresh_witness:
  "\<exists>resp w'. handler_put 0 example_handler (example_request ''alice'') example_world = (resp, w') \<and>
    put_created 0 example_handler (example_request ''alice'') example_world resp
      (file_view ''subnet'' example_codec example_world) (file_view ''subnet'' example_codec w')"
proof -
  from example_create obtain w' where
    p: "handler_put 0 example_handler (example_request ''alice'') example_world = (respond 201 (ResourceBody example_created), w')"
    by blast
  with put_create_fresh [OF lawful_example plain_subnet(1) example_world_good _ _ _ _ p] show ?thesis
    by (intro exI conjI) auto
qed

theorem put_update_keeps_server_fields_witness:
  "\<exists>resp w'. handler_put 7 example_handler (example_request ''alice'') example_world2 = (resp, w') \<and>
    put_updated example_handler (example_request ''alice'') example_world2 resp example_created
      (file_view ''subnet'' example_codec example_world2) (file_view ''subnet'' example_codec w')"
proof -
  from example_update obtain w' where
    p: "handler_put 7 example_handler (example_request ''alice'') example_world2 =
      (respond 200 (ResourceBody (set_rv (revision [0, 0]) (example_subnet 2 ''alice''))), w')" by blast
  with put_update_keeps_server_fields [OF lawful_example plain_subnet(1) example_world2_view(1) _ _ _ _ p]
    example_world2_view(2) show ?thesis by (intro exI conjI) auto
qed


theorem put_refused_unchanged_witness:
  "\<exists>w'. handler_put 0 example_handler ((example_request ''alice'')\<lparr>hr_body := None\<rparr>) example_world =
      (writeError 400 ''invalid body'', w') \<and>
    file_view ''subnet'' example_codec w' = file_view ''subnet'' example_codec example_world"
proof -
  let ?r = "(example_request ''alice'')\<lparr>hr_body := None\<rparr>"
  have p: "handler_put 0 example_handler ?r example_world = (writeError 400 ''invalid body'', example_world)"
    by (simp add: handler_put_def example_request_def)
  with put_refused_unchanged [OF lawful_example plain_subnet(1) example_world_good _ _ _ p] show ?thesis
    by (auto simp: example_request_def)
qed

theorem delete_respects_finalizers_witness:
  "\<exists>w'. handler_delete 7 example_handler (example_request ''alice'') example_world2 = (respond 204 NoBody, w') \<and>
    file_view ''subnet'' example_codec w' ''s1'' = None"
proof -
  obtain resp w' where p: "handler_delete 7 example_handler (example_request ''alice'') example_world2 = (resp, w')"
    by fastforce
  have "may example_handler (hr_identity (example_request ''alice'')) (metadata example_created) PermissionDelete example_world2"
    using example_may by (simp add: example_request_def example_subnet_def)
  moreover have "md_finalizers (metadata example_created) = []" by (simp add: example_subnet_def)
  ultimately show ?thesis
    using delete_respects_finalizers [OF lawful_example plain_subnet(1) example_world2_view(1) _ _ _ _ p, of example_created]
      example_world2_view(2) p by auto
qed

end
