(* ===== verification/Lease.thy ===== *)
theory Lease
  imports Registry
begin

text \<open>
  Leader election (\<^verbatim>\<open>internal/controllers/lease.go\<close>). Each operation
  reads the lease, decides, and swaps in a separate store call, so the system is
  a step relation in which the contenders' calls interleave freely; the atomic
  operations compose the same parts. The clock is shared and never goes back.
  JSON of the lease record is a parameter with its round trip as a hypothesis.
\<close>

record lease_record =
  lr_holder :: string
  lr_expiry :: time

record lease_codec =
  lease_marshal :: "lease_record \<Rightarrow> bytes option"
  lease_unmarshal :: "bytes \<Rightarrow> lease_record option"

record 'w lease =
  ls_store :: "'w store_ops"
  ls_key :: string
  ls_holder :: string
  ls_ttl :: int
  ls_codec :: lease_codec

definition zero_record :: lease_record where
  "zero_record = \<lparr>lr_holder = [], lr_expiry = zero_time\<rparr>"

text \<open>The outcome of the reading part of an operation: a final answer, or the old value to swap against.\<close>

datatype lease_read = LeaseDone "bool result" | LeaseSwap "bytes option"

definition acquire_read :: "'w lease \<Rightarrow> time \<Rightarrow> 'w \<Rightarrow> lease_read" where
  "acquire_read l now w =
     (if ls_ttl l \<le> 0 then LeaseDone (Inl (Errorf ''controllers: lease TTL must be positive''))
      else case st_get (ls_store l) w (ls_key l) of
        Inl e \<Rightarrow> if errors_is e ErrNotFound then LeaseSwap None
          else LeaseDone (Inl (Wrap ''controllers: read lease'' e))
      | Inr cur \<Rightarrow> (case lease_unmarshal (ls_codec l) cur of
          None \<Rightarrow> LeaseDone (Inl (Errorf ''controllers: decode lease''))
        | Some rec \<Rightarrow>
            if lr_holder rec = ls_holder l \<or> \<not> lr_expiry rec > now then LeaseSwap (Some cur)
            else LeaseDone (Inr False)))"

definition renew_read :: "'w lease \<Rightarrow> time \<Rightarrow> 'w \<Rightarrow> lease_read" where
  "renew_read l now w =
     (case st_get (ls_store l) w (ls_key l) of
        Inl e \<Rightarrow> LeaseDone (Inl e)
      | Inr cur \<Rightarrow> (case lease_unmarshal (ls_codec l) cur of
          None \<Rightarrow> LeaseDone (Inl (Errorf ''decode lease''))
        | Some rec \<Rightarrow>
            if lr_holder rec \<noteq> ls_holder l \<or> \<not> lr_expiry rec > now then LeaseDone (Inr False)
            else LeaseSwap (Some cur)))"

definition release_read :: "'w lease \<Rightarrow> 'w \<Rightarrow> lease_read" where
  "release_read l w =
     (case st_get (ls_store l) w (ls_key l) of
        Inl e \<Rightarrow> if errors_is e ErrNotFound then LeaseDone (Inr True)
          else LeaseDone (Inl (Wrap ''controllers: read lease'' e))
      | Inr cur \<Rightarrow> (case lease_unmarshal (ls_codec l) cur of
          None \<Rightarrow> LeaseDone (Inl (Errorf ''controllers: decode lease''))
        | Some rec \<Rightarrow> if lr_holder rec \<noteq> ls_holder l then LeaseDone (Inr True) else LeaseSwap (Some cur)))"

definition lease_encode :: "'w lease \<Rightarrow> time \<Rightarrow> bytes option" where
  "lease_encode l now = lease_marshal (ls_codec l) \<lparr>lr_holder = ls_holder l, lr_expiry = now + ls_ttl l\<rparr>"

definition lease_cas :: "'w lease \<Rightarrow> 'w \<Rightarrow> bytes option \<Rightarrow> bytes \<Rightarrow> bool result \<times> 'w" where
  "lease_cas l w old data = (case st_cas (ls_store l) w (ls_key l) old data of
     (Inl e, w') \<Rightarrow> (Inl (Wrap ''controllers: swap lease'' e), w')
   | (Inr ok, w') \<Rightarrow> (Inr ok, w'))"

definition lease_swap :: "'w lease \<Rightarrow> time \<Rightarrow> 'w \<Rightarrow> bytes option \<Rightarrow> bool result \<times> 'w" where
  "lease_swap l now w old = (case lease_encode l now of
     None \<Rightarrow> (Inl (Errorf ''controllers: encode lease''), w)
   | Some data \<Rightarrow> lease_cas l w old data)"

text \<open>The operations, with the clock readings of the decision and of the new expiry.\<close>

definition Acquire :: "'w lease \<Rightarrow> time \<Rightarrow> time \<Rightarrow> 'w \<Rightarrow> bool result \<times> 'w" where
  "Acquire l t1 t2 w = (case acquire_read l t1 w of
     LeaseDone r \<Rightarrow> (r, w)
   | LeaseSwap old \<Rightarrow> lease_swap l t2 w old)"

definition Renew :: "'w lease \<Rightarrow> time \<Rightarrow> time \<Rightarrow> 'w \<Rightarrow> bool result \<times> 'w" where
  "Renew l t1 t2 w = (case renew_read l t1 w of
     LeaseDone r \<Rightarrow> (r, w)
   | LeaseSwap old \<Rightarrow> lease_swap l t2 w old)"

definition Release :: "'w lease \<Rightarrow> 'w \<Rightarrow> error option \<times> 'w" where
  "Release l w = (case release_read l w of
     LeaseDone (Inl e) \<Rightarrow> (Some e, w)
   | LeaseDone (Inr _) \<Rightarrow> (None, w)
   | LeaseSwap old \<Rightarrow> (case lease_marshal (ls_codec l) zero_record of
       None \<Rightarrow> (Some (Errorf ''encode lease''), w)
     | Some data \<Rightarrow> (case st_cas (ls_store l) w (ls_key l) old data of
         (Inl e, w') \<Rightarrow> (Some (Wrap ''controllers: release lease'' e), w')
       | (Inr _, w') \<Rightarrow> (None, w'))))"

subsection \<open>Interleaved contenders\<close>

text \<open>
  A contender is idle or in the middle of a call: it has read and is about to
  compute its record, or is about to swap the record it computed, or is about to
  release. \<open>le_grant c\<close> is the expiry of the last lease \<open>c\<close> was told it has,
  until it starts to release it; \<open>c\<close> acts as the leader while that lies in the
  future.
\<close>

datatype lease_pending =
    Idle
  | Encoding "bytes option"
  | Swapping "bytes option" bytes time
  | Releasing "bytes option" bytes

record 'w election =
  le_clock :: time
  le_world :: 'w
  le_pending :: "string \<Rightarrow> lease_pending"
  le_grant :: "string \<Rightarrow> time option"

definition leads :: "'w election \<Rightarrow> string \<Rightarrow> bool" where
  "leads s c = (case le_grant s c of None \<Rightarrow> False | Some e \<Rightarrow> le_clock s < e)"

definition idle_election :: "time \<Rightarrow> 'w \<Rightarrow> 'w election" where
  "idle_election t w = \<lparr>le_clock = t, le_world = w, le_pending = (\<lambda>_. Idle), le_grant = (\<lambda>_. None)\<rparr>"

inductive election_step :: "(string \<Rightarrow> 'w lease) \<Rightarrow> 'w election \<Rightarrow> 'w election \<Rightarrow> bool"
  for L where
  tick: "le_clock s \<le> t \<Longrightarrow> election_step L s (s\<lparr>le_clock := t\<rparr>)"
| start_acquire: "le_pending s c = Idle \<Longrightarrow> acquire_read (L c) (le_clock s) (le_world s) = LeaseSwap old \<Longrightarrow>
    election_step L s (s\<lparr>le_pending := (le_pending s)(c := Encoding old)\<rparr>)"
| start_renew: "le_pending s c = Idle \<Longrightarrow> renew_read (L c) (le_clock s) (le_world s) = LeaseSwap old \<Longrightarrow>
    election_step L s (s\<lparr>le_pending := (le_pending s)(c := Encoding old)\<rparr>)"
| encode: "le_pending s c = Encoding old \<Longrightarrow> lease_encode (L c) (le_clock s) = Some data \<Longrightarrow>
    election_step L s (s\<lparr>le_pending := (le_pending s)(c := Swapping old data (le_clock s + ls_ttl (L c)))\<rparr>)"
| swap_won: "le_pending s c = Swapping old data e \<Longrightarrow> lease_cas (L c) (le_world s) old data = (Inr True, w') \<Longrightarrow>
    election_step L s (s\<lparr>le_world := w', le_pending := (le_pending s)(c := Idle), le_grant := (le_grant s)(c \<mapsto> e)\<rparr>)"
| swap_lost: "le_pending s c = Swapping old data e \<Longrightarrow> lease_cas (L c) (le_world s) old data = (r, w') \<Longrightarrow>
    r \<noteq> Inr True \<Longrightarrow>
    election_step L s (s\<lparr>le_world := w', le_pending := (le_pending s)(c := Idle)\<rparr>)"
| start_release: "le_pending s c = Idle \<Longrightarrow> release_read (L c) (le_world s) = LeaseSwap old \<Longrightarrow>
    lease_marshal (ls_codec (L c)) zero_record = Some data \<Longrightarrow>
    election_step L s (s\<lparr>le_pending := (le_pending s)(c := Releasing old data), le_grant := (le_grant s)(c := None)\<rparr>)"
| release_swap: "le_pending s c = Releasing old data \<Longrightarrow> lease_cas (L c) (le_world s) old data = (r, w') \<Longrightarrow>
    election_step L s (s\<lparr>le_world := w', le_pending := (le_pending s)(c := Idle)\<rparr>)"
| give_up: "election_step L s (s\<lparr>le_pending := (le_pending s)(c := Idle)\<rparr>)"

subsection \<open>Mutual exclusion\<close>

definition lawful_lease_codec :: "lease_codec \<Rightarrow> bool" where
  "lawful_lease_codec c = (\<forall>r d. lease_marshal c r = Some d \<longrightarrow> lease_unmarshal c d = Some r \<and> d \<noteq> [])"

definition stored_lease :: "lease_codec \<Rightarrow> bytes option \<Rightarrow> lease_record option" where
  "stored_lease cd v = Option.bind v (lease_unmarshal cd)"

definition decodable :: "lease_codec \<Rightarrow> bytes option \<Rightarrow> bool" where
  "decodable cd v = (case v of None \<Rightarrow> True | Some d \<Rightarrow> d \<noteq> [] \<and> lease_unmarshal cd d \<noteq> None)"

text \<open>The contenders of one election: one store, one key, one name each.\<close>

locale lease_store = kv_store ops abs inv ok
  for ops :: "'w store_ops" and abs inv ok +
  fixes L :: "string \<Rightarrow> 'w lease" and a b :: string and codec :: lease_codec
  assumes config [simp]: "ls_store (L c) = ops" "ls_key (L c) = store_key a b" "ls_holder (L c) = c"
      "ls_codec (L c) = codec"
    and key_ok [simp]: "ok a" "ok b"
    and codec_law: "lawful_lease_codec codec"
begin

definition stored :: "'w \<Rightarrow> lease_record option" where
  "stored w = stored_lease codec (abs w (a, b))"

definition decodes :: "'w \<Rightarrow> bool" where
  "decodes w = (inv w \<and> decodable codec (abs w (a, b)))"

lemma codecD: "lease_marshal codec r = Some d \<Longrightarrow> lease_unmarshal codec d = Some r \<and> d \<noteq> []"
  using codec_law by (simp add: lawful_lease_codec_def)

text \<open>What a contender that is about to swap against \<open>old\<close> knows about that value.\<close>

definition replaceable :: "time \<Rightarrow> string \<Rightarrow> bytes option \<Rightarrow> bool" where
  "replaceable t c old = (case old of
     None \<Rightarrow> True
   | Some d \<Rightarrow> d \<noteq> [] \<and> (\<exists>r. lease_unmarshal codec d = Some r \<and> (lr_holder r = c \<or> lr_expiry r \<le> t)))"

definition own_record :: "string \<Rightarrow> bytes option \<Rightarrow> bool" where
  "own_record c old = (\<exists>d r. old = Some d \<and> d \<noteq> [] \<and> lease_unmarshal codec d = Some r \<and> lr_holder r = c)"

lemma replaceable_mono: "replaceable t c old \<Longrightarrow> t \<le> t' \<Longrightarrow> replaceable t' c old"
  by (auto simp: replaceable_def split: option.splits intro: order_trans)

lemma replaceable_nonempty: "replaceable t c old \<Longrightarrow> old \<noteq> Some []"
  by (auto simp: replaceable_def)

lemma own_replaceable: "own_record c old \<Longrightarrow> replaceable t c old"
  by (auto simp: own_record_def replaceable_def)

lemma acquire_read_swap:
  assumes "decodes w" "acquire_read (L c) t w = LeaseSwap old"
  shows "replaceable t c old"
proof (cases "abs w (a, b)")
  case None
  with assms show ?thesis
    by (auto simp: acquire_read_def decodes_def decodable_def get_law replaceable_def split: if_splits)
next
  case (Some d)
  with assms(1) obtain r where "d \<noteq> []" "lease_unmarshal codec d = Some r" by (auto simp: decodes_def decodable_def)
  with Some assms show ?thesis
    by (cases old) (auto simp: acquire_read_def decodes_def decodable_def get_law replaceable_def own_record_def split: if_splits)
qed

lemma renew_read_swap:
  assumes "decodes w" "renew_read (L c) t w = LeaseSwap old"
  shows "own_record c old"
proof (cases "abs w (a, b)")
  case None
  with assms show ?thesis by (auto simp: renew_read_def decodes_def decodable_def get_law)
next
  case (Some d)
  with assms(1) obtain r where "d \<noteq> []" "lease_unmarshal codec d = Some r" by (auto simp: decodes_def decodable_def)
  with Some assms show ?thesis
    by (cases old) (auto simp: renew_read_def decodes_def decodable_def get_law replaceable_def own_record_def split: if_splits)
qed

lemma release_read_swap:
  assumes "decodes w" "release_read (L c) w = LeaseSwap old"
  shows "own_record c old"
proof (cases "abs w (a, b)")
  case None
  with assms show ?thesis by (auto simp: release_read_def decodes_def decodable_def get_law)
next
  case (Some d)
  with assms(1) obtain r where "d \<noteq> []" "lease_unmarshal codec d = Some r" by (auto simp: decodes_def decodable_def)
  with Some assms show ?thesis
    by (cases old) (auto simp: release_read_def decodes_def decodable_def get_law replaceable_def own_record_def split: if_splits)
qed

lemma cas_result:
  assumes "decodes w" "replaceable t c old" "lease_marshal codec rec = Some d"
    and "lease_cas (L c) w old d = (r, w')"
  shows "decodes w' \<and> r = Inr (abs w (a, b) = old) \<and>
    stored w' = (if abs w (a, b) = old then Some rec else stored w)"
proof -
  from cas_law [of w a b old d] assms(1) replaceable_nonempty [OF assms(2)] obtain w1 where
    w1: "st_cas ops w (store_key a b) old d = (Inr (abs w (a, b) = old), w1)" "inv w1"
      "abs w1 = (if abs w (a, b) = old then (abs w)((a, b) \<mapsto> d) else abs w)"
    by (auto simp: decodes_def decodable_def)
  with assms(4) have "r = Inr (abs w (a, b) = old)" "w' = w1" by (auto simp: lease_cas_def)
  with w1 assms(1,3) codecD [OF assms(3)] show ?thesis
    by (auto simp: decodes_def decodable_def stored_def stored_lease_def)
qed

text \<open>The invariant: whoever leads is the one the store names, with the expiry it was told.\<close>

fun pending_ok :: "time \<Rightarrow> string \<Rightarrow> time option \<Rightarrow> lease_pending \<Rightarrow> bool" where
  "pending_ok t c g Idle = True"
| "pending_ok t c g (Encoding old) = replaceable t c old"
| "pending_ok t c g (Swapping old d e) = (replaceable t c old \<and>
     lease_marshal codec \<lparr>lr_holder = c, lr_expiry = e\<rparr> = Some d)"
| "pending_ok t c g (Releasing old d) = (own_record c old \<and> lease_marshal codec zero_record = Some d \<and> g = None)"

lemma pending_mono: "pending_ok t c g p \<Longrightarrow> t \<le> t' \<Longrightarrow> pending_ok t' c g p"
  by (cases p) (auto intro: replaceable_mono)

definition election_inv :: "'w election \<Rightarrow> bool" where
  "election_inv s = (decodes (le_world s) \<and> (\<forall>c. pending_ok (le_clock s) c (le_grant s c) (le_pending s c)) \<and>
     (\<forall>c e. le_grant s c = Some e \<and> le_clock s < e \<longrightarrow>
        stored (le_world s) = Some \<lparr>lr_holder = c, lr_expiry = e\<rparr>))"

lemma replaced_not_leading:
  assumes "election_inv s" "replaceable (le_clock s) c (abs (le_world s) (a, b))" "leads s c'"
  shows "c' = c"
proof -
  from assms(3) obtain e where e: "le_grant s c' = Some e" "le_clock s < e"
    by (auto simp: leads_def split: option.splits)
  with assms(1) have st: "stored (le_world s) = Some \<lparr>lr_holder = c', lr_expiry = e\<rparr>"
    by (auto simp: election_inv_def)
  then obtain d where d: "abs (le_world s) (a, b) = Some d"
    "lease_unmarshal codec d = Some \<lparr>lr_holder = c', lr_expiry = e\<rparr>"
    by (auto simp: stored_def stored_lease_def bind_eq_Some_conv)
  with assms(2) e(2) show ?thesis by (auto simp: replaceable_def)
qed

lemma inv_pending: "election_inv s \<Longrightarrow> le_pending s c = p \<Longrightarrow> pending_ok (le_clock s) c (le_grant s c) p"
  by (auto simp: election_inv_def)

lemma inv_set_pending:
  assumes "election_inv s" "pending_ok (le_clock s) c (le_grant s c) p"
  shows "election_inv (s\<lparr>le_pending := (le_pending s)(c := p)\<rparr>)"
  using assms by (auto simp: election_inv_def)

lemma inv_cas:
  assumes "election_inv s" "replaceable (le_clock s) c old" "lease_marshal codec rec = Some d"
    and "lease_cas (L c) (le_world s) old d = (r, w')"
    and "\<And>e. g = Some e \<Longrightarrow> le_clock s < e \<Longrightarrow> r = Inr True \<and> rec = \<lparr>lr_holder = c, lr_expiry = e\<rparr> \<or>
       r \<noteq> Inr True \<and> le_grant s c = Some e"
  shows "election_inv (s\<lparr>le_world := w', le_pending := (le_pending s)(c := Idle), le_grant := (le_grant s)(c := g)\<rparr>)"
proof -
  note cas = cas_result [OF _ assms(2,3,4)]
  have d: "decodes (le_world s)" using assms(1) by (simp add: election_inv_def)
  have keep: "stored w' = Some \<lparr>lr_holder = c', lr_expiry = e\<rparr>"
    if "c' \<noteq> c" "le_grant s c' = Some e" "le_clock s < e" for c' e
  proof -
    have "abs (le_world s) (a, b) \<noteq> old"
      using replaced_not_leading [OF assms(1), of c c'] assms(2) that by (auto simp: leads_def)
    with cas [OF d] that assms(1) show ?thesis by (auto simp: election_inv_def)
  qed
  have own: "stored w' = Some \<lparr>lr_holder = c, lr_expiry = e\<rparr>" if "g = Some e" "le_clock s < e" for e
    using assms(5) [OF that] cas [OF d] assms(1) that by (auto simp: election_inv_def split: if_splits)
  from assms(1) cas [OF d] keep own show ?thesis by (auto simp: election_inv_def split: if_splits)
qed

lemma election_inv_step: "election_step L s s' \<Longrightarrow> election_inv s \<Longrightarrow> election_inv s'"
proof (induction rule: election_step.induct)
  case (tick s t)
  then show ?case by (auto simp: election_inv_def intro: pending_mono)
next
  case (start_acquire s c old)
  then show ?case
    by (intro inv_set_pending) (auto simp: election_inv_def dest: acquire_read_swap)
next
  case (start_renew s c old)
  then show ?case
    by (intro inv_set_pending) (auto simp: election_inv_def dest!: renew_read_swap intro: own_replaceable)
next
  case (encode s c old data)
  then show ?case
    using inv_pending [of s c "Encoding old"] by (intro inv_set_pending) (auto simp: lease_encode_def)
next
  case (swap_won s c old data e w')
  with inv_pending [of s c "Swapping old data e"] show ?case
    by (intro inv_cas [of s c old "\<lparr>lr_holder = c, lr_expiry = e\<rparr>" data "Inr True"]) auto
next
  case (swap_lost s c old data e r w')
  with inv_pending [of s c "Swapping old data e"]
    inv_cas [of s c old "\<lparr>lr_holder = c, lr_expiry = e\<rparr>" data r w' "le_grant s c"]
  show ?case by auto
next
  case (start_release s c old data)
  then have "own_record c old" by (auto simp: election_inv_def dest: release_read_swap)
  with start_release show ?case by (auto simp: election_inv_def)
next
  case (release_swap s c old data r w')
  with inv_pending [of s c "Releasing old data"] own_replaceable
    inv_cas [of s c old zero_record data r w' "le_grant s c"]
  have "election_inv (s\<lparr>le_world := w', le_pending := (le_pending s)(c := Idle), le_grant := (le_grant s)(c := le_grant s c)\<rparr>)"
    by auto
  then show ?case by (simp only: fun_upd_triv) simp
next
  case (give_up s c)
  then show ?case by (intro inv_set_pending) auto
qed

lemma election_inv_init: "decodes w \<Longrightarrow> election_inv (idle_election t w)"
  by (simp add: election_inv_def idle_election_def)

lemma election_inv_reach: "(election_step L)\<^sup>*\<^sup>* s s' \<Longrightarrow> election_inv s \<Longrightarrow> election_inv s'"
  by (induction rule: rtranclp_induct) (auto intro: election_inv_step)

lemma inv_leads: "election_inv s \<Longrightarrow> leads s c \<Longrightarrow> map_option lr_holder (stored (le_world s)) = Some c"
  by (auto simp: election_inv_def leads_def split: option.splits)

lemma inv_one_leader: "election_inv s \<Longrightarrow> leads s c1 \<Longrightarrow> leads s c2 \<Longrightarrow> c1 = c2"
  using inv_leads [of s c1] inv_leads [of s c2] by simp

text \<open>The atomic operation: exactly who gets the lease.\<close>

lemma Acquire_result:
  assumes "decodes w" "0 < ls_ttl (L c)"
    and "lease_marshal codec \<lparr>lr_holder = c, lr_expiry = t2 + ls_ttl (L c)\<rparr> = Some d"
  shows "\<exists>w'. Acquire (L c) t1 t2 w =
      (Inr (case stored w of None \<Rightarrow> True | Some r \<Rightarrow> lr_holder r = c \<or> lr_expiry r \<le> t1), w') \<and> decodes w' \<and>
    stored w' = (if (case stored w of None \<Rightarrow> True | Some r \<Rightarrow> lr_holder r = c \<or> lr_expiry r \<le> t1)
      then Some \<lparr>lr_holder = c, lr_expiry = t2 + ls_ttl (L c)\<rparr> else stored w)"
proof (cases "case stored w of None \<Rightarrow> True | Some r \<Rightarrow> lr_holder r = c \<or> lr_expiry r \<le> t1")
  case True
  obtain r w' where r: "lease_cas (L c) w (abs w (a, b)) d = (r, w')" by fastforce
  have read: "acquire_read (L c) t1 w = LeaseSwap (abs w (a, b))"
  proof (cases "abs w (a, b)")
    case None
    with assms(1,2) show ?thesis by (simp add: acquire_read_def decodes_def decodable_def get_law)
  next
    case (Some x)
    with assms(1) obtain r0 where "lease_unmarshal codec x = Some r0" by (auto simp: decodes_def decodable_def)
    with Some True assms(1,2) show ?thesis
      by (auto simp: acquire_read_def decodes_def decodable_def get_law stored_def stored_lease_def)
  qed
  from cas_result [OF assms(1) acquire_read_swap [OF assms(1) read] assms(3) r]
  have "decodes w'" "r = Inr True" "stored w' = Some \<lparr>lr_holder = c, lr_expiry = t2 + ls_ttl (L c)\<rparr>" by auto
  with read r assms(3) True show ?thesis
    by (simp add: Acquire_def lease_swap_def lease_encode_def)
next
  case False
  then obtain x r0 where "abs w (a, b) = Some x" "lease_unmarshal codec x = Some r0"
    "lr_holder r0 \<noteq> c" "lr_expiry r0 > t1"
    by (auto simp: stored_def stored_lease_def bind_eq_Some_conv split: option.splits)
  with assms(1,2) False show ?thesis
    by (simp add: Acquire_def acquire_read_def decodes_def decodable_def get_law)
qed

end

subsection \<open>The lease on the file store\<close>

definition NewLease :: "'w store_ops \<Rightarrow> string \<Rightarrow> string \<Rightarrow> int \<Rightarrow> lease_codec \<Rightarrow> 'w lease" where
  "NewLease store key holder ttl c =
     \<lparr>ls_store = store, ls_key = key, ls_holder = holder, ls_ttl = ttl, ls_codec = c\<rparr>"

definition manager_key :: string where
  "manager_key = store_key ''leases'' ''controller-manager''"

definition manager_lease :: "(string \<Rightarrow> int) \<Rightarrow> lease_codec \<Rightarrow> string \<Rightarrow> fsys lease" where
  "manager_lease ttl cd c = NewLease (FileStore no_faults) manager_key c (ttl c) cd"

text \<open>A codec for finitely many records, with which the laws can be seen to hold.\<close>

definition table_lease_codec :: "lease_record list \<Rightarrow> lease_codec" where
  "table_lease_codec rs = \<lparr>
     lease_marshal = (\<lambda>r. if r \<in> set rs then Some (replicate (Suc (length (takeWhile (\<lambda>x. x \<noteq> r) rs))) 0) else None),
     lease_unmarshal = (\<lambda>d. if 0 < length d \<and> length d \<le> length rs then Some (rs ! (length d - 1)) else None)\<rparr>"

lemma lawful_table_lease_codec: "lawful_lease_codec (table_lease_codec rs)"
  using takeWhile_neq_hit [of _ rs]
  by (auto simp: lawful_lease_codec_def table_lease_codec_def Suc_le_eq split: if_splits)

lemma manager_lease_laws:
  assumes "lawful_lease_codec cd"
  shows "lease_store (FileStore no_faults) file_abs wf_fs plain (manager_lease ttl cd) ''leases'' ''controller-manager'' cd"
proof -
  have "plain ''leases''" "plain ''controller-manager''" by code_simp+
  with assms fstore.kv_store_axioms show ?thesis
    by (simp add: lease_store_def lease_store_axioms_def manager_lease_def NewLease_def manager_key_def)
qed

typedef lease_json = "{c. lawful_lease_codec c}"
  using lawful_table_lease_codec by blast

interpretation flease: lease_store "FileStore no_faults" file_abs wf_fs plain
  "manager_lease ttl (Rep_lease_json cd)" "''leases''" "''controller-manager''" "Rep_lease_json cd" for ttl cd
  using Rep_lease_json [of cd] manager_lease_laws by auto

abbreviation manager_record :: "lease_codec \<Rightarrow> fsys \<Rightarrow> lease_record option" where
  "manager_record cd w \<equiv> stored_lease cd (file_abs w (''leases'', ''controller-manager''))"

definition lease_world :: "lease_codec \<Rightarrow> fsys \<Rightarrow> bool" where
  "lease_world cd w = (wf_fs w \<and> decodable cd (file_abs w (''leases'', ''controller-manager'')))"

text \<open>
  C18. There is never more than one leader: contenders start idle on a store whose
  lease decodes (or is absent); after any interleaving of reads, encodings,
  compare-and-swaps, releases, crashes and clock ticks, two holders whose lease
  has not expired are the same holder. Nothing is assumed about the TTLs.
\<close>

theorem one_leader:
  assumes "lawful_lease_codec cd" "lease_world cd w"
    and "(election_step (manager_lease ttl cd))\<^sup>*\<^sup>* (idle_election t w) s"
    and "leads s c1" "leads s c2"
  shows "c1 = c2"
proof -
  note laws = manager_lease_laws [OF assms(1), of ttl]
  have "lease_store.decodes file_abs wf_fs ''leases'' ''controller-manager'' cd w"
    using assms(2) by (simp add: lease_store.decodes_def [OF laws] lease_world_def)
  with lease_store.election_inv_init [OF laws] lease_store.election_inv_reach [OF laws assms(3)]
    lease_store.inv_one_leader [OF laws _ assms(4,5)]
  show ?thesis by blast
qed

definition example_lease_codec :: lease_codec where
  "example_lease_codec = table_lease_codec [\<lparr>lr_holder = ''a'', lr_expiry = 10\<rparr>]"

lemma example_lease [simp]:
  "lawful_lease_codec example_lease_codec" "lease_world example_lease_codec []"
  "lease_marshal example_lease_codec \<lparr>lr_holder = ''a'', lr_expiry = 10\<rparr> = Some [0]"
  unfolding example_lease_codec_def
  by (rule lawful_table_lease_codec)
    (simp_all add: lease_world_def wf_fs_def decodable_def file_abs_def table_lease_codec_def)

lemma example_lease_read:
  "acquire_read (manager_lease (\<lambda>_. 10) example_lease_codec ''a'') 0 [] = LeaseSwap None"
proof -
  have "plain ''leases''" "plain ''controller-manager''" by code_simp+
  then show ?thesis
    by (simp add: acquire_read_def manager_lease_def NewLease_def manager_key_def fstore.get_law wf_fs_def file_abs_def)
qed

lemma example_lease_cas:
  "\<exists>w. lease_cas (manager_lease (\<lambda>_. 10) example_lease_codec ''a'') [] None [0] = (Inr True, w)"
proof -
  note laws = manager_lease_laws [OF example_lease(1), of "\<lambda>_. 10"]
  obtain r w where rw: "lease_cas (manager_lease (\<lambda>_. 10) example_lease_codec ''a'') [] None [0] = (r, w)" by fastforce
  have "lease_store.decodes file_abs wf_fs ''leases'' ''controller-manager'' example_lease_codec []"
    using example_lease(2) by (simp add: lease_store.decodes_def [OF laws] lease_world_def)
  from lease_store.cas_result [OF laws this _ example_lease(3) rw]
  show ?thesis using rw by (simp add: lease_store.replaceable_def [OF laws] file_abs_def)
qed

theorem one_leader_witness:
  "\<exists>s. (election_step (manager_lease (\<lambda>_. 10) example_lease_codec))\<^sup>*\<^sup>* (idle_election 0 []) s \<and>
     {c. leads s c} = {''a''}"
proof -
  let ?L = "manager_lease (\<lambda>_. 10) example_lease_codec"
  let ?s0 = "idle_election 0 [] :: fsys election"
  let ?s1 = "?s0\<lparr>le_pending := (le_pending ?s0)(''a'' := Encoding None)\<rparr>"
  let ?s2 = "?s1\<lparr>le_pending := (le_pending ?s1)(''a'' := Swapping None [0] (le_clock ?s1 + ls_ttl (?L ''a'')))\<rparr>"
  have ttl: "ls_ttl (?L ''a'') = 10" by (simp add: manager_lease_def NewLease_def)
  obtain w where w: "lease_cas (?L ''a'') [] None [0] = (Inr True, w)" using example_lease_cas by blast
  let ?s3 = "?s2\<lparr>le_world := w, le_pending := (le_pending ?s2)(''a'' := Idle), le_grant := (le_grant ?s2)(''a'' \<mapsto> 10)\<rparr>"
  have s1: "election_step ?L ?s0 ?s1"
    by (rule start_acquire) (simp_all add: idle_election_def example_lease_read)
  have s2: "election_step ?L ?s1 ?s2"
    by (rule encode) (simp_all add: idle_election_def lease_encode_def ttl, simp add: manager_lease_def NewLease_def)
  have s3: "election_step ?L ?s2 ?s3"
    by (rule swap_won [where old = None and data = "[0]"]) (simp_all add: idle_election_def ttl w)
  from s1 s2 s3 have run: "(election_step ?L)\<^sup>*\<^sup>* ?s0 ?s3"
    by (meson converse_rtranclp_into_rtranclp rtranclp.rtrancl_refl)
  have a: "leads ?s3 ''a''" by (simp add: leads_def idle_election_def)
  from one_leader [OF example_lease(1,2) run _ a] a have "{c. leads ?s3 c} = {''a''}" by blast
  with run show ?thesis by blast
qed

text \<open>
  C25. An acquisition is granted exactly when the stored lease is absent, expired
  or already the caller's; then the store names the caller with the new expiry.
  Otherwise it answers false and the stored lease stays the other holder's. Right
  after a grant, no other contender is granted until the expiry.
\<close>

theorem acquire_decides:
  assumes "lawful_lease_codec cd" "lease_world cd w" "0 < ttl c"
    and "lease_marshal cd \<lparr>lr_holder = c, lr_expiry = t2 + ttl c\<rparr> = Some d"
  shows "\<exists>w'. lease_world cd w' \<and>
    (let free = (case manager_record cd w of None \<Rightarrow> True | Some r \<Rightarrow> lr_holder r = c \<or> lr_expiry r \<le> t1) in
      Acquire (manager_lease ttl cd c) t1 t2 w = (Inr free, w') \<and>
      manager_record cd w' =
        (if free then Some \<lparr>lr_holder = c, lr_expiry = t2 + ttl c\<rparr> else manager_record cd w))"
proof -
  note laws = manager_lease_laws [OF assms(1), of ttl]
  note conv = lease_store.decodes_def [OF laws] lease_store.stored_def [OF laws]
  have ttl: "ls_ttl (manager_lease ttl cd c) = ttl c" by (simp add: manager_lease_def NewLease_def)
  from lease_store.Acquire_result [OF laws, of w c t2 d t1, unfolded ttl conv] assms(2-4)
  show ?thesis by (auto simp: lease_world_def Let_def)
qed

theorem acquire_decides_witness:
  "\<exists>w'. Acquire (manager_lease (\<lambda>_. 10) example_lease_codec ''a'') 0 0 [] = (Inr True, w') \<and>
     manager_record example_lease_codec w' = Some \<lparr>lr_holder = ''a'', lr_expiry = 10\<rparr>"
  using acquire_decides [OF example_lease(1,2), of "\<lambda>_. 10" "''a''" 0 "[0]" 0]
  by (auto simp: stored_lease_def file_abs_def)

end
