(* ===== verification/VirtQueue.thy ===== *)
theory VirtQueue
  imports Prelude
begin

text \<open>
  Guest memory (\<^verbatim>\<open>internal/hypervisor/guestmemory.go\<close>) and the split virtqueue
  (\<^verbatim>\<open>internal/hypervisor/virtio/queue.go\<close>). Guest memory is one byte list; a
  slice of it is an offset and a length into that list, so two slices alias
  exactly when their ranges meet. Addresses and indices are words of the width
  the source gives them.
\<close>

subsection \<open>Guest memory\<close>

record slice =
  sl_off :: nat
  sl_len :: nat

definition slice_get :: "bytes \<Rightarrow> slice \<Rightarrow> bytes" where
  "slice_get mem s = read_at (sl_off s) (sl_len s) mem"

definition slice_in :: "bytes \<Rightarrow> slice \<Rightarrow> bool" where
  "slice_in mem s = (sl_off s + sl_len s \<le> length mem)"

definition Slice :: "bytes \<Rightarrow> 64 word \<Rightarrow> int \<Rightarrow> slice result outcome" where
  "Slice mem addr len =
     (if len < 0 \<or> addr + word_of_int len > word_of_nat (length mem)
      then Ret (Inl (Errorf ''hypervisor: guest memory out of bounds''))
      else if addr > addr + word_of_int len then Panic ''slice bounds out of range''
      else Ret (Inr \<lparr>sl_off = unat addr, sl_len = unat (addr + word_of_int len) - unat addr\<rparr>))"

subsection \<open>The queue\<close>

definition descSize :: nat where "descSize = 16"
definition descFlagNext :: "16 word" where "descFlagNext = 1"
definition descFlagWrite :: "16 word" where "descFlagWrite = 2"
definition maxChainLength :: nat where "maxChainLength = 1024"

record segment =
  seg_data :: slice
  seg_writable :: bool

record chain =
  head_index :: "16 word"
  segments :: "segment list"

definition TotalWritableLen :: "chain \<Rightarrow> nat" where
  "TotalWritableLen c = sum_list (map (\<lambda>s. if seg_writable s then sl_len (seg_data s) else 0) (segments c))"

record virt_queue =
  vq_size :: "16 word"
  vq_desc :: "64 word"
  vq_avail :: "64 word"
  vq_used :: "64 word"
  last_avail_idx :: "16 word"

definition readAvailIdx :: "virt_queue \<Rightarrow> bytes \<Rightarrow> (16 word) result outcome" where
  "readAvailIdx vq mem =
     try_bind (annotate ''virtio: read avail.idx'' (Slice mem (vq_avail vq + 2) 2))
       (\<lambda>b. Ret (Inr (le_get (slice_get mem b))))"

fun chain_loop :: "nat \<Rightarrow> virt_queue \<Rightarrow> bytes \<Rightarrow> 16 word \<Rightarrow> 16 word \<Rightarrow> segment list \<Rightarrow> chain result outcome" where
  "chain_loop 0 vq mem headIdx idx segs = Ret (Inl (Errorf ''virtio: descriptor chain too long (cyclic?)''))"
| "chain_loop (Suc n) vq mem headIdx idx segs =
     try_bind (annotate ''virtio: read descriptor'' (Slice mem (vq_desc vq + ucast idx * 16) 16))
       (\<lambda>s. let d = slice_get mem s;
                addr = le_get (read_at 0 8 d) :: 64 word;
                len = le_get (read_at 8 4 d) :: 32 word;
                flags = le_get (read_at 12 2 d) :: 16 word;
                next = le_get (read_at 14 2 d) :: 16 word
            in try_bind (annotate ''virtio: descriptor data'' (Slice mem addr (uint len)))
              (\<lambda>data.
                let segs' = segs @ [\<lparr>seg_data = data, seg_writable = flags AND descFlagWrite \<noteq> 0\<rparr>]
                in if flags AND descFlagNext = 0 then Ret (Inr \<lparr>head_index = headIdx, segments = segs'\<rparr>)
                   else chain_loop n vq mem headIdx next segs'))"

definition readChain :: "virt_queue \<Rightarrow> bytes \<Rightarrow> 16 word \<Rightarrow> chain result outcome" where
  "readChain vq mem headIdx = chain_loop maxChainLength vq mem headIdx headIdx []"

text \<open>The index of a ring slot: Go's \<^verbatim>\<open>%\<close> panics on a zero divisor.\<close>

definition ring_mod :: "16 word \<Rightarrow> 16 word \<Rightarrow> (16 word) result outcome" where
  "ring_mod i size' = (if size' = 0 then Panic ''integer divide by zero'' else Ret (Inr (i mod size')))"

definition Pop :: "virt_queue \<Rightarrow> bytes \<Rightarrow> (chain option \<times> virt_queue) result outcome" where
  "Pop vq mem = try_bind (readAvailIdx vq mem) (\<lambda>availIdx.
     if availIdx = last_avail_idx vq then Ret (Inr (None, vq))
     else try_bind (ring_mod (last_avail_idx vq) (vq_size vq)) (\<lambda>slot.
       try_bind (annotate ''virtio: read avail ring entry'' (Slice mem (vq_avail vq + 4 + ucast slot * 2) 2)) (\<lambda>entry.
         let headIdx = le_get (slice_get mem entry) in
         try_bind (readChain vq mem headIdx) (\<lambda>c.
           Ret (Inr (Some c, vq\<lparr>last_avail_idx := last_avail_idx vq + 1\<rparr>))))))"

definition readUsedIdx :: "virt_queue \<Rightarrow> bytes \<Rightarrow> (16 word) result outcome" where
  "readUsedIdx vq mem =
     try_bind (annotate ''virtio: read used.idx'' (Slice mem (vq_used vq + 2) 2))
       (\<lambda>b. Ret (Inr (le_get (slice_get mem b))))"

text \<open>
  The two stores of a push, in program order: the entry, then the index. The
  result is the memory after the last store made, with the error if there was one.
\<close>

definition push_entry :: "virt_queue \<Rightarrow> bytes \<Rightarrow> 16 word \<Rightarrow> 16 word \<Rightarrow> 32 word \<Rightarrow> bytes result outcome" where
  "push_entry vq mem usedIdx headIndex writtenLen =
     try_bind (ring_mod usedIdx (vq_size vq)) (\<lambda>slot.
       try_bind (annotate ''virtio: write used ring entry'' (Slice mem (vq_used vq + 4 + ucast slot * 8) 8)) (\<lambda>entry.
         Ret (Inr (put_at (sl_off entry + 4) (le_put 4 writtenLen)
           (put_at (sl_off entry) (le_put 4 (ucast headIndex :: 32 word)) mem)))))"

definition Push :: "virt_queue \<Rightarrow> bytes \<Rightarrow> 16 word \<Rightarrow> 32 word \<Rightarrow> (error option \<times> bytes) outcome" where
  "Push vq mem headIndex writtenLen =
     outcome_bind (readUsedIdx vq mem) (\<lambda>r. case r of
       Inl e \<Rightarrow> Ret (Some e, mem)
     | Inr usedIdx \<Rightarrow> outcome_bind (push_entry vq mem usedIdx headIndex writtenLen) (\<lambda>r. case r of
         Inl e \<Rightarrow> Ret (Some e, mem)
       | Inr mem1 \<Rightarrow> outcome_bind (annotate ''virtio: write used.idx'' (Slice mem1 (vq_used vq + 2) 2)) (\<lambda>r. case r of
           Inl e \<Rightarrow> Ret (Some e, mem1)
         | Inr idxBytes \<Rightarrow> Ret (None, put_at (sl_off idxBytes) (le_put 2 (usedIdx + 1)) mem1))))"

subsection \<open>Bounds\<close>

text \<open>Every byte list Go can hold has a length below \<open>2 ^ 63\<close>.\<close>

abbreviation go_size :: "'a list \<Rightarrow> bool" where
  "go_size xs \<equiv> length xs < 2 ^ 63"

lemma uint_add_int:
  fixes addr :: "64 word"
  assumes "0 \<le> len" "len < 2 ^ 63"
  shows "uint (addr + word_of_int len) =
    (if uint addr + len < 2 ^ 64 then uint addr + len else uint addr + len - 2 ^ 64)"
proof -
  have "uint (addr + word_of_int len) = (uint addr + len) mod 2 ^ 64"
    using assms by (simp add: uint_word_ariths uint_word_of_int take_bit_eq_mod mod_add_right_eq)
  moreover have "0 \<le> uint addr" "uint addr < 2 ^ 64" using uint_lt2p [of addr] by auto
  moreover have "(uint addr + len - 2 ^ 64) mod 2 ^ 64 = (uint addr + len) mod 2 ^ 64"
    by (rule minus_mod_self2)
  ultimately show ?thesis using assms
    by (auto simp: mod_pos_pos_trivial simp del: minus_mod_self2)
qed

lemma Slice_cases:
  assumes "go_size mem" "len < 2 ^ 63"
  shows "Slice mem addr len =
    (if len < 0 then Ret (Inl (Errorf ''hypervisor: guest memory out of bounds''))
     else if uint addr + len \<le> int (length mem)
       then Ret (Inr \<lparr>sl_off = unat addr, sl_len = nat len\<rparr>)
     else if 2 ^ 64 \<le> uint addr + len \<and> uint addr + len - 2 ^ 64 \<le> int (length mem)
       then Panic ''slice bounds out of range''
     else Ret (Inl (Errorf ''hypervisor: guest memory out of bounds'')))"
proof (cases "len < 0")
  case True
  then show ?thesis by (simp add: Slice_def)
next
  case False
  have m: "uint (word_of_nat (length mem) :: 64 word) = int (length mem)"
    using assms(1) by (simp add: unsigned_of_nat take_bit_nat_eq_self)
  have le: "uint addr < 2 ^ 64" using uint_lt2p [of addr] by simp
  note sum = uint_add_int [of len addr]
  show ?thesis
  proof (cases "uint addr + len < 2 ^ 64")
    case True
    with False sum assms(2) have s: "uint (addr + word_of_int len) = uint addr + len" by simp
    have "unat (addr + word_of_int len) - unat addr = nat len"
      unfolding unat_eq_nat_uint s using False by (simp add: nat_add_distrib)
    moreover have "word_of_nat (length mem) < addr + word_of_int len \<longleftrightarrow> int (length mem) < uint addr + len"
      unfolding word_less_def s m by (rule refl)
    moreover have "\<not> addr + word_of_int len < addr"
      unfolding word_less_def s using False by linarith
    ultimately show ?thesis using False True assms(1) unfolding Slice_def by auto
  next
    case wrap: False
    with False sum assms(2) have s: "uint (addr + word_of_int len) = uint addr + len - 2 ^ 64" by simp
    have "word_of_nat (length mem) < addr + word_of_int len \<longleftrightarrow> int (length mem) < uint addr + len - 2 ^ 64"
      by (simp only: word_less_def s m)
    moreover have "addr + word_of_int len < addr"
      unfolding word_less_def s using assms(2) by simp
    ultimately show ?thesis using False wrap assms(1)
      unfolding Slice_def by auto
  qed
qed

lemma Slice_ok:
  assumes "go_size mem" "len < 2 ^ 63" "Slice mem addr len = Ret (Inr s)"
  shows "0 \<le> len" "s = \<lparr>sl_off = unat addr, sl_len = nat len\<rparr>" "unat addr + nat len \<le> length mem"
    "slice_in mem s" "length (slice_get mem s) = nat len"
proof -
  from assms(3) have c: "0 \<le> len \<and> uint addr + len \<le> int (length mem) \<and> s = \<lparr>sl_off = unat addr, sl_len = nat len\<rparr>"
    by (simp add: Slice_cases [OF assms(1,2)] split: if_splits)
  then show "0 \<le> len" "s = \<lparr>sl_off = unat addr, sl_len = nat len\<rparr>" by auto
  from c have "int (unat addr + nat len) \<le> int (length mem)" by simp
  then show le: "unat addr + nat len \<le> length mem" by linarith
  with c show "slice_in mem s" "length (slice_get mem s) = nat len"
    by (auto simp: slice_in_def slice_get_def)
qed

lemma Slice_length:
  assumes "length mem' = length mem"
  shows "Slice mem' addr len = Slice mem addr len"
  by (simp add: Slice_def assms)

text \<open>
  C28. The bounds of guest memory: a slice is handed out exactly when the range
  lies inside memory, and then it is that range; a negative length and a range
  that ends past memory are errors. The one exception is a range whose end wraps
  past \<open>2 ^ 64\<close> to an address inside memory: it passes the check and the slice
  expression panics.
\<close>

theorem slice_bounds:
  assumes "length mem < 2 ^ 63" "len < 2 ^ 63"
  shows "((\<exists>s. Slice mem addr len = Ret (Inr s)) \<longleftrightarrow> 0 \<le> len \<and> uint addr + len \<le> int (length mem)) \<and>
    (Slice mem addr len = Ret (Inr s) \<longrightarrow> s = \<lparr>sl_off = unat addr, sl_len = nat len\<rparr>) \<and>
    (panics (Slice mem addr len) \<longleftrightarrow>
      0 \<le> len \<and> 2 ^ 64 \<le> uint addr + len \<and> uint addr + len - 2 ^ 64 \<le> int (length mem))"
  unfolding Slice_cases [OF assms] using assms(1) by (auto split: if_splits)

theorem slice_bounds_witness:
  "panics (Slice (replicate 16 0) 0xFFFFFFFFFFFFFFF8 16) \<and> \<not> panics (Slice (replicate 16 0) 8 8)"
  using slice_bounds [of "replicate 16 0" 16 "0xFFFFFFFFFFFFFFF8"] slice_bounds [of "replicate 16 0" 8 8]
  by simp

subsection \<open>Descriptor chains\<close>

definition segments_in :: "bytes \<Rightarrow> segment list \<Rightarrow> bool" where
  "segments_in mem segs = list_all (\<lambda>g. slice_in mem (seg_data g)) segs"

lemma Slice_uint32: "go_size mem \<Longrightarrow> Slice mem addr (uint (n :: 32 word)) = Ret (Inr s) \<Longrightarrow> slice_in mem s"
  using Slice_ok(4) [of mem "uint n" addr s] uint_lt2p [of n] by simp

lemma chain_loop_result:
  assumes "go_size mem" "segments_in mem segs" "chain_loop n vq mem h idx segs = Ret (Inr c)"
  shows "segments_in mem (segments c) \<and> head_index c = h \<and>
    length segs < length (segments c) \<and> length (segments c) \<le> length segs + n"
  using assms(2,3)
proof (induction n arbitrary: idx segs)
  case 0
  then show ?case by simp
next
  case (Suc n)
  then have "\<exists>g. slice_in mem (seg_data g) \<and> (c = \<lparr>head_index = h, segments = segs @ [g]\<rparr> \<or>
      (\<exists>nxt. chain_loop n vq mem h nxt (segs @ [g]) = Ret (Inr c)))"
    unfolding chain_loop.simps Let_def try_bind_eq_Ret annotate_eq_Ret
    by (auto dest!: Slice_uint32 [OF assms(1)] split: if_splits)
      (metis segment.select_convs(1))+
  then obtain g where g: "slice_in mem (seg_data g)" "c = \<lparr>head_index = h, segments = segs @ [g]\<rparr> \<or>
      (\<exists>nxt. chain_loop n vq mem h nxt (segs @ [g]) = Ret (Inr c))" by blast
  from g(1) Suc.prems(1) have "segments_in mem (segs @ [g])" by (simp add: segments_in_def)
  with g(2) Suc.IH [of "segs @ [g]"] show ?case by fastforce
qed

lemma readChain_result:
  assumes "go_size mem" "readChain vq mem h = Ret (Inr c)"
  shows "segments_in mem (segments c)" "head_index c = h" "segments c \<noteq> []" "length (segments c) \<le> 1024"
  using chain_loop_result [OF assms(1) _ assms(2) [unfolded readChain_def]]
  by (auto simp: segments_in_def maxChainLength_def)

subsection \<open>The available ring\<close>

definition avail_idx :: "virt_queue \<Rightarrow> bytes \<Rightarrow> 16 word" where
  "avail_idx vq mem = le_get (read_at (unat (vq_avail vq + 2)) 2 mem)"

definition avail_off :: "virt_queue \<Rightarrow> 16 word \<Rightarrow> nat" where
  "avail_off vq i = unat (vq_avail vq + 4 + ucast (i mod vq_size vq) * 2)"

definition pending :: "virt_queue \<Rightarrow> bytes \<Rightarrow> (16 word) list" where
  "pending vq mem = map (\<lambda>k. le_get (read_at (avail_off vq (last_avail_idx vq + word_of_nat k)) 2 mem))
     [0..<unat (avail_idx vq mem - last_avail_idx vq)]"

lemma pending_Nil: "pending vq mem = [] \<longleftrightarrow> avail_idx vq mem = last_avail_idx vq"
  by (simp add: pending_def unat_eq_zero)

lemma pending_Cons:
  assumes "avail_idx vq mem \<noteq> last_avail_idx vq"
  shows "pending vq mem = le_get (read_at (avail_off vq (last_avail_idx vq)) 2 mem) #
    pending (vq\<lparr>last_avail_idx := last_avail_idx vq + 1\<rparr>) mem"
proof -
  define d where "d = avail_idx vq mem - last_avail_idx vq"
  have "d \<noteq> 0" using assms by (simp add: d_def)
  then have u: "unat d = Suc (unat (d - 1))" by (simp add: unat_minus_one Suc_pred' unat_gt_0)
  have d1: "avail_idx (vq\<lparr>last_avail_idx := last_avail_idx vq + 1\<rparr>) mem - (last_avail_idx vq + 1) = d - 1"
    by (simp add: d_def avail_idx_def)
  show ?thesis
    unfolding pending_def d_def [symmetric] u
    by (simp add: upt_conv_Cons map_Suc_upt [symmetric] d1 avail_off_def comp_def add.assoc del: upt_Suc)
qed

lemma Pop_result:
  assumes "go_size mem" "Pop vq mem = Ret (Inr (r, vq'))"
  shows "case r of
      None \<Rightarrow> pending vq mem = [] \<and> vq' = vq
    | Some c \<Rightarrow> pending vq mem = head_index c # pending vq' mem \<and>
        vq' = vq\<lparr>last_avail_idx := last_avail_idx vq + 1\<rparr> \<and> segments_in mem (segments c) \<and>
        segments c \<noteq> [] \<and> length (segments c) \<le> 1024"
proof -
  have idx: "avail_idx vq mem = i" if "readAvailIdx vq mem = Ret (Inr i)" for i
    using that Slice_ok(2) [OF assms(1), of 2 "vq_avail vq + 2"]
    by (auto simp: readAvailIdx_def avail_idx_def slice_get_def try_bind_eq_Ret annotate_eq_Ret)
  show ?thesis
  proof (cases "avail_idx vq mem = last_avail_idx vq")
    case True
    with assms(2) idx show ?thesis by (auto simp: Pop_def try_bind_eq_Ret pending_Nil split: if_splits)
  next
    case False
    with assms(2) idx obtain s c where s: "vq_size vq \<noteq> 0"
      "Slice mem (vq_avail vq + 4 + ucast (last_avail_idx vq mod vq_size vq) * 2) 2 = Ret (Inr s)"
      "readChain vq mem (le_get (slice_get mem s)) = Ret (Inr c)"
      "r = Some c" "vq' = vq\<lparr>last_avail_idx := last_avail_idx vq + 1\<rparr>"
      by (auto simp: Pop_def try_bind_eq_Ret annotate_eq_Ret ring_mod_def Let_def split: if_splits)
    from readChain_result [OF assms(1) s(3)] Slice_ok(2) [OF assms(1) _ s(2)] pending_Cons [OF False] s(4,5)
    show ?thesis by (simp add: slice_get_def avail_off_def)
  qed
qed

text \<open>
  The driver's side (virtio 1.1, 2.6.13): it stores a head in the slot its index
  names and then advances the index. The ring lies inside memory and its size
  divides \<open>2 ^ 16\<close>, which is what makes the free-running index name the slots in turn.
\<close>

definition avail_ok :: "virt_queue \<Rightarrow> bytes \<Rightarrow> bool" where
  "avail_ok vq mem = (go_size mem \<and> vq_size vq \<noteq> 0 \<and> unat (vq_size vq) dvd 2 ^ 16 \<and>
     unat (vq_avail vq) + 4 + 2 * unat (vq_size vq) \<le> length mem)"

definition driver_add :: "virt_queue \<Rightarrow> bytes \<Rightarrow> 16 word \<Rightarrow> bytes" where
  "driver_add vq mem h =
     put_at (unat (vq_avail vq + 2)) (le_put 2 (avail_idx vq mem + 1))
       (put_at (avail_off vq (avail_idx vq mem)) (le_put 2 h) mem)"

definition avail_ring :: "virt_queue \<Rightarrow> bytes \<Rightarrow> bytes" where
  "avail_ring vq mem = read_at (unat (vq_avail vq)) (4 + 2 * unat (vq_size vq)) mem"

lemma read_at_read_at: "i + n \<le> k \<Longrightarrow> read_at i n (read_at off k m) = read_at (off + i) n m"
  by (simp add: read_at_def take_drop min_def add.commute)

lemma unat_less_16: "unat (w :: 16 word) < 65536"
  using unsigned_less [where ?'a = nat, of w] by simp

lemma unat_ucast_16_64: "unat (ucast (w :: 16 word) :: 64 word) = unat w"
proof -
  have "unat w < 2 ^ 16" using unsigned_less [of w] by simp
  then have "unat w < 2 ^ 64" by (rule less_trans) simp
  then show ?thesis by (simp add: unsigned_ucast_eq take_bit_nat_eq_self)
qed

lemma avail_bounds:
  assumes "avail_ok vq mem"
  shows "unat (vq_avail vq + 2) = unat (vq_avail vq) + 2"
    "avail_off vq i = unat (vq_avail vq) + 4 + 2 * (unat i mod unat (vq_size vq))"
    "avail_off vq i + 2 \<le> length mem"
    "unat (vq_avail vq) + 4 \<le> length mem"
proof -
  from assms have m: "length mem < 2 ^ 63" and sz: "0 < unat (vq_size vq)"
    and l: "unat (vq_avail vq) + 4 + 2 * unat (vq_size vq) \<le> length mem"
    by (auto simp: avail_ok_def unat_gt_0)
  show "unat (vq_avail vq) + 4 \<le> length mem" using l by simp
  have "unat (vq_avail vq) + 2 < 2 ^ 64" using m l by simp
  then show "unat (vq_avail vq + 2) = unat (vq_avail vq) + 2"
    by (simp add: unat_word_ariths)
  have r: "unat i mod unat (vq_size vq) < unat (vq_size vq)" using sz by simp
  then have lt: "unat (vq_avail vq) + 4 + 2 * (unat i mod unat (vq_size vq)) + 2 \<le> length mem" using l by linarith
  with m have "unat (vq_avail vq) + 4 + unat (i mod vq_size vq) * 2 < 2 ^ 64" by (simp add: unat_mod)
  then show "avail_off vq i = unat (vq_avail vq) + 4 + 2 * (unat i mod unat (vq_size vq))"
    by (simp add: avail_off_def unat_word_ariths(1,2) unat_ucast_16_64 unat_mod)
  with lt show "avail_off vq i + 2 \<le> length mem" by simp
qed

lemma driver_add_ok:
  assumes "avail_ok vq mem"
  shows "length (driver_add vq mem h) = length mem" "avail_ok vq (driver_add vq mem h)"
    "avail_idx vq (driver_add vq mem h) = avail_idx vq mem + 1"
  using assms avail_bounds [OF assms] by (simp_all add: driver_add_def avail_ok_def avail_idx_def)

lemma slots_distinct:
  assumes "unat s dvd 2 ^ 16" "k < n" "n < unat (s :: 16 word)"
  shows "unat (i + word_of_nat k) mod unat s \<noteq> unat ((i :: 16 word) + word_of_nat n) mod unat s"
proof -
  have m: "unat (i + word_of_nat j) mod unat s = (unat i + j) mod unat s" for j
    using assms(1) by (simp add: unat_word_ariths unsigned_of_nat take_bit_eq_mod mod_mod_cancel mod_add_right_eq)
  show ?thesis
  proof
    assume "unat (i + word_of_nat k) mod unat s = unat (i + word_of_nat n) mod unat s"
    then have "unat s dvd (unat i + n) - (unat i + k)"
      unfolding m using assms by (metis add_le_cancel_left less_imp_le mod_eq_dvd_iff_nat)
    with assms show False by (auto dest: dvd_imp_le)
  qed
qed

lemma driver_add_pending:
  assumes "avail_ok vq mem" "length (pending vq mem) < unat (vq_size vq)"
  shows "pending vq (driver_add vq mem h) = pending vq mem @ [h]"
proof -
  note b = avail_bounds [OF assms(1)]
  define n where "n = unat (avail_idx vq mem - last_avail_idx vq)"
  have n: "n < unat (vq_size vq)" using assms(2) by (simp add: pending_def n_def)
  have i: "avail_idx vq mem = last_avail_idx vq + word_of_nat n" by (simp add: n_def)
  have "Suc n < 2 ^ 16" using n unat_less_16 [of "vq_size vq"] by simp
  moreover have "avail_idx vq mem + 1 - last_avail_idx vq = word_of_nat (Suc n)" by (simp add: i)
  ultimately have s: "unat (avail_idx vq mem + 1 - last_avail_idx vq) = Suc n"
    by (simp add: unsigned_of_nat take_bit_nat_eq_self del: of_nat_Suc)
  have d: "unat (vq_size vq) dvd 2 ^ 16" using assms(1) by (simp add: avail_ok_def)
  have old: "read_at (avail_off vq (last_avail_idx vq + word_of_nat k)) 2 (driver_add vq mem h) =
    read_at (avail_off vq (last_avail_idx vq + word_of_nat k)) 2 mem" if "k < n" for k
  proof -
    let ?o = "avail_off vq (last_avail_idx vq + word_of_nat k)" and ?i = "avail_off vq (avail_idx vq mem)"
    have "?o + 2 \<le> ?i \<or> ?i + 2 \<le> ?o"
      using slots_distinct [OF d that n, of "last_avail_idx vq"] unfolding b(2) i by linarith
    moreover have "unat (vq_avail vq + 2) + 2 \<le> ?o" unfolding b(1,2) by simp
    moreover have "?o + 2 \<le> length mem" "?i + 2 \<le> length mem" by (rule b(3))+
    ultimately show ?thesis by (simp add: driver_add_def read_put_other)
  qed
  have new: "read_at (avail_off vq (avail_idx vq mem)) 2 (driver_add vq mem h) = le_put 2 h"
  proof -
    have "unat (vq_avail vq + 2) + 2 \<le> avail_off vq (avail_idx vq mem)" unfolding b(1,2) by simp
    with b(3) [of "avail_idx vq mem"] show ?thesis by (simp add: driver_add_def read_put_other)
  qed
  show ?thesis
    unfolding pending_def driver_add_ok(3) [OF assms(1)] s n_def [symmetric]
    using new unfolding i by (simp add: old)
qed

lemma pending_cong:
  assumes "avail_ok vq mem" "avail_ring vq mem' = avail_ring vq mem"
  shows "pending vq mem' = pending vq mem"
proof -
  note b = avail_bounds [OF assms(1)]
  have r: "read_at (unat (vq_avail vq) + i) 2 mem' = read_at (unat (vq_avail vq) + i) 2 mem"
    if "i + 2 \<le> 4 + 2 * unat (vq_size vq)" for i
    using assms(2) read_at_read_at [OF that] by (metis avail_ring_def)
  have "read_at (avail_off vq i) 2 mem' = read_at (avail_off vq i) 2 mem" for i
  proof -
    have "unat i mod unat (vq_size vq) < unat (vq_size vq)"
      using assms(1) by (simp add: avail_ok_def unat_gt_0)
    then show ?thesis using r [of "4 + 2 * (unat i mod unat (vq_size vq))"] unfolding b(2) by (simp add: add.assoc)
  qed
  moreover have "avail_idx vq mem' = avail_idx vq mem"
    using r [of 2] by (simp add: avail_idx_def b(1))
  ultimately show ?thesis by (simp add: pending_def)
qed

text \<open>
  Driver and device share the ring: the driver adds heads while there is room and
  writes freely elsewhere; the device pops. Both sides keep a log.
\<close>

record ring_run =
  rr_vq :: virt_queue
  rr_mem :: bytes
  rr_added :: "(16 word) list"
  rr_taken :: "(16 word) list"

inductive ring_step :: "ring_run \<Rightarrow> ring_run \<Rightarrow> bool" where
  add: "length (pending (rr_vq s) (rr_mem s)) < unat (vq_size (rr_vq s)) \<Longrightarrow>
    ring_step s (s\<lparr>rr_mem := driver_add (rr_vq s) (rr_mem s) h, rr_added := rr_added s @ [h]\<rparr>)"
| elsewhere: "length mem' = length (rr_mem s) \<Longrightarrow> avail_ring (rr_vq s) mem' = avail_ring (rr_vq s) (rr_mem s) \<Longrightarrow>
    ring_step s (s\<lparr>rr_mem := mem'\<rparr>)"
| pop: "Pop (rr_vq s) (rr_mem s) = Ret (Inr (Some c, vq')) \<Longrightarrow>
    ring_step s (s\<lparr>rr_vq := vq', rr_taken := rr_taken s @ [head_index c]\<rparr>)"

definition ring_inv :: "ring_run \<Rightarrow> bool" where
  "ring_inv s = (avail_ok (rr_vq s) (rr_mem s) \<and>
     rr_added s = rr_taken s @ pending (rr_vq s) (rr_mem s) \<and>
     length (pending (rr_vq s) (rr_mem s)) \<le> unat (vq_size (rr_vq s)))"

lemma ring_step_inv: "ring_step s s' \<Longrightarrow> ring_inv s \<Longrightarrow> ring_inv s'"
proof (induction rule: ring_step.induct)
  case (add s h)
  then show ?case by (simp add: ring_inv_def driver_add_pending driver_add_ok)
next
  case (elsewhere mem' s)
  then show ?case using pending_cong [of "rr_vq s" "rr_mem s" mem']
    by (simp add: ring_inv_def) (simp add: avail_ok_def)
next
  case (pop s c vq')
  then have "length (rr_mem s) < 2 ^ 63" by (simp add: ring_inv_def avail_ok_def)
  from Pop_result [OF this pop.hyps] pop.prems show ?case
    by (simp add: ring_inv_def) (simp add: avail_ok_def)
qed

text \<open>
  C26. The device takes the driver's requests in order, each exactly once: after
  any interleaving of driver additions, other guest writes and successful pops,
  also when the 16-bit indices wrap around, what the driver added is what the
  device took followed by what is pending, and no more than the queue size is
  pending.
\<close>

theorem virtqueue_fifo:
  assumes "avail_ok vq mem" "avail_idx vq mem = last_avail_idx vq"
    and "ring_step\<^sup>*\<^sup>* \<lparr>rr_vq = vq, rr_mem = mem, rr_added = [], rr_taken = []\<rparr> s"
  shows "rr_added s = rr_taken s @ pending (rr_vq s) (rr_mem s) \<and>
    length (pending (rr_vq s) (rr_mem s)) \<le> unat (vq_size (rr_vq s))"
proof -
  have "ring_inv \<lparr>rr_vq = vq, rr_mem = mem, rr_added = [], rr_taken = []\<rparr>"
    using assms(1) pending_Nil [of vq mem] assms(2) by (simp add: ring_inv_def)
  with assms(3) have "ring_inv s"
    by (induction rule: rtranclp_induct) (auto intro: ring_step_inv)
  then show ?thesis by (simp add: ring_inv_def)
qed

text \<open>
  C27. A popped request is safe to serve: its head is the oldest pending one, it
  has between one and 1024 segments, and every segment lies inside guest memory.
  When nothing is pending, nothing is returned and the queue is unchanged.
\<close>

theorem pop_in_memory:
  assumes "length mem < 2 ^ 63" "Pop vq mem = Ret (Inr (r, vq'))"
  shows "case r of None \<Rightarrow> pending vq mem = [] \<and> vq' = vq
    | Some c \<Rightarrow> pending vq mem = head_index c # pending vq' mem \<and>
        1 \<le> length (segments c) \<and> length (segments c) \<le> 1024 \<and>
        list_all (\<lambda>g. sl_off (seg_data g) + sl_len (seg_data g) \<le> length mem) (segments c)"
  using Pop_result [OF assms]
  by (auto simp: segments_in_def slice_in_def Suc_le_eq split: option.splits)

subsection \<open>The used ring\<close>

definition used_idx :: "virt_queue \<Rightarrow> bytes \<Rightarrow> 16 word" where
  "used_idx vq mem = le_get (read_at (unat (vq_used vq + 2)) 2 mem)"

definition used_off :: "virt_queue \<Rightarrow> 16 word \<Rightarrow> nat" where
  "used_off vq i = unat (vq_used vq + 4 + ucast (i mod vq_size vq) * 8)"

definition used_entry :: "virt_queue \<Rightarrow> bytes \<Rightarrow> 16 word \<Rightarrow> 32 word \<times> 32 word" where
  "used_entry vq mem i = (le_get (read_at (used_off vq i) 4 mem), le_get (read_at (used_off vq i + 4) 4 mem))"

lemma unat_add_no_wrap: "unat a + unat b < 2 ^ 64 \<Longrightarrow> unat (a + b) = unat a + unat (b :: 64 word)"
  by (simp add: unat_word_ariths(1))

lemma used_off_after:
  assumes "unat (vq_used vq + 2) + 2 \<le> n" "n < 2 ^ 63"
  shows "used_off vq i = unat (vq_used vq + 2) + 2 + 8 * unat (i mod vq_size vq)"
proof -
  have "unat (i mod vq_size vq) < 65536" by (rule unat_less_16)
  then have lt: "unat (vq_used vq + 2) + (2 + 8 * unat (i mod vq_size vq)) < 2 ^ 64" using assms by simp
  have m: "unat (2 + ucast (i mod vq_size vq) * 8 :: 64 word) = 2 + 8 * unat (i mod vq_size vq)"
    using \<open>unat (i mod vq_size vq) < 65536\<close>
    by (simp add: unat_word_ariths(1,2) unat_ucast_16_64)
  have "vq_used vq + 4 + ucast (i mod vq_size vq) * 8 = (vq_used vq + 2) + (2 + ucast (i mod vq_size vq) * 8)" by simp
  then have "used_off vq i = unat ((vq_used vq + 2) + (2 + ucast (i mod vq_size vq) * 8))"
    unfolding used_off_def by (rule arg_cong)
  also have "\<dots> = unat (vq_used vq + 2) + unat (2 + ucast (i mod vq_size vq) * 8 :: 64 word)"
    by (rule unat_add_no_wrap) (use lt m in simp)
  finally show ?thesis using m by simp
qed

lemma push_entry_result:
  assumes "go_size mem" "readUsedIdx vq mem = Ret (Inr i)" "push_entry vq mem i h n = Ret (Inr mem1)"
  shows "i = used_idx vq mem" "length mem1 = length mem" "used_idx vq mem1 = i"
    "used_entry vq mem1 i = (ucast h, n)"
    "\<And>k. k < length mem \<Longrightarrow> k < used_off vq i \<or> used_off vq i + 8 \<le> k \<Longrightarrow> mem1 ! k = mem ! k"
    "used_off vq i + 8 \<le> length mem" "unat (vq_used vq + 2) + 2 \<le> used_off vq i"
proof -
  from assms(2) obtain b where b: "Slice mem (vq_used vq + 2) 2 = Ret (Inr b)" "i = le_get (slice_get mem b)"
    by (auto simp: readUsedIdx_def try_bind_eq_Ret annotate_eq_Ret)
  note bo = Slice_ok [OF assms(1) _ b(1)]
  from bo(2) b(2) show i: "i = used_idx vq mem" by (simp add: used_idx_def slice_get_def)
  have lo: "unat (vq_used vq + 2) + 2 \<le> length mem" using bo(3) by simp
  have "length mem < 2 ^ 63" using assms(1) .
  note off = used_off_after [OF lo this, of i]
  show le: "unat (vq_used vq + 2) + 2 \<le> used_off vq i" unfolding off by simp
  from assms(3) obtain e where e: "Slice mem (vq_used vq + 4 + ucast (i mod vq_size vq) * 8) 8 = Ret (Inr e)"
    "mem1 = put_at (sl_off e + 4) (le_put 4 n) (put_at (sl_off e) (le_put 4 (ucast h :: 32 word)) mem)"
    by (auto simp: push_entry_def ring_mod_def try_bind_eq_Ret annotate_eq_Ret split: if_splits)
  note eo = Slice_ok [OF assms(1) _ e(1)]
  show hi: "used_off vq i + 8 \<le> length mem" using eo(3) by (simp add: used_off_def)
  have m1: "mem1 = put_at (used_off vq i + 4) (le_put 4 n) (put_at (used_off vq i) (le_put 4 (ucast h :: 32 word)) mem)"
    using e(2) eo(2) by (simp add: used_off_def)
  show "length mem1 = length mem" using hi by (simp add: m1)
  show "used_idx vq mem1 = i" using hi le by (simp add: m1 i used_idx_def read_put_other)
  show "used_entry vq mem1 i = (ucast h, n)" using hi by (simp add: m1 used_entry_def read_put_other)
  show "mem1 ! k = mem ! k" if "k < length mem" "k < used_off vq i \<or> used_off vq i + 8 \<le> k" for k
    using that hi by (auto simp: m1 nth_put_at)
qed

lemma case_result_None:
  "(case r of Inl e \<Rightarrow> Ret (Some e, m) | Inr v \<Rightarrow> f v) = Ret (None, m') \<longleftrightarrow> (\<exists>v. r = Inr v \<and> f v = Ret (None, m'))"
  by (cases r) auto

lemma Push_result:
  assumes "go_size mem" "Push vq mem h n = Ret (None, mem')"
  shows "\<exists>mem1. readUsedIdx vq mem = Ret (Inr (used_idx vq mem)) \<and>
    push_entry vq mem (used_idx vq mem) h n = Ret (Inr mem1) \<and>
    mem' = put_at (unat (vq_used vq + 2)) (le_put 2 (used_idx vq mem + 1)) mem1"
proof -
  from assms(2) obtain i mem1 b where p: "readUsedIdx vq mem = Ret (Inr i)" "push_entry vq mem i h n = Ret (Inr mem1)"
    "Slice mem1 (vq_used vq + 2) 2 = Ret (Inr b)" "mem' = put_at (sl_off b) (le_put 2 (i + 1)) mem1"
    unfolding Push_def by (auto simp: outcome_bind_eq_Ret annotate_eq_Ret case_result_None)
  note e = push_entry_result [OF assms(1) p(1,2)]
  have "go_size mem1" using e(2) assms(1) by simp
  from Slice_ok(2) [OF this _ p(3)] p e(1) show ?thesis by auto
qed

text \<open>
  A push publishes one entry: the slot the index names holds the head and the
  length, the index advances by one with wrap-around, and no byte outside these
  ten changes. The store of the entry comes first: in the memory between the two
  stores the entry is complete and the index still has its old value.
\<close>

theorem push_publishes:
  assumes "length mem < 2 ^ 63" "Push vq mem h n = Ret (None, mem')"
  shows "used_idx vq mem' = used_idx vq mem + 1 \<and> used_entry vq mem' (used_idx vq mem) = (ucast h, n) \<and>
    length mem' = length mem \<and>
    filter (\<lambda>k. mem' ! k \<noteq> mem ! k \<and> \<not> (unat (vq_used vq + 2) \<le> k \<and> k < unat (vq_used vq + 2) + 2) \<and>
      \<not> (used_off vq (used_idx vq mem) \<le> k \<and> k < used_off vq (used_idx vq mem) + 8)) [0..<length mem] = [] \<and>
    (\<exists>mem1. push_entry vq mem (used_idx vq mem) h n = Ret (Inr mem1) \<and> used_idx vq mem1 = used_idx vq mem \<and>
      used_entry vq mem1 (used_idx vq mem) = (ucast h, n) \<and>
      mem' = put_at (unat (vq_used vq + 2)) (le_put 2 (used_idx vq mem + 1)) mem1)"
proof -
  from Push_result [OF assms] obtain mem1 where p: "readUsedIdx vq mem = Ret (Inr (used_idx vq mem))"
    "push_entry vq mem (used_idx vq mem) h n = Ret (Inr mem1)"
    "mem' = put_at (unat (vq_used vq + 2)) (le_put 2 (used_idx vq mem + 1)) mem1" by blast
  note e = push_entry_result [OF assms(1) p(1,2)]
  have "used_idx vq mem' = used_idx vq mem + 1" using e by (simp add: p(3) used_idx_def)
  moreover have "used_entry vq mem' (used_idx vq mem) = (ucast h, n)"
    using e(2,4,6,7) by (simp add: p(3) used_entry_def read_put_other)
  moreover have "length mem' = length mem" using e by (simp add: p(3))
  moreover have "mem' ! k = mem ! k" if "k < length mem"
    "\<not> (unat (vq_used vq + 2) \<le> k \<and> k < unat (vq_used vq + 2) + 2)"
    "\<not> (used_off vq (used_idx vq mem) \<le> k \<and> k < used_off vq (used_idx vq mem) + 8)" for k
    using that e(2,5,6,7) by (auto simp: p(3) nth_put_at)
  then have "filter (\<lambda>k. mem' ! k \<noteq> mem ! k \<and> \<not> (unat (vq_used vq + 2) \<le> k \<and> k < unat (vq_used vq + 2) + 2) \<and>
      \<not> (used_off vq (used_idx vq mem) \<le> k \<and> k < used_off vq (used_idx vq mem) + 8)) [0..<length mem] = []"
    unfolding filter_empty_conv by (metis atLeastLessThan_iff set_upt)
  ultimately show ?thesis using p(2,3) e(3,4) by blast
qed

text \<open>A queue of two entries with one pending request of a single writable segment.\<close>

definition example_vq :: virt_queue where
  "example_vq = \<lparr>vq_size = 2, vq_desc = 0, vq_avail = 32, vq_used = 40, last_avail_idx = 0\<rparr>"

definition example_mem :: bytes where
  "example_mem = [60, 0, 0, 0, 0, 0, 0, 0, 4, 0, 0, 0, 2, 0, 0, 0, 0, 0, 0, 0, 0, 0, 0, 0, 0, 0, 0, 0, 0, 0, 0, 0, 0, 0, 1, 0, 0, 0, 0, 0, 0, 0, 0, 0, 0, 0, 0, 0, 0, 0, 0, 0, 0, 0, 0, 0, 0, 0, 0, 0, 0, 0, 0, 0]"

lemma example_pop:
  "Pop example_vq example_mem = Ret (Inr (Some \<lparr>head_index = 0, segments =
     [\<lparr>seg_data = \<lparr>sl_off = 60, sl_len = 4\<rparr>, seg_writable = True\<rparr>]\<rparr>, example_vq\<lparr>last_avail_idx := 1\<rparr>))"
  by code_simp

lemma example_push: "\<exists>mem'. Push example_vq example_mem 0 5 = Ret (None, mem')"
proof -
  have "(case Push example_vq example_mem 0 5 of Ret (None, _) \<Rightarrow> True | _ \<Rightarrow> False)" by code_simp
  then show ?thesis by (auto split: outcome.splits prod.splits option.splits)
qed

theorem virtqueue_fifo_witness:
  "\<exists>s. ring_step\<^sup>*\<^sup>* \<lparr>rr_vq = example_vq, rr_mem = example_mem[34 := 0], rr_added = [], rr_taken = []\<rparr> s \<and>
     rr_added s = [0] \<and> rr_taken s = [0] \<and> pending (rr_vq s) (rr_mem s) = []"
proof -
  let ?s0 = "\<lparr>rr_vq = example_vq, rr_mem = example_mem[34 := 0], rr_added = [], rr_taken = []\<rparr>"
  let ?s1 = "?s0\<lparr>rr_mem := driver_add (rr_vq ?s0) (rr_mem ?s0) 0, rr_added := rr_added ?s0 @ [0]\<rparr>"
  let ?s2 = "?s1\<lparr>rr_vq := example_vq\<lparr>last_avail_idx := 1\<rparr>, rr_taken := rr_taken ?s1 @ [0]\<rparr>"
  have idx: "avail_idx example_vq (example_mem[34 := 0]) = last_avail_idx example_vq" by code_simp
  have mem: "driver_add example_vq (example_mem[34 := 0]) 0 = example_mem" by code_simp
  have ok: "avail_ok example_vq (example_mem[34 := 0])"
    by (simp add: avail_ok_def example_vq_def example_mem_def)
  have s1: "ring_step ?s0 ?s1"
    by (rule ring_step.add) (use idx in \<open>simp add: pending_def example_vq_def\<close>)
  have s2: "ring_step ?s1 ?s2"
    using ring_step.pop [of ?s1] example_pop mem by fastforce
  have "ring_step\<^sup>*\<^sup>* ?s0 ?s1" using s1 by (rule r_into_rtranclp)
  then have run: "ring_step\<^sup>*\<^sup>* ?s0 ?s2" using s2 by (rule rtranclp.rtrancl_into_rtrancl)
  from virtqueue_fifo [OF ok idx run] run show ?thesis by (intro exI [of _ ?s2]) simp
qed

theorem pop_in_memory_witness:
  "\<exists>c vq'. Pop example_vq example_mem = Ret (Inr (Some c, vq')) \<and>
     pending example_vq example_mem = head_index c # pending vq' example_mem \<and>
     list_all (\<lambda>g. sl_off (seg_data g) + sl_len (seg_data g) \<le> length example_mem) (segments c)"
proof -
  have "length example_mem < 2 ^ 63" by (simp add: example_mem_def)
  from pop_in_memory [OF this example_pop] example_pop show ?thesis by auto
qed

theorem push_publishes_witness:
  "\<exists>mem'. Push example_vq example_mem 0 5 = Ret (None, mem') \<and> used_idx example_vq mem' = used_idx example_vq example_mem + 1 \<and>
     used_entry example_vq mem' (used_idx example_vq example_mem) = (0, 5)"
proof -
  have "length example_mem < 2 ^ 63" by (simp add: example_mem_def)
  with example_push push_publishes [of example_mem example_vq 0 5] show ?thesis by auto
qed

end
