(* ===== verification/Transport.thy ===== *)
theory Transport
  imports VirtQueue
begin

text \<open>
  The virtio-mmio register window (\<^verbatim>\<open>internal/hypervisor/virtio/transport.go\<close>):
  feature negotiation, device status, per-queue registers and the interrupt
  status, as the guest's reads and writes see them. The mutex makes each access
  atomic, so an access is a function on the state.
\<close>

definition ConfigSpaceOffset :: "64 word" where "ConfigSpaceOffset = 0x100"
definition QueueNotifyOffset :: "64 word" where "QueueNotifyOffset = 0x050"

definition QueueNotifyData :: "bytes \<Rightarrow> (32 word) outcome" where
  "QueueNotifyData data =
     (if length data < 4 then Panic ''index out of range'' else Ret (le_get (take 4 data)))"

definition StatusDriverOK :: "8 word" where "StatusDriverOK = 4"
definition UsedBufferInterrupt :: "32 word" where "UsedBufferInterrupt = 1"

record queue =
  q_size :: "32 word"
  q_ready :: bool
  q_desc :: "64 word"
  q_avail :: "64 word"
  q_used :: "64 word"

definition zero_queue :: queue where
  "zero_queue = \<lparr>q_size = 0, q_ready = False, q_desc = 0, q_avail = 0, q_used = 0\<rparr>"

record transport =
  deviceID :: "32 word"
  deviceFeatures :: "64 word"
  numQueues :: nat
  queueMaxSize :: "32 word"
  config :: bytes
  status :: "8 word"
  deviceFeaturesSel :: "32 word"
  driverFeaturesSel :: "32 word"
  driverFeatures :: "64 word"
  queueSel :: "32 word"
  queues :: "queue list"
  interruptStatus :: "32 word"

definition resetLocked :: "transport \<Rightarrow> transport" where
  "resetLocked t = t\<lparr>status := 0, deviceFeaturesSel := 0, driverFeaturesSel := 0, driverFeatures := 0,
     queueSel := 0, queues := replicate (numQueues t) zero_queue, interruptStatus := 0\<rparr>"

definition NewTransport :: "32 word \<Rightarrow> 64 word \<Rightarrow> nat \<Rightarrow> 32 word \<Rightarrow> bytes \<Rightarrow> transport" where
  "NewTransport devID features num maxSize cfg = resetLocked
     \<lparr>deviceID = devID, deviceFeatures = features OR push_bit 32 1, numQueues = num, queueMaxSize = maxSize,
      config = cfg, status = 0, deviceFeaturesSel = 0, driverFeaturesSel = 0, driverFeatures = 0,
      queueSel = 0, queues = [], interruptStatus = 0\<rparr>"

definition selectedQueue :: "transport \<Rightarrow> nat option" where
  "selectedQueue t = (if unat (queueSel t) \<ge> length (queues t) then None else Some (unat (queueSel t)))"

definition featuresPage :: "64 word \<Rightarrow> 32 word \<Rightarrow> 32 word" where
  "featuresPage features sel =
     (if sel = 0 then ucast features else if sel = 1 then ucast (drop_bit 32 features) else 0)"

definition readConfig :: "bytes \<Rightarrow> 64 word \<Rightarrow> bytes \<Rightarrow> bytes" where
  "readConfig src offset data =
     (let zeroed = replicate (length data) 0 in
      if offset \<ge> word_of_nat (length src) then zeroed
      else let tail = drop (unat offset) src in
        take (length data) tail @ drop (length tail) zeroed)"

definition transport_register :: "transport \<Rightarrow> 64 word \<Rightarrow> 32 word" where
  "transport_register t offset =
     (if offset = 0x000 then 0x74726976
      else if offset = 0x004 then 2
      else if offset = 0x008 then deviceID t
      else if offset = 0x00c then 0
      else if offset = 0x010 then featuresPage (deviceFeatures t) (deviceFeaturesSel t)
      else if offset = 0x034 then queueMaxSize t
      else if offset = 0x044 then
        (case selectedQueue t of Some i \<Rightarrow> if q_ready (queues t ! i) then 1 else 0 | None \<Rightarrow> 0)
      else if offset = 0x060 then interruptStatus t
      else if offset = 0x070 then ucast (status t)
      else 0)"

definition transport_Read :: "transport \<Rightarrow> 64 word \<Rightarrow> bytes \<Rightarrow> bytes" where
  "transport_Read t offset data =
     (if offset \<ge> ConfigSpaceOffset then readConfig (config t) (offset - ConfigSpaceOffset) data
      else if length data \<noteq> 4 then data
      else le_put 4 (transport_register t offset))"

definition set_low :: "64 word \<Rightarrow> 32 word \<Rightarrow> 64 word" where
  "set_low x v = (x AND 0xffffffff00000000) OR ucast v"

definition set_high :: "64 word \<Rightarrow> 32 word \<Rightarrow> 64 word" where
  "set_high x v = (x AND 0x00000000ffffffff) OR push_bit 32 (ucast v)"

definition on_queue :: "(queue \<Rightarrow> queue) \<Rightarrow> transport \<Rightarrow> transport" where
  "on_queue f t = (case selectedQueue t of
     None \<Rightarrow> t | Some i \<Rightarrow> t\<lparr>queues := (queues t)[i := f (queues t ! i)]\<rparr>)"

definition write_register :: "transport \<Rightarrow> 64 word \<Rightarrow> 32 word \<Rightarrow> transport" where
  "write_register t offset v =
     (if offset = 0x014 then t\<lparr>deviceFeaturesSel := v\<rparr>
      else if offset = 0x024 then t\<lparr>driverFeaturesSel := v\<rparr>
      else if offset = 0x020 then
        t\<lparr>driverFeatures := (if driverFeaturesSel t = 0 then set_low else set_high) (driverFeatures t) v\<rparr>
      else if offset = 0x030 then t\<lparr>queueSel := v\<rparr>
      else if offset = 0x038 then
        on_queue (\<lambda>q. if v > 0 \<and> v \<le> queueMaxSize t then q\<lparr>q_size := v\<rparr> else q) t
      else if offset = 0x044 then on_queue (\<lambda>q. q\<lparr>q_ready := (v AND 1 \<noteq> 0)\<rparr>) t
      else if offset = 0x064 then t\<lparr>interruptStatus := interruptStatus t AND NOT v\<rparr>
      else if offset = 0x070 then (if v = 0 then resetLocked t else t\<lparr>status := ucast v\<rparr>)
      else if offset = 0x080 then on_queue (\<lambda>q. q\<lparr>q_desc := set_low (q_desc q) v\<rparr>) t
      else if offset = 0x084 then on_queue (\<lambda>q. q\<lparr>q_desc := set_high (q_desc q) v\<rparr>) t
      else if offset = 0x090 then on_queue (\<lambda>q. q\<lparr>q_avail := set_low (q_avail q) v\<rparr>) t
      else if offset = 0x094 then on_queue (\<lambda>q. q\<lparr>q_avail := set_high (q_avail q) v\<rparr>) t
      else if offset = 0x0a0 then on_queue (\<lambda>q. q\<lparr>q_used := set_low (q_used q) v\<rparr>) t
      else if offset = 0x0a4 then on_queue (\<lambda>q. q\<lparr>q_used := set_high (q_used q) v\<rparr>) t
      else t)"

definition transport_Write :: "transport \<Rightarrow> 64 word \<Rightarrow> bytes \<Rightarrow> transport" where
  "transport_Write t offset data =
     (if offset \<ge> ConfigSpaceOffset then t
      else if length data \<noteq> 4 then t
      else write_register t offset (le_get data))"

definition IsDriverOK :: "transport \<Rightarrow> bool" where
  "IsDriverOK t = (status t AND StatusDriverOK \<noteq> 0)"

definition transport_Queue :: "transport \<Rightarrow> int \<Rightarrow> queue" where
  "transport_Queue t idx = (if idx < 0 \<or> idx \<ge> int (length (queues t)) then zero_queue else queues t ! nat idx)"

definition RaiseUsedBufferInterrupt :: "transport \<Rightarrow> transport" where
  "RaiseUsedBufferInterrupt t = t\<lparr>interruptStatus := interruptStatus t OR UsedBufferInterrupt\<rparr>"

text \<open>A queue of the transport, wrapped for processing.\<close>

definition NewVirtQueue :: "queue \<Rightarrow> virt_queue" where
  "NewVirtQueue q = \<lparr>vq_size = ucast (q_size q), vq_desc = q_desc q, vq_avail = q_avail q,
     vq_used = q_used q, last_avail_idx = 0\<rparr>"

subsection \<open>What every guest leaves in place\<close>

text \<open>
  An access sequence: the guest's register writes and the device raising its
  interrupt, in any order.
\<close>

datatype transport_event = GuestWrite "64 word" bytes | RaiseUsed

fun guest_event :: "transport_event \<Rightarrow> transport \<Rightarrow> transport" where
  "guest_event (GuestWrite off data) t = transport_Write t off data"
| "guest_event RaiseUsed t = RaiseUsedBufferInterrupt t"

definition same_device :: "transport \<Rightarrow> transport \<Rightarrow> bool" where
  "same_device t t' = (deviceID t' = deviceID t \<and> deviceFeatures t' = deviceFeatures t \<and>
     numQueues t' = numQueues t \<and> queueMaxSize t' = queueMaxSize t \<and> config t' = config t)"

definition queues_ok :: "transport \<Rightarrow> bool" where
  "queues_ok t = (length (queues t) = numQueues t \<and> list_all (\<lambda>q. q_size q \<le> queueMaxSize t) (queues t))"

lemma on_queue_same: "same_device t (on_queue f t)"
  by (simp add: on_queue_def same_device_def split: option.splits)

lemma on_queue_ok:
  assumes "queues_ok t" "\<And>q. q_size q \<le> queueMaxSize t \<Longrightarrow> q_size (f q) \<le> queueMaxSize t"
  shows "queues_ok (on_queue f t)"
  using assms
  by (auto simp: queues_ok_def on_queue_def selectedQueue_def list_all_length nth_list_update split: option.splits if_splits)

lemma reset_ok: "same_device t (resetLocked t)" "queues_ok (resetLocked t)"
  by (simp_all add: same_device_def resetLocked_def queues_ok_def list_all_length zero_queue_def)

lemma write_register_same: "same_device t (write_register t off v)"
  using on_queue_same reset_ok(1) [of t] by (simp add: write_register_def same_device_def)

lemma write_register_ok: "queues_ok t \<Longrightarrow> queues_ok (write_register t off v)"
  using reset_ok(2) [of t] unfolding write_register_def
  by (auto intro!: on_queue_ok) (auto simp: queues_ok_def)

lemma transport_event_ok:
  "same_device t (guest_event e t)" "queues_ok t \<Longrightarrow> queues_ok (guest_event e t)"
  using write_register_same write_register_ok
  by (cases e; auto simp: transport_Write_def RaiseUsedBufferInterrupt_def same_device_def queues_ok_def)+

lemma transport_events_ok:
  "same_device t (fold guest_event es t) \<and> (queues_ok t \<longrightarrow> queues_ok (fold guest_event es t))"
proof (induction es arbitrary: t)
  case Nil
  then show ?case by (simp add: same_device_def)
next
  case (Cons e es)
  from Cons [of "guest_event e t"] transport_event_ok [of t e] show ?case
    by (auto simp: same_device_def)
qed

lemma NewTransport_ok: "queues_ok (NewTransport devID features num maxSize cfg)"
  by (simp add: NewTransport_def reset_ok)

text \<open>
  C29. Whatever a guest writes to its register window, in whatever order, the
  device keeps its identity, its offered features, its number of queues, its
  maximal queue size and its config space, every queue register is within the
  advertised maximum, and writing 0 to the status register returns the window to
  exactly its power-on state.
\<close>

theorem guest_keeps_device:
  "let fresh = NewTransport devID features num maxSize cfg; t = fold guest_event es fresh in
     deviceID t = devID \<and> deviceFeatures t = features OR push_bit 32 1 \<and> config t = cfg \<and>
     length (queues t) = num \<and> queueMaxSize t = maxSize \<and>
     list_all (\<lambda>q. q_size q \<le> maxSize) (queues t) \<and>
     transport_Write t 0x070 (le_put 4 (0 :: 32 word)) = fresh"
proof -
  define fresh where "fresh = NewTransport devID features num maxSize cfg"
  define t where "t = fold guest_event es fresh"
  have s: "same_device fresh t" "queues_ok t"
    using transport_events_ok [of fresh es] NewTransport_ok by (auto simp: t_def fresh_def)
  have "transport_Write t 0x070 (le_put 4 (0 :: 32 word)) = resetLocked t"
    by (simp add: transport_Write_def write_register_def ConfigSpaceOffset_def)
  also have "\<dots> = fresh"
    using s(1) by (auto simp: same_device_def fresh_def NewTransport_def resetLocked_def
        intro!: transport.equality)
  finally show ?thesis
    using s by (simp add: Let_def fresh_def [symmetric] t_def [symmetric])
      (simp add: same_device_def queues_ok_def fresh_def NewTransport_def resetLocked_def)
qed

subsection \<open>Configuring a queue\<close>

lemma set_low_high: "set_high (set_low x (ucast y)) (ucast (drop_bit 32 y)) = (y :: 64 word)"
proof -
  have m: "0x00000000ffffffff = (mask 32 :: 64 word)" "0xffffffff00000000 = (NOT (mask 32) :: 64 word)"
    by (simp_all add: mask_eq_exp_minus_1)
  show ?thesis
    unfolding set_low_def set_high_def m
    by (rule bit_word_eqI) (auto simp: bit_simps)
qed

text \<open>The register writes with which a driver configures queue \<open>i\<close>.\<close>

definition setup_queue :: "32 word \<Rightarrow> 32 word \<Rightarrow> 64 word \<Rightarrow> 64 word \<Rightarrow> 64 word \<Rightarrow> (64 word \<times> 32 word) list" where
  "setup_queue i n d a u = [(0x030, i), (0x038, n),
     (0x080, ucast d), (0x084, ucast (drop_bit 32 d)),
     (0x090, ucast a), (0x094, ucast (drop_bit 32 a)),
     (0x0a0, ucast u), (0x0a4, ucast (drop_bit 32 u)), (0x044, 1)]"

definition write_all :: "(64 word \<times> 32 word) list \<Rightarrow> transport \<Rightarrow> transport" where
  "write_all ws t = fold (\<lambda>(off, v) t. transport_Write t off (le_put 4 v)) ws t"

lemma write_all_simps [simp]:
  "write_all [] t = t"
  "off < 0x100 \<Longrightarrow> write_all ((off, v) # ws) t = write_all ws (write_register t off v)"
  by (auto simp: write_all_def transport_Write_def ConfigSpaceOffset_def not_le [symmetric])

lemma on_queue_selected:
  assumes "i < length (queues t)" "unat (queueSel t) = i"
  shows "on_queue f t = t\<lparr>queues := (queues t)[i := f (queues t ! i)]\<rparr>"
  using assms by (simp add: on_queue_def selectedQueue_def)

text \<open>
  C30. A queue the driver configures through the paged registers is the queue the
  device sees: its size, its three 64-bit ring addresses and its ready flag are
  exactly what was written in halves, the ready register reads back 1, and every
  other queue is as it was.
\<close>

theorem queue_setup_roundtrip:
  assumes "unat i < length (queues t)" "0 < n" "n \<le> queueMaxSize t"
  shows "let t' = write_all (setup_queue i n d a u) t in
    transport_Queue t' (uint i) = \<lparr>q_size = n, q_ready = True, q_desc = d, q_avail = a, q_used = u\<rparr> \<and>
    transport_Read t' 0x044 [0, 0, 0, 0] = le_put 4 (1 :: 32 word) \<and>
    (j \<noteq> uint i \<longrightarrow> transport_Queue t' j = transport_Queue t j)"
proof -
  let ?q = "\<lparr>q_size = n, q_ready = True, q_desc = d, q_avail = a, q_used = u\<rparr>"
  have t': "write_all (setup_queue i n d a u) t = t\<lparr>queueSel := i, queues := (queues t)[unat i := ?q]\<rparr>"
    using assms
    by (simp add: setup_queue_def write_register_def on_queue_selected [where i = "unat i"] set_low_high)
      (auto intro!: transport.equality arg_cong [where f = "list_update (queues t) (unat i)"] queue.equality)
  have "nat j \<noteq> unat i" if "0 \<le> j" "j \<noteq> uint i"
    using that by (metis int_nat_eq uint_nat)
  moreover have "uint i < int (length (queues t))" using assms(1) by (metis of_nat_less_iff uint_nat)
  ultimately show ?thesis using assms(1)
    unfolding t' Let_def
    by (auto simp: transport_Queue_def transport_Read_def transport_register_def selectedQueue_def
        ConfigSpaceOffset_def nat_less_iff)
qed

theorem queue_setup_roundtrip_witness:
  "transport_Queue (write_all (setup_queue 0 256 0x100001000 0x2000 0x3000) (NewTransport 2 0 1 256 [])) 0 =
     \<lparr>q_size = 256, q_ready = True, q_desc = 0x100001000, q_avail = 0x2000, q_used = 0x3000\<rparr>"
  using queue_setup_roundtrip [of 0 "NewTransport 2 0 1 256 []" 256 "0x100001000" "0x2000" "0x3000" 1]
  by (simp add: NewTransport_def resetLocked_def Let_def)

end
