(* ===== verification/Blk.thy ===== *)
theory Blk
  imports Transport "HOL-Library.Signed_Division"
begin

text \<open>
  The virtio block device (\<^verbatim>\<open>internal/hypervisor/virtio/blk.go\<close>). Segments are
  slices of guest memory, so a request that reads into overlapping or read-only
  segments does what the source does. The backend is the source's interface, with
  the operating system's file as its instance. The loop over the queue ends when
  the queue is empty, which the guest controls, so it carries fuel and says
  whether it stopped, crashed or is still running.
\<close>

subsection \<open>Backends\<close>

definition EOF :: error where "EOF = Errorf ''EOF''"

record 'd backend_ops =
  be_ReadAt :: "'d \<Rightarrow> nat \<Rightarrow> int \<Rightarrow> bytes \<times> error option"
  be_WriteAt :: "'d \<Rightarrow> bytes \<Rightarrow> int \<Rightarrow> (nat \<times> error option) \<times> 'd"
  be_Sync :: "'d \<Rightarrow> error option \<times> 'd"

text \<open>
  A regular file: a read stops at the end of the file and then reports
  \<^verbatim>\<open>io.EOF\<close>; a write past the end grows the file, with zeros in the gap.
\<close>

definition file_write :: "nat \<Rightarrow> bytes \<Rightarrow> bytes \<Rightarrow> bytes" where
  "file_write off data f = (if data = [] then f
     else take off f @ replicate (off - length f) 0 @ data @ drop (off + length data) f)"

definition os_file :: "bytes backend_ops" where
  "os_file = \<lparr>
     be_ReadAt = (\<lambda>f n off. if off < 0 then ([], Some (Errorf ''negative offset''))
       else let got = take n (drop (nat off) f) in (got, if length got < n then Some EOF else None)),
     be_WriteAt = (\<lambda>f data off. if off < 0 then ((0, Some (Errorf ''negative offset'')), f)
       else ((length data, None), file_write (nat off) data f)),
     be_Sync = (\<lambda>f. (None, f))\<rparr>"

subsection \<open>The device\<close>

definition blkQueueIndex :: nat where "blkQueueIndex = 0"
definition blkReqHeaderSize :: nat where "blkReqHeaderSize = 16"
definition blkTypeIn :: "32 word" where "blkTypeIn = 0"
definition blkTypeOut :: "32 word" where "blkTypeOut = 1"
definition blkTypeFlush :: "32 word" where "blkTypeFlush = 4"
definition blkStatusOK :: byte where "blkStatusOK = 0"
definition blkStatusIOErr :: byte where "blkStatusIOErr = 1"
definition blkStatusUnsupp :: byte where "blkStatusUnsupp = 2"

lemmas blk_consts = blkQueueIndex_def blkReqHeaderSize_def blkTypeIn_def blkTypeOut_def blkTypeFlush_def
  blkStatusOK_def blkStatusIOErr_def blkStatusUnsupp_def

record 'd blk =
  blk_transport :: transport
  blk_ops :: "'d backend_ops"
  blk_backend :: 'd
  blk_readonly :: bool
  blk_queue :: "virt_queue option"
  blk_queueAddr :: "64 word"
  blk_interrupts :: nat

definition NewBlk :: "'d backend_ops \<Rightarrow> 'd \<Rightarrow> int \<Rightarrow> bool \<Rightarrow> 'd blk" where
  "NewBlk ops d capacityBytes ro = \<lparr>
     blk_transport = NewTransport 2 0 1 256 (le_put 8 (word_of_int (capacityBytes sdiv 512) :: 64 word)),
     blk_ops = ops, blk_backend = d, blk_readonly = ro, blk_queue = None, blk_queueAddr = 0, blk_interrupts = 0\<rparr>"

definition blk_ensureQueue :: "'d blk \<Rightarrow> 'd blk" where
  "blk_ensureQueue b = (let q = transport_Queue (blk_transport b) (int blkQueueIndex) in
     if q_ready q \<and> q_avail q \<noteq> blk_queueAddr b
     then b\<lparr>blk_queue := Some (NewVirtQueue q), blk_queueAddr := q_avail q\<rparr> else b)"

fun exec_in :: "'d backend_ops \<Rightarrow> 'd \<Rightarrow> bytes \<Rightarrow> int \<Rightarrow> segment list \<Rightarrow> 32 word \<Rightarrow> byte \<times> 32 word \<times> bytes" where
  "exec_in ops d mem offset [] written = (blkStatusOK, written, mem)"
| "exec_in ops d mem offset (s # ss) written =
     (case be_ReadAt ops d (sl_len (seg_data s)) offset of (got, err) \<Rightarrow>
        let mem' = put_at (sl_off (seg_data s)) got mem;
            written' = written + word_of_nat (length got);
            offset' = i64 (offset + int (length got))
        in case err of
             Some e \<Rightarrow> if errors_is e EOF then exec_in ops d mem' offset' ss written'
               else (blkStatusIOErr, written', mem')
           | None \<Rightarrow> exec_in ops d mem' offset' ss written')"

fun exec_out :: "'d backend_ops \<Rightarrow> 'd \<Rightarrow> bytes \<Rightarrow> int \<Rightarrow> segment list \<Rightarrow> byte \<times> 'd" where
  "exec_out ops d mem offset [] = (blkStatusOK, d)"
| "exec_out ops d mem offset (s # ss) =
     (case be_WriteAt ops d (slice_get mem (seg_data s)) offset of
        ((n, Some e), d') \<Rightarrow> (blkStatusIOErr, d')
      | ((n, None), d') \<Rightarrow> exec_out ops d' mem (i64 (offset + int n)) ss)"

definition execute :: "'d blk \<Rightarrow> bytes \<Rightarrow> 32 word \<Rightarrow> int \<Rightarrow> segment list \<Rightarrow> byte \<times> 32 word \<times> 'd \<times> bytes" where
  "execute b mem reqType offset data =
     (if reqType = blkTypeIn then
        (case exec_in (blk_ops b) (blk_backend b) mem offset data 0 of (st, n, mem') \<Rightarrow> (st, n, blk_backend b, mem'))
      else if reqType = blkTypeOut then
        (if blk_readonly b then (blkStatusIOErr, 0, blk_backend b, mem)
         else case exec_out (blk_ops b) (blk_backend b) mem offset data of (st, d') \<Rightarrow> (st, 0, d', mem))
      else if reqType = blkTypeFlush then
        (case be_Sync (blk_ops b) (blk_backend b) of
           (Some e, d') \<Rightarrow> (blkStatusIOErr, 0, d', mem)
         | (None, d') \<Rightarrow> (blkStatusOK, 0, d', mem))
      else (blkStatusUnsupp, 0, blk_backend b, mem))"

definition handleRequest :: "'d blk \<Rightarrow> bytes \<Rightarrow> chain \<Rightarrow> 32 word \<times> 'd \<times> bytes" where
  "handleRequest b mem c =
     (if length (segments c) < 2 then (0, blk_backend b, mem)
      else let header = seg_data (hd (segments c));
               stat = seg_data (last (segments c));
               data = butlast (tl (segments c))
        in if sl_len header < blkReqHeaderSize \<or> sl_len stat < 1 then (0, blk_backend b, mem)
           else let h = slice_get mem header;
                    reqType = le_get (read_at 0 4 h);
                    sector = le_get (read_at 8 8 h) :: 64 word
             in if sector > 0x3fffffffffffff
                then (1, blk_backend b, put_at (sl_off stat) [blkStatusIOErr] mem)
                else (case execute b mem reqType (uint sector * 512) data of
                  (statusCode, written, d', mem') \<Rightarrow>
                    (written + 1, d', put_at (sl_off stat) [statusCode] mem')))"

subsection \<open>Queue notifications\<close>

datatype drain_status = Running | Stopped | Crashed string

fun blk_drain :: "nat \<Rightarrow> 'd blk \<Rightarrow> virt_queue \<Rightarrow> bytes \<Rightarrow> bool \<Rightarrow> drain_status \<times> 'd blk \<times> virt_queue \<times> bytes \<times> bool" where
  "blk_drain 0 b vq mem handled = (Running, b, vq, mem, handled)"
| "blk_drain (Suc n) b vq mem handled =
     (case Pop vq mem of
        Panic m \<Rightarrow> (Crashed m, b, vq, mem, handled)
      | Ret (Inl e) \<Rightarrow> (Stopped, b, vq, mem, handled)
      | Ret (Inr (None, vq')) \<Rightarrow> (Stopped, b, vq', mem, handled)
      | Ret (Inr (Some c, vq')) \<Rightarrow>
          (case handleRequest b mem c of (written, d', mem') \<Rightarrow>
             let b' = b\<lparr>blk_backend := d'\<rparr> in
             (case Push vq' mem' (head_index c) written of
                Panic m \<Rightarrow> (Crashed m, b', vq', mem', handled)
              | Ret (Some e, mem'') \<Rightarrow> (Stopped, b', vq', mem'', handled)
              | Ret (None, mem'') \<Rightarrow> blk_drain n b' vq' mem'' True)))"

definition blk_HandleNotify :: "nat \<Rightarrow> 32 word \<Rightarrow> 'd blk \<Rightarrow> bytes \<Rightarrow> drain_status \<times> 'd blk \<times> bytes" where
  "blk_HandleNotify fuel queueIdx b mem =
     (if queueIdx \<noteq> word_of_nat blkQueueIndex then (Stopped, b, mem)
      else let b1 = blk_ensureQueue b in
        case blk_queue b1 of
          None \<Rightarrow> (Stopped, b1, mem)
        | Some vq \<Rightarrow> (case blk_drain fuel b1 vq mem False of (st, b2, vq', mem', handled) \<Rightarrow>
            let b3 = b2\<lparr>blk_queue := Some vq'\<rparr> in
            (st, if st = Stopped \<and> handled
                 then b3\<lparr>blk_transport := RaiseUsedBufferInterrupt (blk_transport b3),
                         blk_interrupts := blk_interrupts b3 + 1\<rparr> else b3, mem')))"

subsection \<open>The contract of a backend\<close>

lemma file_write_append: "file_write (off + length x) y (file_write off x f) = file_write off (x @ y) f"
  by (auto simp: file_write_def min_def not_le ac_simps)

lemma length_file_write: "length (file_write off data f) = (if data = [] then length f else max (length f) (off + length data))"
  by (auto simp: file_write_def max_def min_def)

lemma read_file_write: "data \<noteq> [] \<Longrightarrow> take (length data) (drop off (file_write off data f)) = data"
  by (auto simp: file_write_def min_def)

definition apart :: "slice \<Rightarrow> slice \<Rightarrow> bool" where
  "apart s t = (sl_off s + sl_len s \<le> sl_off t \<or> sl_off t + sl_len t \<le> sl_off s)"

fun disjoint_slices :: "slice list \<Rightarrow> bool" where
  "disjoint_slices [] = True"
| "disjoint_slices (s # ss) = (list_all (apart s) ss \<and> disjoint_slices ss)"

lemma slice_get_put_apart:
  assumes "length got \<le> sl_len s" "slice_in mem s" "slice_in mem t" "apart s t"
  shows "slice_get (put_at (sl_off s) got mem) t = slice_get mem t"
  using assms unfolding slice_get_def
  by (intro read_put_other) (auto simp: slice_in_def apart_def)

definition seg_total :: "segment list \<Rightarrow> nat" where
  "seg_total ss = sum_list (map (\<lambda>s. sl_len (seg_data s)) ss)"

lemma seg_total_simps [simp]: "seg_total [] = 0" "seg_total (s # ss) = sl_len (seg_data s) + seg_total ss"
  by (simp_all add: seg_total_def)

definition gather :: "bytes \<Rightarrow> segment list \<Rightarrow> bytes" where
  "gather mem ss = concat (map (\<lambda>s. slice_get mem (seg_data s)) ss)"

lemma gather_simps [simp]: "gather mem [] = []" "gather mem (s # ss) = slice_get mem (seg_data s) @ gather mem ss"
  by (simp_all add: gather_def)

lemma length_gather: "segments_in mem ss \<Longrightarrow> length (gather mem ss) = seg_total ss"
  by (induction ss) (auto simp: segments_in_def slice_in_def slice_get_def)

text \<open>A well-formed request: a header, data segments and a status segment.\<close>

definition blk_request :: "bytes \<Rightarrow> chain \<Rightarrow> 32 word \<Rightarrow> 64 word \<Rightarrow> segment list \<Rightarrow> slice \<Rightarrow> bool" where
  "blk_request mem c ty sector data st = (2 \<le> length (segments c) \<and> data = butlast (tl (segments c)) \<and>
     st = seg_data (last (segments c)) \<and> 16 \<le> sl_len (seg_data (hd (segments c))) \<and> 1 \<le> sl_len st \<and>
     segments_in mem (segments c) \<and>
     le_get (read_at 0 4 (slice_get mem (seg_data (hd (segments c))))) = ty \<and>
     le_get (read_at 8 8 (slice_get mem (seg_data (hd (segments c))))) = sector \<and>
     uint sector * 512 + int (seg_total data) < 2 ^ 63)"

lemma blk_request_parts:
  assumes "blk_request mem c ty sector data st"
  shows "segments_in mem data" "slice_in mem st" "sl_off st < length mem" "\<not> sector > 0x3fffffffffffff"
    "nat (uint sector * 512) = unat sector * 512" "uint sector * 512 + int (seg_total data) < 2 ^ 63"
proof -
  show lt: "uint sector * 512 + int (seg_total data) < 2 ^ 63" using assms unfolding blk_request_def by blast
  have ne: "segments c \<noteq> []" using assms by (auto simp: blk_request_def)
  then have "set data \<subseteq> set (segments c)"
    using assms by (auto simp: blk_request_def dest!: in_set_butlastD list.set_sel(2) [rotated])
  then show "segments_in mem data" using assms by (auto simp: blk_request_def segments_in_def list_all_iff)
  show st: "slice_in mem st" using assms ne by (auto simp: blk_request_def segments_in_def list_all_iff)
  with assms show "sl_off st < length mem" by (auto simp: blk_request_def slice_in_def)
  have "uint sector * 512 < 2 ^ 63" using lt by linarith
  then have "uint sector \<le> uint (0x3fffffffffffff :: 64 word)" by simp
  then show "\<not> sector > 0x3fffffffffffff" unfolding word_less_def by linarith
  show "nat (uint sector * 512) = unat sector * 512" by (simp add: nat_mult_distrib)
qed

lemma handleRequest_request:
  assumes "blk_request mem c ty sector data st"
  shows "handleRequest b mem c = (case execute b mem ty (uint sector * 512) data of
    (statusCode, written, d', mem') \<Rightarrow> (written + 1, d', put_at (sl_off st) [statusCode] mem'))"
  using assms blk_request_parts(4) [OF assms]
  by (auto simp: blk_request_def handleRequest_def Let_def blk_consts not_less)

lemma blk_drain_Suc:
  assumes "blk_drain (Suc n) b vq mem handled = (st, b', vq', mem', handled')"
  shows "b' = b \<or> (\<exists>c w d1 m1. handleRequest b mem c = (w, d1, m1) \<and> b' = b\<lparr>blk_backend := d1\<rparr>) \<or>
    (\<exists>c w d1 m1 vq1 m2. handleRequest b mem c = (w, d1, m1) \<and>
       blk_drain n (b\<lparr>blk_backend := d1\<rparr>) vq1 m2 True = (st, b', vq', mem', handled'))"
proof (cases "Pop vq mem")
  case (Panic m)
  with assms show ?thesis by simp
next
  case (Ret r)
  show ?thesis
  proof (cases "\<exists>c vq1. r = Inr (Some c, vq1)")
    case False
    with assms Ret show ?thesis by (auto split: sum.splits prod.splits option.splits)
  next
    case True
    then obtain c vq1 where c: "r = Inr (Some c, vq1)" by blast
    obtain w d1 m1 where h: "handleRequest b mem c = (w, d1, m1)" by (cases "handleRequest b mem c")
    from assms Ret c h show ?thesis
      by (simp add: Let_def split: outcome.splits prod.splits option.splits) blast+
  qed
qed

locale block_backend =
  fixes ops :: "'d backend_ops" and content :: "'d \<Rightarrow> bytes"
  assumes read_law: "0 \<le> off \<Longrightarrow> be_ReadAt ops d n off =
      (take n (drop (nat off) (content d)),
       if length (take n (drop (nat off) (content d))) < n then Some EOF else None)"
    and write_law: "0 \<le> off \<Longrightarrow> \<exists>d'. be_WriteAt ops d data off = ((length data, None), d') \<and>
      content d' = file_write (nat off) data (content d)"
    and sync_law: "\<exists>d'. be_Sync ops d = (None, d') \<and> content d' = content d"
begin

lemma exec_out_ok:
  assumes "0 \<le> off" "off + int (seg_total ss) < 2 ^ 63" "segments_in mem ss"
  shows "\<exists>d'. exec_out ops d mem off ss = (blkStatusOK, d') \<and>
    content d' = file_write (nat off) (gather mem ss) (content d)"
  using assms
proof (induction ss arbitrary: d off)
  case Nil
  then show ?case by (simp add: file_write_def)
next
  case (Cons s ss)
  let ?x = "slice_get mem (seg_data s)" and ?y = "gather mem ss"
  have len: "length ?x = sl_len (seg_data s)"
    using Cons.prems(3) by (simp add: segments_in_def slice_in_def slice_get_def)
  obtain d1 where d1: "be_WriteAt ops d ?x off = ((length ?x, None), d1)"
    "content d1 = file_write (nat off) ?x (content d)"
    using write_law Cons.prems(1) by blast
  from Cons.prems len have o: "i64 (off + int (length ?x)) = off + int (length ?x)" by simp
  from Cons.IH [of "off + int (length ?x)" d1] Cons.prems len obtain d2 where
    d2: "exec_out ops d1 mem (off + int (length ?x)) ss = (blkStatusOK, d2)"
    "content d2 = file_write (nat (off + int (length ?x))) ?y (content d1)"
    by (auto simp: segments_in_def)
  have "nat (off + int (length ?x)) = nat off + length ?x" using Cons.prems(1) by simp
  with d1 d2 o show ?case
    by (auto simp: file_write_append)
qed

lemma exec_in_ok:
  assumes "0 \<le> off" "off + int (seg_total ss) < 2 ^ 63" "nat off + seg_total ss \<le> length (content d)"
    and "segments_in mem ss" "disjoint_slices (map seg_data ss)"
  shows "\<exists>mem'. exec_in ops d mem off ss n = (blkStatusOK, n + word_of_nat (seg_total ss), mem') \<and>
    gather mem' ss = take (seg_total ss) (drop (nat off) (content d)) \<and> length mem' = length mem \<and>
    (\<forall>t. slice_in mem t \<and> list_all (\<lambda>s. apart (seg_data s) t) ss \<longrightarrow> slice_get mem' t = slice_get mem t)"
  using assms
proof (induction ss arbitrary: mem off n)
  case Nil
  then show ?case by simp
next
  case (Cons s ss)
  let ?s = "seg_data s" and ?got = "take (sl_len (seg_data s)) (drop (nat off) (content d))"
  let ?m = "put_at (sl_off ?s) ?got mem"
  have len: "length ?got = sl_len ?s" and in_s: "slice_in mem ?s" using Cons.prems by (auto simp: segments_in_def)
  then have lm: "length ?m = length mem" by (simp add: slice_in_def)
  have rd: "be_ReadAt ops d (sl_len ?s) off = (?got, None)"
    using read_law [OF Cons.prems(1), of d "sl_len ?s"] len by simp
  have o: "i64 (off + int (length ?got)) = off + int (sl_len ?s)" using Cons.prems len by simp
  have no: "nat (off + int (sl_len ?s)) = nat off + sl_len ?s" using Cons.prems(1) by simp
  from Cons.prems lm no have "\<exists>mem'. exec_in ops d ?m (off + int (sl_len ?s)) ss (n + word_of_nat (sl_len ?s)) =
      (blkStatusOK, n + word_of_nat (sl_len ?s) + word_of_nat (seg_total ss), mem') \<and>
    gather mem' ss = take (seg_total ss) (drop (nat off + sl_len ?s) (content d)) \<and> length mem' = length ?m \<and>
    (\<forall>t. slice_in ?m t \<and> list_all (\<lambda>s. apart (seg_data s) t) ss \<longrightarrow> slice_get mem' t = slice_get ?m t)"
    using Cons.IH [of "off + int (sl_len ?s)" ?m "n + word_of_nat (sl_len ?s)"]
    by (simp add: segments_in_def slice_in_def)
  then obtain mem' where m': "exec_in ops d ?m (off + int (sl_len ?s)) ss (n + word_of_nat (sl_len ?s)) =
      (blkStatusOK, n + word_of_nat (sl_len ?s) + word_of_nat (seg_total ss), mem')"
    "gather mem' ss = take (seg_total ss) (drop (nat off + sl_len ?s) (content d))" "length mem' = length ?m"
    "\<And>t. slice_in ?m t \<Longrightarrow> list_all (\<lambda>s. apart (seg_data s) t) ss \<Longrightarrow> slice_get mem' t = slice_get ?m t"
    by blast
  have "list_all (\<lambda>t. apart (seg_data t) ?s) ss"
    using Cons.prems(5) by (simp add: list.pred_map comp_def apart_def disj_commute)
  then have "slice_get mem' ?s = slice_get ?m ?s"
    using m'(4) in_s lm by (simp add: slice_in_def)
  also have "\<dots> = ?got" using len in_s by (simp add: slice_get_def slice_in_def)
  finally have "gather mem' (s # ss) = take (seg_total (s # ss)) (drop (nat off) (content d))"
    using m'(2) by (simp add: take_add add.commute [of "sl_len ?s" "nat off"])
  moreover have "slice_get mem' t = slice_get mem t" if "slice_in mem t" "list_all (\<lambda>s. apart (seg_data s) t) (s # ss)" for t
    using m'(4) [of t] that lm slice_get_put_apart [of ?got ?s mem t] len in_s by (simp add: slice_in_def)
  ultimately show ?case using m'(1,3) rd o len lm by (auto simp: add.assoc)
qed

lemma handle_out:
  assumes "blk_request mem c blkTypeOut sector data st" "blk_ops b = ops" "\<not> blk_readonly b"
  shows "\<exists>d'. handleRequest b mem c = (1, d', put_at (sl_off st) [blkStatusOK] mem) \<and>
    content d' = file_write (unat sector * 512) (gather mem data) (content (blk_backend b))"
proof -
  note p = blk_request_parts [OF assms(1)]
  from exec_out_ok [OF _ p(6,1), of "blk_backend b"] p(5) handleRequest_request [OF assms(1), of b] assms(2,3)
  show ?thesis by (auto simp: execute_def blkTypeIn_def blkTypeOut_def)
qed

lemma handle_in:
  assumes "blk_request mem c blkTypeIn sector data st" "blk_ops b = ops"
    and "unat sector * 512 + seg_total data \<le> length (content (blk_backend b))"
    and "disjoint_slices (map seg_data data)" "list_all (\<lambda>s. apart (seg_data s) st) data"
  shows "\<exists>mem'. handleRequest b mem c = (word_of_nat (seg_total data) + 1, blk_backend b, mem') \<and>
    gather mem' data = take (seg_total data) (drop (unat sector * 512) (content (blk_backend b))) \<and>
    mem' ! sl_off st = blkStatusOK \<and> length mem' = length mem \<and>
    (\<forall>t. slice_in mem t \<and> list_all (\<lambda>s. apart (seg_data s) t) data \<and> apart st t \<longrightarrow>
      slice_get mem' t = slice_get mem t)"
proof -
  note p = blk_request_parts [OF assms(1)]
  from exec_in_ok [OF _ p(6) _ p(1) assms(4), of "blk_backend b" 0] p(5) assms(3) obtain m where
    m: "exec_in ops (blk_backend b) mem (uint sector * 512) data 0 = (blkStatusOK, word_of_nat (seg_total data), m)"
    "gather m data = take (seg_total data) (drop (unat sector * 512) (content (blk_backend b)))"
    "length m = length mem"
    "\<And>t. slice_in mem t \<Longrightarrow> list_all (\<lambda>s. apart (seg_data s) t) data \<Longrightarrow> slice_get m t = slice_get mem t"
    by auto
  let ?m = "put_at (sl_off st) [blkStatusOK] m"
  have one: "1 \<le> sl_len st" using assms(1) unfolding blk_request_def by blast
  have keep: "slice_get ?m t = slice_get m t" if "slice_in mem t" "apart st t" for t
    using slice_get_put_apart [of "[blkStatusOK]" st m t] that one p(2) m(3) by (simp add: slice_in_def)
  have "gather ?m data = gather m data"
    unfolding gather_def using keep p(1) assms(5)
    by (intro arg_cong [where f = concat] map_cong) (auto simp: segments_in_def list_all_iff apart_def)
  with m keep p(3) handleRequest_request [OF assms(1), of b] assms(2)
  show ?thesis by (auto simp: execute_def nth_put_at intro!: exI [of _ ?m])
qed

lemma execute_readonly:
  assumes "blk_ops b = ops" "blk_readonly b" "execute b mem ty off data = (st, n, d', mem')"
  shows "content d' = content (blk_backend b)"
  using assms sync_law [of "blk_backend b"]
  by (auto simp: execute_def split: if_splits prod.splits option.splits)

lemma handle_readonly:
  assumes "blk_ops b = ops" "blk_readonly b" "handleRequest b mem c = (n, d', mem')"
  shows "content d' = content (blk_backend b)"
  using assms(3) execute_readonly [OF assms(1,2)]
  by (auto simp: handleRequest_def Let_def split: if_splits prod.splits)

lemma drain_readonly:
  assumes "blk_ops b = ops" "blk_readonly b" "blk_drain n b vq mem handled = (st, b', vq', mem', handled')"
  shows "content (blk_backend b') = content (blk_backend b)"
  using assms
proof (induction n arbitrary: b vq mem handled)
  case 0
  then show ?case by simp
next
  case (Suc n)
  from blk_drain_Suc [OF Suc.prems(3)] show ?case
  proof (elim disjE exE conjE)
    fix c w d1 m1 vq1 m2
    assume h: "handleRequest b mem c = (w, d1, m1)"
      and r: "blk_drain n (b\<lparr>blk_backend := d1\<rparr>) vq1 m2 True = (st, b', vq', mem', handled')"
    from Suc.IH [OF _ _ r] Suc.prems(1,2) handle_readonly [OF Suc.prems(1,2) h] show ?thesis by simp
  qed (use handle_readonly [OF Suc.prems(1,2)] in auto)
qed
end

interpretation disk_file: block_backend os_file "\<lambda>f. f"
  by unfold_locales (simp_all add: os_file_def Let_def)

subsection \<open>Requests on a disk file\<close>

text \<open>
  C31. Reading blocks: a read request whose data segments do not overlap fills
  them, in order, with the disk's bytes from the requested sector on, answers with
  status 0 and the number of bytes written, leaves the disk alone, and leaves
  alone every range of memory apart from the data and status segments.
\<close>

theorem blk_read_blocks:
  fixes b :: "bytes blk"
  assumes "blk_request mem c blkTypeIn sector data st" "blk_ops b = os_file"
    and "unat sector * 512 + seg_total data \<le> length (blk_backend b)"
    and "disjoint_slices (map seg_data data)" "list_all (\<lambda>s. apart (seg_data s) st) data"
    and "slice_in mem t" "list_all (\<lambda>s. apart (seg_data s) t) data" "apart st t"
  shows "\<exists>mem'. handleRequest b mem c = (word_of_nat (seg_total data) + 1, blk_backend b, mem') \<and>
    gather mem' data = take (seg_total data) (drop (unat sector * 512) (blk_backend b)) \<and>
    mem' ! sl_off st = blkStatusOK \<and> slice_get mem' t = slice_get mem t"
  using disk_file.handle_in [OF assms(1-5)] assms(6-8) by blast

text \<open>
  C32. What is written is what is read: after a write request, a later read of as
  many bytes from the same sector, with segments of any shape and from any state
  of guest memory, returns exactly the bytes of the write, and the disk outside
  them is unchanged. A write past the end is not refused: the file grows.
\<close>

theorem blk_write_read:
  fixes b :: "bytes blk"
  assumes "blk_ops b = os_file" "\<not> blk_readonly b"
    and "blk_request mem1 c1 blkTypeOut sector data1 st1" "data1 \<noteq> []" "0 < seg_total data1"
    and "blk_request mem2 c2 blkTypeIn sector data2 st2" "seg_total data2 = seg_total data1"
    and "disjoint_slices (map seg_data data2)" "list_all (\<lambda>s. apart (seg_data s) st2) data2"
  shows "\<exists>d' mem1' mem2'. handleRequest b mem1 c1 = (1, d', mem1') \<and>
    handleRequest (b\<lparr>blk_backend := d'\<rparr>) mem2 c2 = (word_of_nat (seg_total data2) + 1, d', mem2') \<and>
    gather mem2' data2 = gather mem1 data1 \<and>
    length d' = max (length (blk_backend b)) (unat sector * 512 + seg_total data1) \<and>
    drop (unat sector * 512 + seg_total data1) d' = drop (unat sector * 512 + seg_total data1) (blk_backend b) \<and>
    take (min (unat sector * 512) (length (blk_backend b))) d' = take (unat sector * 512) (blk_backend b)"
proof -
  note p = blk_request_parts [OF assms(3)]
  obtain d' where d': "handleRequest b mem1 c1 = (1, d', put_at (sl_off st1) [blkStatusOK] mem1)"
    "d' = file_write (unat sector * 512) (gather mem1 data1) (blk_backend b)"
    using disk_file.handle_out [OF assms(3,1,2)] by blast
  have len: "length (gather mem1 data1) = seg_total data1" using length_gather [OF p(1)] .
  with assms(5) have ne: "gather mem1 data1 \<noteq> []" by auto
  have big: "length d' = max (length (blk_backend b)) (unat sector * 512 + seg_total data1)"
    using ne len by (simp add: d'(2) length_file_write)
  from disk_file.handle_in [OF assms(6), of "b\<lparr>blk_backend := d'\<rparr>"] assms(1,7-9) big obtain mem2' where
    m2: "handleRequest (b\<lparr>blk_backend := d'\<rparr>) mem2 c2 = (word_of_nat (seg_total data2) + 1, d', mem2')"
    "gather mem2' data2 = take (seg_total data2) (drop (unat sector * 512) d')" by auto
  have "gather mem2' data2 = gather mem1 data1"
    using m2(2) read_file_write [OF ne, of "unat sector * 512" "blk_backend b"] len assms(7) d'(2) by simp
  moreover have "drop (unat sector * 512 + seg_total data1) d' = drop (unat sector * 512 + seg_total data1) (blk_backend b)"
    "take (min (unat sector * 512) (length (blk_backend b))) d' = take (unat sector * 512) (blk_backend b)"
    using ne len by (auto simp: d'(2) file_write_def min_def)
  ultimately show ?thesis using d'(1) m2(1) big by blast
qed

text \<open>
  C33. A read-only disk cannot be changed by its guest: whatever the queue and
  guest memory hold, for any number of requests served, the file is the same.
\<close>

theorem blk_readonly_safe:
  fixes b :: "bytes blk"
  assumes "blk_ops b = os_file" "blk_readonly b" "blk_HandleNotify fuel q b mem = (st, b', mem')"
  shows "blk_backend b' = blk_backend b"
proof -
  have e: "blk_ops (blk_ensureQueue b) = os_file" "blk_readonly (blk_ensureQueue b)"
    "blk_backend (blk_ensureQueue b) = blk_backend b"
    using assms(1,2) by (auto simp: blk_ensureQueue_def Let_def)
  show ?thesis
  proof (cases "blk_queue (blk_ensureQueue b)")
    case None
    with assms(3) e show ?thesis by (auto simp: blk_HandleNotify_def Let_def split: if_splits)
  next
    case (Some vq)
    obtain st2 b2 vq2 m2 h2 where d: "blk_drain fuel (blk_ensureQueue b) vq mem False = (st2, b2, vq2, m2, h2)"
      by (metis prod_cases5)
    from disk_file.drain_readonly [OF e(1,2) d] assms(3) Some d e(3) show ?thesis
      by (auto simp: blk_HandleNotify_def Let_def split: if_splits)
  qed
qed

subsection \<open>The notification loop\<close>

lemma Slice_two: "Slice mem addr 2 = Ret (Inr s) \<Longrightarrow> s = \<lparr>sl_off = unat addr, sl_len = 2\<rparr>"
proof -
  assume s: "Slice mem addr 2 = Ret (Inr s)"
  then have "addr \<le> addr + 2" by (auto simp: Slice_def split: if_splits)
  then have "uint (addr + 2) = uint addr + 2" by (simp add: uint_plus_simple_iff)
  then have "unat (addr + 2) - unat addr = 2" unfolding unat_eq_nat_uint by (simp add: nat_add_distrib)
  with s show ?thesis by (auto simp: Slice_def split: if_splits)
qed

lemma Pop_index:
  assumes "Pop vq mem = Ret (Inr (r, vq'))"
  shows "if r = None then avail_idx vq mem = last_avail_idx vq
    else avail_idx vq mem \<noteq> last_avail_idx vq \<and> vq' = vq\<lparr>last_avail_idx := last_avail_idx vq + 1\<rparr>"
proof -
  have "i = avail_idx vq mem" if "readAvailIdx vq mem = Ret (Inr i)" for i
    using that by (auto simp: readAvailIdx_def avail_idx_def slice_get_def try_bind_eq_Ret annotate_eq_Ret
        dest!: Slice_two)
  with assms show ?thesis by (auto simp: Pop_def try_bind_eq_Ret annotate_eq_Ret Let_def split: if_splits)
qed

lemma blk_drain_ends:
  assumes "\<And>k st b' vq' mem' h. blk_drain k b vq mem handled = (st, b', vq', mem', h) \<Longrightarrow> avail_idx vq mem' = a"
    and "unat (a - last_avail_idx vq) < n"
  shows "fst (blk_drain n b vq mem handled) \<noteq> Running"
  using assms
proof (induction n arbitrary: b vq mem handled)
  case 0
  then show ?case by simp
next
  case (Suc n)
  have a: "avail_idx vq mem = a" using Suc.prems(1) [of 0] by simp
  show ?case
  proof (cases "\<exists>c vq1 w d1 m1 m2. Pop vq mem = Ret (Inr (Some c, vq1)) \<and> handleRequest b mem c = (w, d1, m1) \<and>
      Push vq1 m1 (head_index c) w = Ret (None, m2)")
    case False
    then show ?thesis
      by (auto simp: Let_def split: outcome.splits sum.splits prod.splits option.splits)
  next
    case True
    then obtain c vq1 w d1 m1 m2 where r: "Pop vq mem = Ret (Inr (Some c, vq1))" "handleRequest b mem c = (w, d1, m1)"
      "Push vq1 m1 (head_index c) w = Ret (None, m2)" by blast
    let ?b = "b\<lparr>blk_backend := d1\<rparr>"
    have step: "blk_drain (Suc k) b vq mem handled = blk_drain k ?b vq1 m2 True" for k
      by (simp add: r)
    from Pop_index [OF r(1)] a have v: "a \<noteq> last_avail_idx vq" "vq1 = vq\<lparr>last_avail_idx := last_avail_idx vq + 1\<rparr>" by auto
    have "unat (a - last_avail_idx vq - 1) < unat (a - last_avail_idx vq)"
      using v(1) by (simp add: unat_minus_one unat_gt_0)
    then have lt: "unat (a - last_avail_idx vq1) < n" using Suc.prems(2) v(2) by (simp add: diff_diff_eq)
    have "avail_idx vq1 m' = a" if "blk_drain k ?b vq1 m2 True = (st, b', vq', m', h)" for k st b' vq' m' h
      using Suc.prems(1) [of "Suc k"] that v(2) unfolding step by (simp add: avail_idx_def)
    from Suc.IH [OF this lt] show ?thesis unfolding step .
  qed
qed

lemma blk_drain_stable:
  "fst (blk_drain n b vq mem handled) \<noteq> Running \<Longrightarrow> blk_drain (n + k) b vq mem handled = blk_drain n b vq mem handled"
proof (induction n arbitrary: b vq mem handled)
  case 0
  then show ?case by simp
next
  case (Suc n)
  then show ?case
    by (auto simp: Let_def split: outcome.splits sum.splits prod.splits option.splits)
qed

definition blk_drain_mem :: "nat \<Rightarrow> 'd blk \<Rightarrow> virt_queue \<Rightarrow> bytes \<Rightarrow> bytes" where
  "blk_drain_mem k b vq mem = (case blk_drain k b vq mem False of (_, _, _, mem', _) \<Rightarrow> mem')"


text \<open>
  C35. A queue size of zero is not ruled out: a driver that gives queue 0 an
  available ring and marks it ready without ever writing a size has its next
  notification crash the device, as soon as the ring's index is not zero.
\<close>

theorem blk_zero_size_crashes:
  fixes b :: "'d blk"
  assumes "b = NewBlk ops d cap ro" "0 < a" "uint a + 4 \<le> int (length mem)" "length mem < 2 ^ 63"
    and "avail_idx (NewVirtQueue (zero_queue\<lparr>q_avail := a\<rparr>)) mem \<noteq> 0"
    and "t = write_all [(0x030, 0), (0x090, ucast a), (0x094, ucast (drop_bit 32 a)), (0x044, 1)] (blk_transport b)"
  shows "fst (blk_HandleNotify (Suc n) 0 (b\<lparr>blk_transport := t\<rparr>) mem) = Crashed ''integer divide by zero''"
proof -
  let ?q = "zero_queue\<lparr>q_avail := a, q_ready := True\<rparr>" and ?b = "b\<lparr>blk_transport := t\<rparr>"
  let ?vq = "NewVirtQueue ?q"
  have "transport_Queue t 0 = ?q"
    unfolding assms(6) assms(1)
    by (simp add: NewBlk_def NewTransport_def resetLocked_def write_register_def
        on_queue_selected [where i = 0] transport_Queue_def set_low_high)
  with assms(1,2) have "blk_queue (blk_ensureQueue ?b) = Some ?vq"
    by (simp add: blk_ensureQueue_def Let_def blkQueueIndex_def NewBlk_def)
  moreover have "Pop ?vq mem = Panic ''integer divide by zero''"
  proof -
    have "uint (a + 2) = uint a + 2" using uint_add_int [of 2 a] assms(3,4) by (simp split: if_splits)
    then have "uint (a + 2) + 2 \<le> int (length mem)" using assms(3) by linarith
    then have "Slice mem (a + 2) 2 = Ret (Inr \<lparr>sl_off = unat (a + 2), sl_len = 2\<rparr>)"
      using assms(4) by (simp add: Slice_cases)
    with assms(5) show ?thesis
      by (simp add: Pop_def readAvailIdx_def NewVirtQueue_def zero_queue_def avail_idx_def slice_get_def ring_mod_def)
  qed
  ultimately show ?thesis by (simp add: blk_HandleNotify_def Let_def blkQueueIndex_def)
qed

subsection \<open>A device with one request\<close>

definition example_chain :: chain where
  "example_chain = \<lparr>head_index = 0, segments =
     [\<lparr>seg_data = \<lparr>sl_off = 0, sl_len = 16\<rparr>, seg_writable = False\<rparr>,
      \<lparr>seg_data = \<lparr>sl_off = 16, sl_len = 2\<rparr>, seg_writable = True\<rparr>,
      \<lparr>seg_data = \<lparr>sl_off = 18, sl_len = 1\<rparr>, seg_writable = True\<rparr>]\<rparr>"

definition example_request :: "byte \<Rightarrow> bytes" where
  "example_request ty = [ty, 0, 0, 0, 0, 0, 0, 0, 0, 0, 0, 0, 0, 0, 0, 0, 7, 8, 9]"

definition example_blk :: "bool \<Rightarrow> bytes blk" where
  "example_blk ro = NewBlk os_file [1, 2, 3] 3 ro"

lemma example_blk_simps [simp]:
  "blk_ops (example_blk ro) = os_file" "blk_readonly (example_blk ro) = ro" "blk_backend (example_blk ro) = [1, 2, 3]"
  by (simp_all add: example_blk_def NewBlk_def)

lemma example_requests:
  "blk_request (example_request 0) example_chain blkTypeIn 0
     [\<lparr>seg_data = \<lparr>sl_off = 16, sl_len = 2\<rparr>, seg_writable = True\<rparr>] \<lparr>sl_off = 18, sl_len = 1\<rparr>"
  "blk_request (example_request 1) example_chain blkTypeOut 0
     [\<lparr>seg_data = \<lparr>sl_off = 16, sl_len = 2\<rparr>, seg_writable = True\<rparr>] \<lparr>sl_off = 18, sl_len = 1\<rparr>"
  by code_simp+

theorem blk_read_blocks_witness:
  "\<exists>mem'. handleRequest (example_blk True) (example_request 0) example_chain = (3, [1, 2, 3], mem') \<and>
     gather mem' [\<lparr>seg_data = \<lparr>sl_off = 16, sl_len = 2\<rparr>, seg_writable = True\<rparr>] = [1, 2] \<and> mem' ! 18 = 0"
  using blk_read_blocks [OF example_requests(1), of "example_blk True" "\<lparr>sl_off = 0, sl_len = 16\<rparr>"]
  by (auto simp: apart_def slice_in_def example_request_def blkStatusOK_def)

theorem blk_write_read_witness:
  "\<exists>d' mem1' mem2'. handleRequest (example_blk False) (example_request 1) example_chain = (1, d', mem1') \<and>
     handleRequest ((example_blk False)\<lparr>blk_backend := d'\<rparr>) (example_request 0) example_chain = (3, d', mem2') \<and>
     gather mem2' [\<lparr>seg_data = \<lparr>sl_off = 16, sl_len = 2\<rparr>, seg_writable = True\<rparr>] = [7, 8] \<and> length d' = 3"
proof -
  have "gather (example_request 1) [\<lparr>seg_data = \<lparr>sl_off = 16, sl_len = 2\<rparr>, seg_writable = True\<rparr>] = [7, 8]" by code_simp
  with blk_write_read [OF _ _ example_requests(2) _ _ example_requests(1), of "example_blk False"] show ?thesis
    by (auto simp: apart_def)
qed

text \<open>The same request behind a queue, in a memory that also holds the rings.\<close>

definition example_guest :: bytes where
  "example_guest = [100, 0, 0, 0, 0, 0, 0, 0, 16, 0, 0, 0, 1, 0, 1, 0, 116, 0, 0, 0, 0, 0, 0, 0, 2, 0, 0, 0, 3, 0, 2, 0, 118, 0, 0, 0, 0, 0, 0, 0, 1, 0, 0, 0, 2, 0, 0, 0, 0, 0, 1, 0, 0, 0, 0, 0, 0, 0, 0, 0, 0, 0, 0, 0, 0, 0, 0, 0, 0, 0, 0, 0, 0, 0, 0, 0, 0, 0, 0, 0, 0, 0, 0, 0, 0, 0, 0, 0, 0, 0, 0, 0, 0, 0, 0, 0, 0, 0, 0, 0, 0, 0, 0, 0, 0, 0, 0, 0, 0, 0, 0, 0, 0, 0, 0, 0, 7, 8, 9]"

definition example_queued :: "bool \<Rightarrow> bytes blk" where
  "example_queued ro = (example_blk ro)\<lparr>blk_queue := Some
     \<lparr>vq_size = 4, vq_desc = 0, vq_avail = 48, vq_used = 60, last_avail_idx = 0\<rparr>\<rparr>"

theorem blk_readonly_safe_witness:
  "case blk_HandleNotify 2 0 (example_queued True) example_guest of (st, b', mem') \<Rightarrow>
     st = Stopped \<and> blk_backend b' = [1, 2, 3]"
proof -
  have "fst (blk_HandleNotify 2 0 (example_queued True) example_guest) = Stopped" by code_simp
  then show ?thesis
    using blk_readonly_safe [of "example_queued True" 2 0 example_guest]
    by (auto simp: example_queued_def split: prod.splits)
qed

definition example_ring :: "bytes blk" where
  "example_ring = (example_blk True)\<lparr>blk_queue := Some example_vq\<rparr>"

lemma example_ring_idx:
  "avail_idx example_vq (blk_drain_mem k example_ring example_vq example_mem) =
   avail_idx example_vq example_mem"
proof -
  have "fst (blk_drain 2 example_ring example_vq example_mem False) \<noteq> Running" by code_simp
  then have "blk_drain (2 + i) example_ring example_vq example_mem False =
    blk_drain 2 example_ring example_vq example_mem False" for i by (rule blk_drain_stable)
  then have "blk_drain_mem (2 + i) example_ring example_vq example_mem =
    blk_drain_mem 2 example_ring example_vq example_mem" for i by (simp add: blk_drain_mem_def)
  moreover have "avail_idx example_vq (blk_drain_mem 0 example_ring example_vq example_mem) =
    avail_idx example_vq example_mem"
    "avail_idx example_vq (blk_drain_mem 1 example_ring example_vq example_mem) =
    avail_idx example_vq example_mem"
    "avail_idx example_vq (blk_drain_mem 2 example_ring example_vq example_mem) =
    avail_idx example_vq example_mem"
    by code_simp+
  moreover have "k = 0 \<or> k = 1 \<or> (\<exists>i. k = 2 + i)" by presburger
  ultimately show ?thesis by fastforce
qed


theorem blk_zero_size_crashes_witness:
  "fst (blk_HandleNotify 1 0 ((NewBlk os_file [] 0 False)\<lparr>blk_transport :=
       write_all [(0x030, 0), (0x090, 4), (0x094, 0), (0x044, 1)] (blk_transport (NewBlk os_file [] 0 False))\<rparr>)
     [0, 0, 0, 0, 0, 0, 1, 0]) = Crashed ''integer divide by zero''"
proof -
  have "avail_idx (NewVirtQueue (zero_queue\<lparr>q_avail := 4\<rparr>)) [0, 0, 0, 0, 0, 0, 1, 0] \<noteq> 0" by code_simp
  from blk_zero_size_crashes [OF refl _ _ _ this refl, of 0 os_file "[]" 0 False] show ?thesis by simp
qed

end
