(* ===== verification/Net.thy ===== *)
theory Net
  imports Blk
begin

text \<open>
  The virtio network device (\<^verbatim>\<open>internal/hypervisor/virtio/net.go\<close>): frames
  between the tap device and the receive and transmit queues. The tap device is a
  parameter, a state with the two calls the source makes.
\<close>

definition netQueueRX :: nat where "netQueueRX = 0"
definition netQueueTX :: nat where "netQueueTX = 1"
definition netHdrSize :: nat where "netHdrSize = 10"
definition maxFrameSize :: nat where "maxFrameSize = 65536"
definition ErrClosed :: error where "ErrClosed = Errorf ''file already closed''"

record 'p tap_ops =
  tap_Write :: "'p \<Rightarrow> bytes \<Rightarrow> error option \<times> 'p"
  tap_Read :: "'p \<Rightarrow> nat \<Rightarrow> bytes result \<times> 'p"

record 'p net =
  net_transport :: transport
  net_tap_ops :: "'p tap_ops"
  net_tap :: 'p
  rxQueue :: "virt_queue option"
  txQueue :: "virt_queue option"
  rxQueueAddr :: "64 word"
  txQueueAddr :: "64 word"
  net_interrupts :: nat

definition NewNet :: "bytes \<Rightarrow> 'p tap_ops \<Rightarrow> 'p \<Rightarrow> 'p net" where
  "NewNet mac ops tap = \<lparr>
     net_transport = NewTransport 1 (push_bit 5 1) 2 256 (take 6 mac @ le_put 2 (1 :: 16 word)),
     net_tap_ops = ops, net_tap = tap, rxQueue = None, txQueue = None, rxQueueAddr = 0, txQueueAddr = 0,
     net_interrupts = 0\<rparr>"

definition net_ensureQueues :: "'p net \<Rightarrow> 'p net" where
  "net_ensureQueues n =
     (let rx = transport_Queue (net_transport n) (int netQueueRX);
          n1 = (if q_ready rx \<and> q_avail rx \<noteq> rxQueueAddr n
                then n\<lparr>rxQueue := Some (NewVirtQueue rx), rxQueueAddr := q_avail rx\<rparr> else n);
          tx = transport_Queue (net_transport n1) (int netQueueTX)
      in if q_ready tx \<and> q_avail tx \<noteq> txQueueAddr n1
         then n1\<lparr>txQueue := Some (NewVirtQueue tx), txQueueAddr := q_avail tx\<rparr> else n1)"

definition net_interrupt :: "'p net \<Rightarrow> 'p net" where
  "net_interrupt n = n\<lparr>net_transport := RaiseUsedBufferInterrupt (net_transport n),
     net_interrupts := net_interrupts n + 1\<rparr>"

subsection \<open>Transmission\<close>

definition transmit :: "'p net \<Rightarrow> bytes \<Rightarrow> chain \<Rightarrow> error option \<times> 'p net" where
  "transmit n mem c =
     (if seg_total (segments c) < netHdrSize
      then (Some (Errorf ''virtio: tx descriptor chain shorter than the virtio_net_hdr''), n)
      else case tap_Write (net_tap_ops n) (net_tap n) (drop netHdrSize (gather mem (segments c))) of
        (err, tap') \<Rightarrow> (err, n\<lparr>net_tap := tap'\<rparr>))"

fun net_drain :: "nat \<Rightarrow> 'p net \<Rightarrow> virt_queue \<Rightarrow> bytes \<Rightarrow> bool \<Rightarrow> drain_status \<times> 'p net \<times> virt_queue \<times> bytes \<times> bool" where
  "net_drain 0 n vq mem sent = (Running, n, vq, mem, sent)"
| "net_drain (Suc k) n vq mem sent =
     (case Pop vq mem of
        Panic m \<Rightarrow> (Crashed m, n, vq, mem, sent)
      | Ret (Inl e) \<Rightarrow> (Stopped, n, vq, mem, sent)
      | Ret (Inr (None, vq')) \<Rightarrow> (Stopped, n, vq', mem, sent)
      | Ret (Inr (Some c, vq')) \<Rightarrow>
          (case transmit n mem c of (err, n') \<Rightarrow>
             let sent' = (sent \<or> err = None) in
             (case Push vq' mem (head_index c) 0 of
                Panic m \<Rightarrow> (Crashed m, n', vq', mem, sent')
              | Ret (Some e, mem') \<Rightarrow> (Stopped, n', vq', mem', sent')
              | Ret (None, mem') \<Rightarrow> net_drain k n' vq' mem' sent')))"

definition net_HandleNotify :: "nat \<Rightarrow> 32 word \<Rightarrow> 'p net \<Rightarrow> bytes \<Rightarrow> drain_status \<times> 'p net \<times> bytes" where
  "net_HandleNotify fuel queueIdx n mem =
     (if queueIdx \<noteq> word_of_nat netQueueTX then (Stopped, n, mem)
      else let n1 = net_ensureQueues n in
        case txQueue n1 of
          None \<Rightarrow> (Stopped, n1, mem)
        | Some vq \<Rightarrow> (case net_drain fuel n1 vq mem False of (st, n2, vq', mem', sent) \<Rightarrow>
            let n3 = n2\<lparr>txQueue := Some vq'\<rparr> in
            (st, if st = Stopped \<and> sent then net_interrupt n3 else n3, mem')))"

subsection \<open>Reception\<close>

definition netHeader :: bytes where
  "netHeader = replicate netHdrSize 0"

fun write_segments :: "segment list \<Rightarrow> bytes \<Rightarrow> bytes \<Rightarrow> nat \<Rightarrow> nat \<times> bytes \<times> bytes" where
  "write_segments [] remaining mem written = (written, remaining, mem)"
| "write_segments (s # ss) remaining mem written =
     (if \<not> seg_writable s \<or> length remaining = 0 then write_segments ss remaining mem written
      else let n = min (sl_len (seg_data s)) (length remaining) in
        write_segments ss (drop n remaining) (put_at (sl_off (seg_data s)) (take n remaining) mem) (written + n))"

definition writeAcross :: "segment list \<Rightarrow> bytes \<Rightarrow> bytes \<Rightarrow> bytes \<Rightarrow> nat result \<times> bytes" where
  "writeAcross segs header data mem =
     (case write_segments segs (header @ data) mem 0 of (written, remaining, mem') \<Rightarrow>
        (if length remaining \<noteq> 0 then Inl (Errorf ''virtio: rx descriptor chain has no room'') else Inr written, mem'))"

definition deliver :: "'p net \<Rightarrow> bytes \<Rightarrow> bytes \<Rightarrow> ('p net \<times> bytes) outcome" where
  "deliver n mem frameData =
     (let n1 = net_ensureQueues n in
      case rxQueue n1 of
        None \<Rightarrow> Ret (n1, mem)
      | Some vq \<Rightarrow> (case Pop vq mem of
          Panic m \<Rightarrow> Panic m
        | Ret (Inl e) \<Rightarrow> Ret (n1, mem)
        | Ret (Inr (None, vq')) \<Rightarrow> Ret (n1, mem)
        | Ret (Inr (Some c, vq')) \<Rightarrow>
            let n2 = n1\<lparr>rxQueue := Some vq'\<rparr> in
            (case writeAcross (segments c) netHeader frameData mem of
               (Inl e, mem') \<Rightarrow> Ret (n2, mem')
             | (Inr written, mem') \<Rightarrow>
                 (case Push vq' mem' (head_index c) (word_of_nat written) of
                    Panic m \<Rightarrow> Panic m
                  | Ret (Some e, mem'') \<Rightarrow> Ret (n2, mem'')
                  | Ret (None, mem'') \<Rightarrow> Ret (net_interrupt n2, mem'')))))"

text \<open>
  The reading loop, one list element for each turn: whether the context is done
  when the turn starts, and whether it is done when a failed read is examined.
  The result is the loop's own, or \<^term>\<open>None\<close> while it is still reading.
\<close>

fun ReadLoop :: "(bool \<times> bool) list \<Rightarrow> 'p net \<Rightarrow> bytes \<Rightarrow> (error option option \<times> 'p net \<times> bytes) outcome" where
  "ReadLoop [] n mem = Ret (None, n, mem)"
| "ReadLoop ((done_before, done_after) # turns) n mem =
     (if done_before then Ret (Some None, n, mem)
      else case tap_Read (net_tap_ops n) (net_tap n) maxFrameSize of (r, tap') \<Rightarrow>
        let n' = n\<lparr>net_tap := tap'\<rparr> in
        (case r of
           Inl err \<Rightarrow>
             if done_after \<or> errors_is err EOF \<or> errors_is err ErrClosed then Ret (Some None, n', mem)
             else Ret (Some (Some (Wrap ''virtio: read tap'' err)), n', mem)
         | Inr frame \<Rightarrow> (case deliver n' mem frame of
             Panic m \<Rightarrow> Panic m
           | Ret (n'', mem') \<Rightarrow> ReadLoop turns n'' mem')))"

subsection \<open>Frames and buffers\<close>

abbreviation writable :: "segment list \<Rightarrow> segment list" where
  "writable segs \<equiv> filter seg_writable segs"

lemma TotalWritableLen_writable: "TotalWritableLen c = seg_total (writable (segments c))"
proof -
  have "sum_list (map (\<lambda>s. if seg_writable s then sl_len (seg_data s) else 0) ss) = seg_total (writable ss)" for ss
    by (induction ss) auto
  then show ?thesis by (simp add: TotalWritableLen_def)
qed

lemma write_segments_rest:
  "write_segments segs remaining mem w = (w', r', mem') \<Longrightarrow> r' = drop (seg_total (writable segs)) remaining \<and>
    w' = w + min (seg_total (writable segs)) (length remaining)"
proof (induction segs remaining mem w arbitrary: w' r' mem' rule: write_segments.induct)
  case (1 remaining mem written)
  then show ?case by simp
next
  case (2 s ss remaining mem written)
  show ?case
  proof (cases "\<not> seg_writable s \<or> length remaining = 0")
    case True
    with 2 show ?thesis by (cases "seg_writable s") auto
  next
    case False
    let ?n = "min (sl_len (seg_data s)) (length remaining)"
    from False "2.prems" have "write_segments ss (drop ?n remaining)
      (put_at (sl_off (seg_data s)) (take ?n remaining) mem) (written + ?n) = (w', r', mem')"
      by (simp add: Let_def)
    from "2.IH"(2) [OF False refl this] False show ?thesis
      by (auto simp: min_def add.commute)
  qed
qed

lemma write_segments_idle: "write_segments ss [] mem w = (w, [], mem)"
  by (induction ss) auto

lemma write_segments_ok:
  assumes "segments_in mem segs" "disjoint_slices (map seg_data (writable segs))"
    and "length remaining \<le> seg_total (writable segs)"
  shows "\<exists>mem'. write_segments segs remaining mem w = (w + length remaining, [], mem') \<and>
    take (length remaining) (gather mem' (writable segs)) = remaining \<and> length mem' = length mem \<and>
    (\<forall>t. slice_in mem t \<and> list_all (\<lambda>s. apart (seg_data s) t) (writable segs) \<longrightarrow> slice_get mem' t = slice_get mem t)"
  using assms
proof (induction segs arbitrary: remaining mem w)
  case Nil
  then show ?case by simp
next
  case (Cons s ss)
  have in_ss: "segments_in mem ss" and in_s: "slice_in mem (seg_data s)" using Cons.prems(1) by (auto simp: segments_in_def)
  show ?case
  proof (cases "seg_writable s \<and> remaining \<noteq> []")
    case False
    show ?thesis
    proof (cases "seg_writable s")
      case False
      with Cons.IH [OF in_ss, of remaining w] Cons.prems show ?thesis by simp
    next
      case True
      with False show ?thesis by (simp add: write_segments_idle)
    qed
  next
    case True
    let ?s = "seg_data s"
    let ?n = "min (sl_len ?s) (length remaining)"
    let ?m = "put_at (sl_off ?s) (take ?n remaining) mem"
    have lm: "length ?m = length mem" using in_s by (simp add: slice_in_def)
    have dis: "disjoint_slices (map seg_data (writable ss))" "list_all (apart ?s) (map seg_data (writable ss))"
      using Cons.prems(2) True by auto
    have "\<exists>mem'. write_segments ss (drop ?n remaining) ?m (w + ?n) = (w + ?n + length (drop ?n remaining), [], mem') \<and>
      take (length (drop ?n remaining)) (gather mem' (writable ss)) = drop ?n remaining \<and> length mem' = length ?m \<and>
      (\<forall>t. slice_in ?m t \<and> list_all (\<lambda>s. apart (seg_data s) t) (writable ss) \<longrightarrow> slice_get mem' t = slice_get ?m t)"
      by (rule Cons.IH) (use Cons.prems in_ss dis(1) lm True in \<open>auto simp: segments_in_def slice_in_def min_def\<close>)
    then obtain mem' where m': "write_segments ss (drop ?n remaining) ?m (w + ?n) = (w + ?n + length (drop ?n remaining), [], mem')"
      "take (length (drop ?n remaining)) (gather mem' (writable ss)) = drop ?n remaining" "length mem' = length ?m"
      "\<And>t. slice_in ?m t \<Longrightarrow> list_all (\<lambda>s. apart (seg_data s) t) (writable ss) \<Longrightarrow> slice_get mem' t = slice_get ?m t"
      by blast
    have "list_all (\<lambda>t. apart (seg_data t) ?s) (writable ss)"
      using dis(2) by (simp add: list.pred_map comp_def apart_def disj_commute)
    then have s: "slice_get mem' ?s = slice_get ?m ?s" using m'(4) in_s lm by (simp add: slice_in_def)
    have "take ?n (slice_get ?m ?s) = take ?n remaining"
      using in_s by (auto simp: slice_get_def slice_in_def read_at_def put_at_def)
    moreover have "length (slice_get ?m ?s) = sl_len ?s" using in_s lm by (simp add: slice_get_def slice_in_def)
    ultimately have "take (length remaining) (gather mem' (writable (s # ss))) = remaining"
      using m'(2) True s by (auto simp: min_def split: if_splits)
    moreover have "slice_get mem' t = slice_get mem t"
      if "slice_in mem t" "list_all (\<lambda>s. apart (seg_data s) t) (writable (s # ss))" for t
      using m'(4) [of t] that lm slice_get_put_apart [of "take ?n remaining" ?s mem t] in_s True by (simp add: slice_in_def)
    ultimately show ?thesis using m'(1,3) lm True
      by (auto simp: Let_def)
  qed
qed

text \<open>
  C36. Frames survive the trip through guest memory: a frame delivered into a
  chain whose writable segments have exactly the room for header and frame is,
  when the guest sends those segments back, written to the tap device unchanged,
  whatever the segment boundaries are. Segments the device may only read, and all
  other memory, are untouched.
\<close>

theorem net_frame_roundtrip:
  assumes "segments_in mem segs" "disjoint_slices (map seg_data (writable segs))"
    and "seg_total (writable segs) = 10 + length frame"
    and "slice_in mem t" "list_all (\<lambda>s. apart (seg_data s) t) (writable segs)"
  shows "\<exists>mem'. writeAcross segs netHeader frame mem = (Inr (10 + length frame), mem') \<and>
    slice_get mem' t = slice_get mem t \<and>
    transmit n mem' \<lparr>head_index = h, segments = writable segs\<rparr> =
      (case tap_Write (net_tap_ops n) (net_tap n) frame of (err, tap') \<Rightarrow> (err, n\<lparr>net_tap := tap'\<rparr>))"
proof -
  have hdr: "length (netHeader @ frame) = 10 + length frame" by (simp add: netHeader_def netHdrSize_def)
  from write_segments_ok [OF assms(1,2), of "netHeader @ frame" 0] assms(3-5) hdr obtain mem' where
    m: "write_segments segs (netHeader @ frame) mem 0 = (10 + length frame, [], mem')"
    "take (10 + length frame) (gather mem' (writable segs)) = netHeader @ frame" "length mem' = length mem"
    "slice_get mem' t = slice_get mem t" by auto
  have "segments_in mem' (writable segs)"
    using assms(1) m(3) by (auto simp: segments_in_def list_all_iff slice_in_def)
  then have "length (gather mem' (writable segs)) = 10 + length frame"
    using length_gather assms(3) by simp
  with m(2) have "gather mem' (writable segs) = netHeader @ frame" by simp
  with m(1,4) assms(3) show ?thesis
    by (auto simp: writeAcross_def transmit_def netHeader_def netHdrSize_def)
qed

text \<open>
  C37. A frame that does not fit the driver's buffer costs the driver the buffer:
  the chain is taken off the available ring, but nothing is put on the used ring
  and no interrupt is raised, so the driver never gets that descriptor back.
\<close>

theorem rx_overlong_loses_buffer:
  assumes "rxQueue (net_ensureQueues n) = Some vq" "Pop vq mem = Ret (Inr (Some c, vq'))" "length mem < 2 ^ 63"
    and "TotalWritableLen c < 10 + length frame"
  shows "\<exists>mem'. deliver n mem frame = Ret ((net_ensureQueues n)\<lparr>rxQueue := Some vq'\<rparr>, mem') \<and>
    mem' = snd (writeAcross (segments c) netHeader frame mem) \<and>
    pending vq mem = head_index c # pending vq' mem"
proof -
  obtain w r mem' where w: "write_segments (segments c) (netHeader @ frame) mem 0 = (w, r, mem')"
    by (metis prod_cases3)
  have "r \<noteq> []"
    using write_segments_rest [OF w] assms(4) by (auto simp: TotalWritableLen_writable netHeader_def netHdrSize_def)
  with w Pop_result [OF assms(3,2)] assms(1,2) show ?thesis
    by (simp add: deliver_def Let_def writeAcross_def)
qed

definition example_tap :: "bytes list tap_ops" where
  "example_tap = \<lparr>tap_Write = (\<lambda>sent f. (None, sent @ [f])), tap_Read = (\<lambda>sent n. (Inl EOF, sent))\<rparr>"

definition example_net :: "bytes list net" where
  "example_net = (NewNet [2, 0, 0, 0, 0, 1] example_tap [])\<lparr>rxQueue := Some example_vq\<rparr>"

theorem net_frame_roundtrip_witness:
  "\<exists>mem'. writeAcross [\<lparr>seg_data = \<lparr>sl_off = 0, sl_len = 5\<rparr>, seg_writable = True\<rparr>,
       \<lparr>seg_data = \<lparr>sl_off = 5, sl_len = 1\<rparr>, seg_writable = False\<rparr>,
       \<lparr>seg_data = \<lparr>sl_off = 6, sl_len = 8\<rparr>, seg_writable = True\<rparr>] netHeader [1, 2, 3] (replicate 14 9) = (Inr 13, mem') \<and>
     slice_get mem' \<lparr>sl_off = 5, sl_len = 1\<rparr> = [9] \<and>
     net_tap (snd (transmit example_net mem' \<lparr>head_index = 0, segments =
       [\<lparr>seg_data = \<lparr>sl_off = 0, sl_len = 5\<rparr>, seg_writable = True\<rparr>,
        \<lparr>seg_data = \<lparr>sl_off = 6, sl_len = 8\<rparr>, seg_writable = True\<rparr>]\<rparr>)) = [[1, 2, 3]]"
proof -
  let ?segs = "[\<lparr>seg_data = \<lparr>sl_off = 0, sl_len = 5\<rparr>, seg_writable = True\<rparr>,
       \<lparr>seg_data = \<lparr>sl_off = 5, sl_len = 1\<rparr>, seg_writable = False\<rparr>,
       \<lparr>seg_data = \<lparr>sl_off = 6, sl_len = 8\<rparr>, seg_writable = True\<rparr>]"
  have "slice_get (replicate 14 9) \<lparr>sl_off = 5, sl_len = 1\<rparr> = [9 :: byte]" by code_simp
  then show ?thesis
    using net_frame_roundtrip [of "replicate 14 9" ?segs "[1, 2, 3]" "\<lparr>sl_off = 5, sl_len = 1\<rparr>" example_net 0]
    by (auto simp: segments_in_def slice_in_def apart_def example_net_def NewNet_def example_tap_def)
qed

theorem rx_overlong_loses_buffer_witness:
  "\<exists>n' mem'. deliver example_net example_mem [1, 2, 3] = Ret (n', mem') \<and>
     rxQueue n' = Some (example_vq\<lparr>last_avail_idx := 1\<rparr>) \<and> net_interrupts n' = 0"
proof -
  have e: "net_ensureQueues example_net = example_net"
    by (simp add: net_ensureQueues_def example_net_def NewNet_def NewTransport_def resetLocked_def
        transport_Queue_def zero_queue_def netQueueRX_def netQueueTX_def Let_def)
  have q: "rxQueue (net_ensureQueues example_net) = Some example_vq" unfolding e by (simp add: example_net_def)
  have "length example_mem < 2 ^ 63" by (simp add: example_mem_def)
  from rx_overlong_loses_buffer [OF q example_pop this, of "[1, 2, 3]"] show ?thesis
    unfolding e by (auto simp: TotalWritableLen_def example_net_def NewNet_def)
qed

end
