(* ===== verification/Uart.thy ===== *)
theory Uart
  imports Prelude
begin

text \<open>
  The serial console (\<^verbatim>\<open>internal/hypervisor/uart/uart.go\<close>). The writer behind it
  is best-effort, so its state is the list of bytes handed to it.
\<close>

record uart =
  u_out :: bytes
  u_ier :: byte
  u_lcr :: byte
  u_mcr :: byte
  u_scratch :: byte
  divisorLatch :: "16 word"

definition uart_New :: uart where
  "uart_New = \<lparr>u_out = [], u_ier = 0, u_lcr = 0, u_mcr = 0, u_scratch = 0, divisorLatch = 0\<rparr>"

definition lcrDLAB :: byte where "lcrDLAB = 0x80"
definition ierTHREInterrupt :: byte where "ierTHREInterrupt = 2"

definition uart_Write :: "uart \<Rightarrow> byte \<Rightarrow> byte \<Rightarrow> bool \<times> uart" where
  "uart_Write u off val =
     (if off = 0 then
        (if u_lcr u AND lcrDLAB \<noteq> 0
         then (False, u\<lparr>divisorLatch := (divisorLatch u AND 0xff00) OR ucast val\<rparr>)
         else (u_ier u AND ierTHREInterrupt \<noteq> 0, u\<lparr>u_out := u_out u @ [val]\<rparr>))
      else if off = 1 then
        (if u_lcr u AND lcrDLAB \<noteq> 0
         then (False, u\<lparr>divisorLatch := (divisorLatch u AND 0x00ff) OR push_bit 8 (ucast val)\<rparr>)
         else (False, u\<lparr>u_ier := val AND 0x0f\<rparr>))
      else if off = 3 then (False, u\<lparr>u_lcr := val\<rparr>)
      else if off = 4 then (False, u\<lparr>u_mcr := val\<rparr>)
      else if off = 7 then (False, u\<lparr>u_scratch := val\<rparr>)
      else (False, u))"

definition uart_Read :: "uart \<Rightarrow> byte \<Rightarrow> byte" where
  "uart_Read u off =
     (if off = 0 then (if u_lcr u AND lcrDLAB \<noteq> 0 then ucast (divisorLatch u) else 0)
      else if off = 1 then (if u_lcr u AND lcrDLAB \<noteq> 0 then ucast (drop_bit 8 (divisorLatch u)) else u_ier u)
      else if off = 2 then 1
      else if off = 3 then u_lcr u
      else if off = 4 then u_mcr u
      else if off = 5 then 0x60
      else if off = 6 then 0
      else if off = 7 then u_scratch u
      else 0xff)"

subsection \<open>The transcript\<close>

text \<open>
  What a serial line promises: the bytes written to the data register while the
  divisor latch is closed, in order, and a baud rate divisor that reads back.
\<close>

record line_spec =
  ls_latch_open :: bool
  ls_thre :: bool
  ls_sent :: bytes
  ls_divisor :: "byte \<times> byte"
  ls_wanted :: nat

definition line_write :: "line_spec \<Rightarrow> byte \<Rightarrow> byte \<Rightarrow> line_spec" where
  "line_write s off val =
     (if off = 3 then s\<lparr>ls_latch_open := bit val 7\<rparr>
      else if off = 0 \<and> ls_latch_open s then
        s\<lparr>ls_divisor := (fst (ls_divisor s), val)\<rparr>
      else if off = 1 \<and> ls_latch_open s then
        s\<lparr>ls_divisor := (val, snd (ls_divisor s))\<rparr>
      else if off = 0 then
        s\<lparr>ls_sent := ls_sent s @ [val], ls_wanted := ls_wanted s + (if ls_thre s then 1 else 0)\<rparr>
      else if off = 1 then s\<lparr>ls_thre := bit val 1\<rparr>
      else s)"

definition line_of :: "uart \<Rightarrow> nat \<Rightarrow> line_spec" where
  "line_of u k = \<lparr>ls_latch_open = bit (u_lcr u) 7, ls_thre = bit (u_ier u) 1, ls_sent = u_out u,
     ls_divisor = (ucast (drop_bit 8 (divisorLatch u)), ucast (divisorLatch u)), ls_wanted = k\<rparr>"

text \<open>The device's side of a sequence of writes, counting the interrupts it asks for.\<close>

definition uart_run :: "(byte \<times> byte) list \<Rightarrow> uart \<times> nat \<Rightarrow> uart \<times> nat" where
  "uart_run ws s = fold (\<lambda>(off, val) (u, k). case uart_Write u off val of
     (want, u') \<Rightarrow> (u', if want then k + 1 else k)) ws s"

lemma and_single_bit: "(w AND 0x80 \<noteq> 0) = bit w 7" "(w AND 2 \<noteq> 0) = bit w 1" for w :: byte
proof -
  have "(0x80 :: byte) = 2 ^ 7" "(2 :: byte) = 2 ^ 1" by simp_all
  then show "(w AND 0x80 \<noteq> 0) = bit w 7" "(w AND 2 \<noteq> 0) = bit w 1"
    by (metis and_exp_eq_0_iff_not_bit)+
qed

lemma latch_bytes:
  fixes d :: "16 word" and v :: byte
  shows "ucast ((d AND 0xff00) OR ucast v) = v" "ucast (drop_bit 8 ((d AND 0xff00) OR ucast v)) = (ucast (drop_bit 8 d) :: byte)"
    "ucast ((d AND 0x00ff) OR push_bit 8 (ucast v)) = (ucast d :: byte)" "ucast (drop_bit 8 ((d AND 0x00ff) OR push_bit 8 (ucast v))) = v"
proof -
  have m: "(0xff00 :: 16 word) = NOT (mask 8)" "(0x00ff :: 16 word) = mask 8" by (simp_all add: mask_eq_exp_minus_1)
  have b: "\<not> bit v i" if "8 \<le> i" for i using that by (auto dest: bit_imp_le_length)
  show "ucast ((d AND 0xff00) OR ucast v) = v" "ucast (drop_bit 8 ((d AND 0xff00) OR ucast v)) = (ucast (drop_bit 8 d) :: byte)"
    "ucast ((d AND 0x00ff) OR push_bit 8 (ucast v)) = (ucast d :: byte)" "ucast (drop_bit 8 ((d AND 0x00ff) OR push_bit 8 (ucast v))) = v"
    unfolding m by (rule bit_word_eqI; auto simp: bit_simps b)+
qed

lemma uart_Write_line:
  "line_of (snd (uart_Write u off val)) (if fst (uart_Write u off val) then k + 1 else k) = line_write (line_of u k) off val"
proof -
  have "bit (val AND 0x0f) 1 = bit val 1"
  proof -
    have "(0x0f :: byte) = mask 4" by (simp add: mask_eq_exp_minus_1)
    then show ?thesis by (simp add: bit_simps)
  qed
  then show ?thesis
    by (auto simp: uart_Write_def line_write_def line_of_def lcrDLAB_def ierTHREInterrupt_def and_single_bit latch_bytes
        simp del: drop_bit_and drop_bit_or)
qed

text \<open>
  C38. The emulated port is a serial line: after any sequence of register writes
  the bytes that reached the console are those written to the data register while
  the divisor latch was closed, in order; the device asked for an interrupt once
  for each of them written with the transmit interrupt enabled; and with the latch
  open the two divisor registers read back what was last written to them.
\<close>

theorem uart_serial_line:
  "let (u, k) = uart_run ws (uart_New, 0);
       s = fold (\<lambda>(off, val) s. line_write s off val) ws (line_of uart_New 0)
   in u_out u = ls_sent s \<and> k = ls_wanted s \<and> bit (u_lcr u) 7 = ls_latch_open s \<and>
      (if ls_latch_open s then (uart_Read u 1, uart_Read u 0) = ls_divisor s else uart_Read u 0 = 0)"
proof -
  have run: "line_of (fst (uart_run ws s)) (snd (uart_run ws s)) =
    fold (\<lambda>(off, val) s. line_write s off val) ws (line_of (fst s) (snd s))" for s
  proof (induction ws arbitrary: s)
    case Nil
    then show ?case by (simp add: uart_run_def)
  next
    case (Cons w ws)
    obtain off val where w: "w = (off, val)" by fastforce
    from Cons [of "(snd (uart_Write (fst s) off val), if fst (uart_Write (fst s) off val) then snd s + 1 else snd s)"]
      uart_Write_line [of "fst s" off val "snd s"]
    show ?case by (auto simp: uart_run_def w split: prod.splits)
  qed
  obtain u k where uk: "uart_run ws (uart_New, 0) = (u, k)" by fastforce
  with run [of "(uart_New, 0)"] have
    s: "fold (\<lambda>(off, val) s. line_write s off val) ws (line_of uart_New 0) = line_of u k" by simp
  show ?thesis
    unfolding uk s by (simp add: line_of_def uart_Read_def lcrDLAB_def and_single_bit)
qed

end
