(* ===== verification/Machine.thy ===== *)
theory Machine
  imports Net Uart
begin

text \<open>
  The machine around the devices (\<^verbatim>\<open>internal/hypervisor/mmio.go\<close>,
  \<^verbatim>\<open>console.go\<close>, \<^verbatim>\<open>runloop.go\<close>, and \<^verbatim>\<open>write\<close> of \<^verbatim>\<open>machine.go\<close>): the table of
  register windows, port I/O of the console, and the dispatch of a virtual CPU's
  exits. The kernel's interrupt lines are a log of the levels the machine drives;
  an exit is what KVM reports.
\<close>

datatype ('d, 'p) vdev = NetDev "'p net" | BlkDev "'d blk"

fun dev_transport :: "('d, 'p) vdev \<Rightarrow> transport" where
  "dev_transport (NetDev n) = net_transport n"
| "dev_transport (BlkDev b) = blk_transport b"

fun set_transport :: "transport \<Rightarrow> ('d, 'p) vdev \<Rightarrow> ('d, 'p) vdev" where
  "set_transport t (NetDev n) = NetDev (n\<lparr>net_transport := t\<rparr>)"
| "set_transport t (BlkDev b) = BlkDev (b\<lparr>blk_transport := t\<rparr>)"

fun dev_interrupts :: "('d, 'p) vdev \<Rightarrow> nat" where
  "dev_interrupts (NetDev n) = net_interrupts n"
| "dev_interrupts (BlkDev b) = blk_interrupts b"

record ('d, 'p) mmio_device =
  md_base :: "64 word"
  md_size :: "64 word"
  md_dev :: "('d, 'p) vdev"
  md_gsi :: "32 word"

record ('d, 'p) machine =
  mc_mem :: bytes
  mc_console :: uart
  mmioDevices :: "('d, 'p) mmio_device list"
  mc_lines :: "(32 word \<times> nat) list"

definition MMIOBaseAddr :: "64 word" where "MMIOBaseAddr = 0xd0000000"
definition MMIODeviceSize :: "64 word" where "MMIODeviceSize = 0x200"

definition pulseIRQ :: "32 word \<Rightarrow> ('d, 'p) machine \<Rightarrow> ('d, 'p) machine" where
  "pulseIRQ gsi m = m\<lparr>mc_lines := mc_lines m @ [(gsi, 1), (gsi, 0)]\<rparr>"

definition registerMMIODevice ::
  "('d, 'p) machine \<Rightarrow> ('d, 'p) vdev \<Rightarrow> (64 word \<times> 32 word) result \<times> ('d, 'p) machine" where
  "registerMMIODevice m dev =
     (let maxDevices = 8 in
      if length (mmioDevices m) \<ge> maxDevices then (Inl (Errorf ''hypervisor: too many mmio devices''), m)
      else let idx = length (mmioDevices m);
               base = MMIOBaseAddr + word_of_nat idx * MMIODeviceSize;
               gsi = 16 + word_of_nat idx
        in (Inr (base, gsi), m\<lparr>mmioDevices := mmioDevices m @
             [\<lparr>md_base = base, md_size = MMIODeviceSize, md_dev = dev, md_gsi = gsi\<rparr>]\<rparr>))"

text \<open>The interrupts a device asked for while it served a notification, on its line.\<close>

definition pulse_new :: "32 word \<Rightarrow> nat \<Rightarrow> ('d, 'p) machine \<Rightarrow> ('d, 'p) machine" where
  "pulse_new gsi n m = ((pulseIRQ gsi) ^^ n) m"

fun dev_notify :: "nat \<Rightarrow> 32 word \<Rightarrow> ('d, 'p) vdev \<Rightarrow> bytes \<Rightarrow> drain_status \<times> ('d, 'p) vdev \<times> bytes" where
  "dev_notify fuel q (NetDev n) mem = (case net_HandleNotify fuel q n mem of (st, n', mem') \<Rightarrow> (st, NetDev n', mem'))"
| "dev_notify fuel q (BlkDev b) mem = (case blk_HandleNotify fuel q b mem of (st, b', mem') \<Rightarrow> (st, BlkDev b', mem'))"

fun find_window :: "('d, 'p) mmio_device list \<Rightarrow> 64 word \<Rightarrow> nat option" where
  "find_window [] addr = None"
| "find_window (d # ds) addr =
     (if addr < md_base d \<or> addr \<ge> md_base d + md_size d then map_option Suc (find_window ds addr) else Some 0)"

definition serveMMIO :: "nat \<Rightarrow> ('d, 'p) machine \<Rightarrow> 64 word \<Rightarrow> bytes \<Rightarrow> bool \<Rightarrow>
  drain_status \<times> bool \<times> bytes \<times> ('d, 'p) machine" where
  "serveMMIO fuel m addr data isWrite =
     (case find_window (mmioDevices m) addr of
        None \<Rightarrow> (Stopped, False, data, m)
      | Some i \<Rightarrow>
          let d = mmioDevices m ! i; off = addr - md_base d in
          if \<not> isWrite then (Stopped, True, transport_Read (dev_transport (md_dev d)) off data, m)
          else if off = QueueNotifyOffset then
            (case QueueNotifyData data of
               Panic e \<Rightarrow> (Crashed e, True, data, m)
             | Ret q \<Rightarrow> (case dev_notify fuel q (md_dev d) (mc_mem m) of (st, dev', mem') \<Rightarrow>
                 (st, True, data, pulse_new (md_gsi d) (dev_interrupts dev' - dev_interrupts (md_dev d))
                   (m\<lparr>mc_mem := mem', mmioDevices := (mmioDevices m)[i := d\<lparr>md_dev := dev'\<rparr>]\<rparr>))))
          else (Stopped, True, data, m\<lparr>mmioDevices := (mmioDevices m)[i :=
            d\<lparr>md_dev := set_transport (transport_Write (dev_transport (md_dev d)) off data) (md_dev d)\<rparr>]\<rparr>))"

subsection \<open>Port I/O\<close>

definition com1Base :: "16 word" where "com1Base = 0x3f8"
definition com1End :: "16 word" where "com1End = 0x3ff"
definition com1GSI :: "32 word" where "com1GSI = 4"

fun console_writes :: "uart \<Rightarrow> byte \<Rightarrow> bytes \<Rightarrow> bool \<Rightarrow> bool \<times> uart" where
  "console_writes u off [] want = (want, u)"
| "console_writes u off (b # bs) want =
     (case uart_Write u off b of (w, u') \<Rightarrow> console_writes u' off bs (want \<or> w))"

definition serveIO :: "('d, 'p) machine \<Rightarrow> 16 word \<Rightarrow> bool \<Rightarrow> bytes \<Rightarrow> bool \<times> bytes \<times> ('d, 'p) machine" where
  "serveIO m port dirIn data =
     (if port < com1Base \<or> port > com1End then (False, data, m)
      else let off = ucast (port - com1Base) in
        if dirIn then (True, map (\<lambda>_. uart_Read (mc_console m) off) data, m)
        else (case console_writes (mc_console m) off data False of (want, u') \<Rightarrow>
          let m' = m\<lparr>mc_console := u'\<rparr> in (True, data, if want then pulseIRQ com1GSI m' else m')))"

definition machine_write :: "bytes \<Rightarrow> 64 word \<Rightarrow> bytes \<Rightarrow> (error option \<times> bytes) outcome" where
  "machine_write mem addr b =
     (if addr + word_of_nat (length b) > word_of_nat (length mem)
      then Ret (Some (Errorf ''hypervisor: write overruns guest memory''), mem)
      else if unat addr > length mem then Panic ''slice bounds out of range''
      else Ret (None, put_at (unat addr) (take (length mem - unat addr) b) mem))"

subsection \<open>The run loop of a virtual CPU\<close>

datatype vm_exit =
    RunError error
  | ExitHLT
  | ExitIO "16 word" bool bytes
  | ExitMMIO "64 word" bytes bool
  | ExitShutdown
  | ExitFailEntry
  | ExitInternalError
  | ExitOther

text \<open>
  One list element for each turn: whether the context is done at its start, and
  the exit KVM reports. Exits nothing answers go to the callback, which is logged.
\<close>

fun runVCPU :: "nat \<Rightarrow> (bool \<times> vm_exit) list \<Rightarrow> ('d, 'p) machine \<Rightarrow> vm_exit list \<Rightarrow>
  drain_status \<times> error option \<times> ('d, 'p) machine \<times> vm_exit list" where
  "runVCPU fuel [] m relayed = (Running, None, m, relayed)"
| "runVCPU fuel ((ctx_done, e) # es) m relayed =
     (if ctx_done then (Stopped, None, m, relayed)
      else case e of
        RunError err \<Rightarrow> (Stopped, Some (Wrap ''hypervisor: vcpu'' err), m, relayed)
      | ExitHLT \<Rightarrow> runVCPU fuel es m relayed
      | ExitIO port dirIn data \<Rightarrow> (case serveIO m port dirIn data of (served, data', m') \<Rightarrow>
          runVCPU fuel es m' (if served then relayed else relayed @ [e]))
      | ExitMMIO addr data isWrite \<Rightarrow> (case serveMMIO fuel m addr data isWrite of (st, served, data', m') \<Rightarrow>
          if st \<noteq> Stopped then (st, None, m', relayed)
          else runVCPU fuel es m' (if served then relayed else relayed @ [e]))
      | ExitShutdown \<Rightarrow> (Stopped, Some (Errorf ''hypervisor: vcpu shutdown''), m, relayed)
      | ExitFailEntry \<Rightarrow> (Stopped, Some (Errorf ''hypervisor: vcpu failed to enter''), m, relayed)
      | ExitInternalError \<Rightarrow> (Stopped, Some (Errorf ''hypervisor: vcpu: internal KVM error''), m, relayed)
      | ExitOther \<Rightarrow> (Stopped, Some (Errorf ''hypervisor: vcpu: unexpected exit reason''), m, relayed))"

subsection \<open>The window table\<close>

definition window_at :: "nat \<Rightarrow> ('d, 'p) mmio_device \<Rightarrow> bool" where
  "window_at i d = (md_base d = MMIOBaseAddr + word_of_nat i * MMIODeviceSize \<and> md_size d = MMIODeviceSize \<and>
     md_gsi d = 16 + word_of_nat i)"

definition windows_ok :: "('d, 'p) machine \<Rightarrow> bool" where
  "windows_ok m = (length (mmioDevices m) \<le> 8 \<and>
     list_all (\<lambda>i. window_at i (mmioDevices m ! i)) [0..<length (mmioDevices m)])"

definition boot_machine :: "bytes \<Rightarrow> ('d, 'p) machine" where
  "boot_machine mem = \<lparr>mc_mem = mem, mc_console = uart_New, mmioDevices = [], mc_lines = []\<rparr>"

lemma windows_ok_nth: "windows_ok m \<Longrightarrow> i < length (mmioDevices m) \<Longrightarrow> window_at i (mmioDevices m ! i)"
  by (auto simp: windows_ok_def list_all_iff)

lemma windows_ok_cong:
  assumes "windows_ok m" "length (mmioDevices m') = length (mmioDevices m)"
    and "\<And>i. i < length (mmioDevices m) \<Longrightarrow> md_base (mmioDevices m' ! i) = md_base (mmioDevices m ! i) \<and>
      md_size (mmioDevices m' ! i) = md_size (mmioDevices m ! i) \<and> md_gsi (mmioDevices m' ! i) = md_gsi (mmioDevices m ! i)"
  shows "windows_ok m'"
  using assms by (auto simp: windows_ok_def list_all_iff window_at_def)

lemma registerMMIODevice_ok:
  assumes "windows_ok m"
  shows "windows_ok (snd (registerMMIODevice m dev))"
  using assms
  by (auto simp: registerMMIODevice_def windows_ok_def list_all_iff nth_append window_at_def Let_def less_Suc_eq)

definition in_window :: "64 word \<Rightarrow> ('d, 'p) mmio_device \<Rightarrow> bool" where
  "in_window addr d = (md_base d \<le> addr \<and> addr < md_base d + md_size d)"

lemma filter_unique:
  assumes "i < length xs" "P (xs ! i)" "\<And>j. j < length xs \<Longrightarrow> P (xs ! j) \<Longrightarrow> j = i"
  shows "filter P xs = [xs ! i]"
  using assms
proof (induction xs arbitrary: i)
  case Nil
  then show ?case by simp
next
  case (Cons x xs)
  show ?case
  proof (cases i)
    case 0
    with Cons.prems(3) [of "Suc _"] have "filter P xs = []" by (auto simp: filter_empty_conv in_set_conv_nth)
    with 0 Cons.prems show ?thesis by simp
  next
    case (Suc k)
    have "\<not> P x" using Cons.prems(3) [of 0] Suc by auto
    moreover have "filter P xs = [xs ! k]"
      using Cons.IH [of k] Cons.prems Suc by fastforce
    ultimately show ?thesis using Suc by simp
  qed
qed

lemma filter_update_outside:
  assumes "i < length xs" "\<not> P (xs ! i)" "\<not> P y"
  shows "filter P (xs[i := y]) = filter P xs"
  using assms by (induction xs arbitrary: i) (auto simp: nth_Cons' split: nat.splits)

lemma find_window_Some:
  "find_window ds addr = Some i \<Longrightarrow> i < length ds \<and> in_window addr (ds ! i)"
  by (induction ds arbitrary: i) (auto split: if_splits simp: in_window_def not_less not_le)

lemma find_window_None:
  "find_window ds addr = None \<Longrightarrow> i < length ds \<Longrightarrow> \<not> in_window addr (ds ! i)"
  by (induction ds arbitrary: i) (auto split: if_splits simp: in_window_def nth_Cons' not_less)

lemma pulse_new_devices [simp]: "mmioDevices (pulse_new g n m) = mmioDevices m" "mc_mem (pulse_new g n m) = mc_mem m"
  "mc_console (pulse_new g n m) = mc_console m"
  by (induction n) (auto simp: pulse_new_def pulseIRQ_def)

lemma serveMMIO_Some:
  assumes "find_window (mmioDevices m) addr = Some i" "serveMMIO fuel m addr data isWrite = (st, served, data', m')"
  shows "\<exists>dev'. mmioDevices m' = (mmioDevices m)[i := (mmioDevices m ! i)\<lparr>md_dev := dev'\<rparr>] \<and> served \<and> (isWrite \<or> m' = m)"
proof -
  let ?d = "mmioDevices m ! i"
  have same: "mmioDevices m = (mmioDevices m)[i := ?d\<lparr>md_dev := md_dev ?d\<rparr>]" by simp
  consider "\<not> isWrite" | "isWrite" "addr - md_base ?d = QueueNotifyOffset" "panics (QueueNotifyData data)"
    | q where "isWrite" "addr - md_base ?d = QueueNotifyOffset" "QueueNotifyData data = Ret q"
    | "isWrite" "addr - md_base ?d \<noteq> QueueNotifyOffset"
    by (metis outcome.exhaust panics_simps(1))
  then show ?thesis
  proof cases
    case 1
    with assms have "m' = m" "served" by (simp_all add: serveMMIO_def Let_def)
    with same show ?thesis by blast
  next
    case 2
    then obtain e where "QueueNotifyData data = Panic e" by (cases "QueueNotifyData data") auto
    with assms 2 have "m' = m" "served" by (simp_all add: serveMMIO_def Let_def)
    with same show ?thesis by blast
  next
    case 3
    obtain st1 dev1 mem1 where n: "dev_notify fuel q (md_dev ?d) (mc_mem m) = (st1, dev1, mem1)"
      by (metis prod_cases3)
    from assms 3 n have "mmioDevices m' = (mmioDevices m)[i := ?d\<lparr>md_dev := dev1\<rparr>]" "served"
      by (auto simp: serveMMIO_def Let_def)
    with 3 show ?thesis by blast
  next
    case 4
    with assms have "mmioDevices m' = (mmioDevices m)[i := ?d\<lparr>md_dev :=
      set_transport (transport_Write (dev_transport (md_dev ?d)) (addr - md_base ?d) data) (md_dev ?d)\<rparr>]" "served"
      by (auto simp: serveMMIO_def Let_def)
    with 4 show ?thesis by blast
  qed
qed

text \<open>The address range of window \<open>i\<close>, as numbers.\<close>

lemma window_range:
  assumes "window_at i d" "i < 8"
  shows "uint (md_base d) = 0xd0000000 + int i * 0x200" "uint (md_base d + md_size d) = 0xd0000000 + int i * 0x200 + 0x200"
    "uint (md_gsi d) = 16 + int i"
proof -
  have "i = 0 \<or> i = 1 \<or> i = 2 \<or> i = 3 \<or> i = 4 \<or> i = 5 \<or> i = 6 \<or> i = 7" using assms(2) by presburger
  then show "uint (md_base d) = 0xd0000000 + int i * 0x200" "uint (md_base d + md_size d) = 0xd0000000 + int i * 0x200 + 0x200"
    "uint (md_gsi d) = 16 + int i"
    using assms(1) by (auto simp: window_at_def MMIOBaseAddr_def MMIODeviceSize_def)
qed

lemma windows_disjoint:
  assumes "windows_ok m" "i < length (mmioDevices m)" "j < length (mmioDevices m)"
    and "in_window addr (mmioDevices m ! i)" "in_window addr (mmioDevices m ! j)"
  shows "i = j"
proof -
  have l: "i < 8" "j < 8" using assms(1-3) by (auto simp: windows_ok_def)
  note wi = window_range [OF windows_ok_nth [OF assms(1,2)] l(1)]
  note wj = window_range [OF windows_ok_nth [OF assms(1,3)] l(2)]
  from assms(4,5) show ?thesis unfolding in_window_def word_le_def word_less_def wi wj by linarith
qed

text \<open>
  C39. Every guest access reaches at most one device. However many devices are
  registered on a new machine, there are at most eight, their interrupt lines are
  16 to 23 in order, and every address belongs to at most one register window. An
  access is served exactly when its address lies in a window; then every other
  device is left exactly as it was, no window moves, and a read changes nothing.
\<close>

theorem mmio_isolated:
  fixes devs :: "('d, 'p) vdev list"
  assumes "m = fold (\<lambda>d m. snd (registerMMIODevice m d)) devs (boot_machine mem)"
    and "serveMMIO fuel m addr data isWrite = (st, served, data', m')"
  shows "length (mmioDevices m) = min 8 (length devs) \<and>
    map md_gsi (mmioDevices m) = map (\<lambda>i. 16 + word_of_nat i) [0..<length (mmioDevices m)] \<and>
    length (filter (in_window addr) (mmioDevices m)) = (if served then 1 else 0) \<and>
    map md_base (mmioDevices m') = map md_base (mmioDevices m) \<and>
    filter (\<lambda>d. \<not> in_window addr d) (mmioDevices m') =
      filter (\<lambda>d. \<not> in_window addr d) (mmioDevices m) \<and>
    (isWrite \<or> m' = m) \<and> (served \<or> m' = m \<and> data' = data)"
proof -
  have reg: "windows_ok (fold (\<lambda>d m. snd (registerMMIODevice m d)) devs m0) \<and>
    length (mmioDevices (fold (\<lambda>d m. snd (registerMMIODevice m d)) devs m0)) = min 8 (length (mmioDevices m0) + length devs)"
    if "windows_ok m0" for m0 :: "('d, 'p) machine"
    using that
  proof (induction devs arbitrary: m0)
    case Nil
    then show ?case by (simp add: windows_ok_def)
  next
    case (Cons d ds)
    then show ?case
      using registerMMIODevice_ok [OF Cons.prems, of d] Cons.IH [of "snd (registerMMIODevice m0 d)"]
      by (auto simp: registerMMIODevice_def Let_def min_def windows_ok_def)
  qed
  have ok: "windows_ok m" and len: "length (mmioDevices m) = min 8 (length devs)"
    using reg [of "boot_machine mem"] by (auto simp: assms(1) boot_machine_def windows_ok_def)
  have gsi: "map md_gsi (mmioDevices m) = map (\<lambda>i. 16 + word_of_nat i) [0..<length (mmioDevices m)]"
    using windows_ok_nth [OF ok] by (intro nth_equalityI) (auto simp: window_at_def)
  show ?thesis
  proof (cases "find_window (mmioDevices m) addr")
    case None
    have "filter (in_window addr) (mmioDevices m) = []"
      using find_window_None [OF None] by (metis filter_empty_conv in_set_conv_nth)
    moreover have "\<not> served" "m' = m" "data' = data" using None assms(2) by (simp_all add: serveMMIO_def)
    ultimately show ?thesis using len gsi by simp
  next
    case (Some i)
    let ?d = "mmioDevices m ! i"
    note i = find_window_Some [OF Some]
    have only: "filter (in_window addr) (mmioDevices m) = [?d]"
      by (rule filter_unique) (use i windows_disjoint [OF ok] in blast)+
    obtain dev' where upd: "mmioDevices m' = (mmioDevices m)[i := ?d\<lparr>md_dev := dev'\<rparr>]" "served" "isWrite \<or> m' = m"
      using serveMMIO_Some [OF Some assms(2)] by blast
    have "filter (\<lambda>d. \<not> in_window addr d) (mmioDevices m') =
      filter (\<lambda>d. \<not> in_window addr d) (mmioDevices m)"
      unfolding upd(1) by (rule filter_update_outside) (use i in \<open>auto simp: in_window_def\<close>)
    moreover have "map md_base (mmioDevices m') = map md_base (mmioDevices m)"
      using i by (simp add: upd(1) map_update list_update_same_conv)
    ultimately show ?thesis using only upd(2,3) len gsi by simp
  qed
qed

theorem mmio_isolated_witness:
  "let m = fold (\<lambda>d m. snd (registerMMIODevice m d)) [NetDev example_net, BlkDev (example_blk True)] (boot_machine []) in
   length (filter (in_window 0xd0000270) (mmioDevices m)) = 1 \<and>
   length (mmioDevices m) = 2"
proof -
  define m where "m = fold (\<lambda>d m. snd (registerMMIODevice m d)) [NetDev example_net, BlkDev (example_blk True)] (boot_machine [])"
  have "find_window (mmioDevices m) 0xd0000270 = Some 1"
    by (simp add: m_def registerMMIODevice_def boot_machine_def Let_def MMIOBaseAddr_def MMIODeviceSize_def)
  then have "\<exists>d m'. serveMMIO 0 m 0xd0000270 [0, 0, 0, 0] False = (Stopped, True, d, m')"
    by (simp add: serveMMIO_def Let_def)
  then show ?thesis
    using mmio_isolated [OF m_def] unfolding m_def [symmetric] by fastforce
qed

end
