(* ===== verification/Float64.thy ===== *)
theory Float64
  imports Prelude
begin

text \<open>
  Go's \<^verbatim>\<open>float64\<close>, as far as the sources use it: comparison, equality, addition
  and conversion from an integer. A finite value is a mantissa and a power of two;
  addition is exact on those and then rounded to 53 bits, half to even. Inputs are
  multiples of \<open>2 ^ -1074\<close>, so sums are, and only the upper end of the range needs
  a case. The two zeros are one value: nothing here tells them apart.
\<close>

datatype float64 = NaN | Infinity bool | Fin int int

fun bit_len :: "nat \<Rightarrow> nat" where
  "bit_len n = (if n = 0 then 0 else Suc (bit_len (n div 2)))"

declare bit_len.simps [simp del]

definition f_pack :: "int \<Rightarrow> int \<Rightarrow> float64" where
  "f_pack m e = (if m \<noteq> 0 \<and> int (bit_len (nat \<bar>m\<bar>)) + e > 1024 then Infinity (m > 0) else Fin m e)"

definition f_round :: "int \<Rightarrow> int \<Rightarrow> float64" where
  "f_round m e =
     (let b = bit_len (nat \<bar>m\<bar>) in
      if b \<le> 53 then f_pack m e
      else let k = b - 53; q = \<bar>m\<bar> div 2 ^ k; r = \<bar>m\<bar> mod 2 ^ k; half = 2 ^ (k - 1);
               q' = (if r > half \<or> (r = half \<and> odd q) then q + 1 else q)
        in f_pack (sgn m * q') (e + int k))"

fun f_add :: "float64 \<Rightarrow> float64 \<Rightarrow> float64" where
  "f_add (Fin m e) (Fin m' e') =
     (let k = min e e' in f_round (m * 2 ^ nat (e - k) + m' * 2 ^ nat (e' - k)) k)"
| "f_add (Infinity p) (Infinity q) = (if p = q then Infinity p else NaN)"
| "f_add (Infinity p) (Fin m e) = Infinity p"
| "f_add (Fin m e) (Infinity p) = Infinity p"
| "f_add _ _ = NaN"

fun f_less :: "float64 \<Rightarrow> float64 \<Rightarrow> bool" where
  "f_less (Fin m e) (Fin m' e') = (let k = min e e' in m * 2 ^ nat (e - k) < m' * 2 ^ nat (e' - k))"
| "f_less (Infinity p) (Infinity q) = (\<not> p \<and> q)"
| "f_less (Infinity p) (Fin m e) = (\<not> p)"
| "f_less (Fin m e) (Infinity p) = p"
| "f_less _ _ = False"

fun f_eq :: "float64 \<Rightarrow> float64 \<Rightarrow> bool" where
  "f_eq (Fin m e) (Fin m' e') = (let k = min e e' in m * 2 ^ nat (e - k) = m' * 2 ^ nat (e' - k))"
| "f_eq (Infinity p) (Infinity q) = (p = q)"
| "f_eq _ _ = False"

definition f_of_int :: "int \<Rightarrow> float64" where
  "f_of_int n = f_round n 0"

definition is_nan :: "float64 \<Rightarrow> bool" where
  "is_nan x = (x = NaN)"

definition is_inf :: "float64 \<Rightarrow> bool" where
  "is_inf x = (case x of Infinity _ \<Rightarrow> True | _ \<Rightarrow> False)"

lemma bit_len_le: "n < 2 ^ k \<Longrightarrow> bit_len n \<le> k"
proof (induction n arbitrary: k rule: bit_len.induct)
  case (1 n)
  show ?case
  proof (cases "n = 0")
    case True
    then show ?thesis by (simp add: bit_len.simps)
  next
    case False
    with 1(2) obtain j where j: "k = Suc j" by (cases k) auto
    with 1(2) have "n div 2 < 2 ^ j" by simp
    from 1(1) [OF False this] False j show ?thesis by (subst bit_len.simps) simp
  qed
qed

text \<open>Integers below \<open>2 ^ 53\<close> are exact, and so are their sums.\<close>

lemma f_round_exact:
  assumes "\<bar>m\<bar> < 2 ^ 53" "e \<le> 971"
  shows "f_round m e = Fin m e"
proof -
  from assms have "nat \<bar>m\<bar> < 2 ^ 53" by simp
  then have "bit_len (nat \<bar>m\<bar>) \<le> 53" by (rule bit_len_le)
  with assms show ?thesis by (simp add: f_round_def f_pack_def)
qed

lemma f_of_int_exact: "\<bar>n\<bar> < 2 ^ 53 \<Longrightarrow> f_of_int n = Fin n 0"
  by (simp add: f_of_int_def f_round_exact)

end
