(* ===== verification/Kinds.thy ===== *)
theory Kinds
  imports Resource Float64 Pagination
begin

text \<open>
  Workload kinds of \<^verbatim>\<open>internal/domain/resource\<close>: nodes and node pools, compute
  instances, micro-VMs, disks and their replicas, functions and their instances,
  with the defaults and the admission checks of each spec. A check returns the
  first error of the source's order.
\<close>

subsection \<open>Nodes (\<^verbatim>\<open>node.go\<close>)\<close>

record node_capacity =
  cap_cpus :: int
  cap_memoryMb :: int
  cap_maxPods :: int

record node_spec =
  nd_hostname :: string
  nd_address :: string
  nd_labels :: smap
  nd_capacity :: node_capacity

definition NodeSpec_Validate :: "node_spec \<Rightarrow> error option" where
  "NodeSpec_Validate s =
     (if nd_hostname s = [] then Some (Errorf ''node: hostname is required'')
      else if nd_address s = [] then Some (Errorf ''node: address is required'')
      else if cap_cpus (nd_capacity s) \<le> 0 \<or> cap_memoryMb (nd_capacity s) \<le> 0
        then Some (Errorf ''node: capacity cpus and memoryMb must be positive'')
      else None)"

record node_allocated =
  na_cpus :: float64
  na_memoryMb :: int
  na_pods :: int

record node_status = status_base +
  nd_allocated :: node_allocated
  nd_lastSeen :: string

record node_pool_spec =
  np_name :: string
  np_nodeSelector :: smap
  np_minNodes :: int
  np_maxNodes :: int

definition NodePoolSpec_Validate :: "node_pool_spec \<Rightarrow> error option" where
  "NodePoolSpec_Validate s =
     (if np_name s = [] then Some (Errorf ''node_pool: name is required'')
      else if np_minNodes s < 0 \<or> np_maxNodes s < 0
        then Some (Errorf ''node_pool: minNodes and maxNodes must not be negative'')
      else if np_maxNodes s > 0 \<and> np_maxNodes s < np_minNodes s
        then Some (Errorf ''node_pool: maxNodes must be >= minNodes'')
      else None)"

record node_pool_status = status_base +
  np_readyNodes :: int
  np_totalNodes :: int

subsection \<open>Compute instances (\<^verbatim>\<open>compute.go\<close>)\<close>

definition FunctionPortRangeLo :: int where "FunctionPortRangeLo = 30000"
definition FunctionPortRangeHi :: int where "FunctionPortRangeHi = 32767"
definition MaxRuntimeCPU :: int where "MaxRuntimeCPU = 64"
definition MaxRuntimeMemoryMB :: int where "MaxRuntimeMemoryMB = 262144"
definition MaxRuntimePids :: int where "MaxRuntimePids = 4096"

record compute_disk_ref =
  cd_diskId :: string
  cd_mountPath :: string
  cd_readOnly :: bool

record compute_spec =
  co_name :: string
  co_subnetId :: string
  co_securityGroupId :: string
  co_nodePoolId :: string
  co_hostname :: string
  co_cpu :: float64
  co_memoryMb :: int
  co_pidsMax :: int
  co_image :: string
  co_command :: string
  co_env :: smap
  co_ports :: "string list"
  co_disks :: "compute_disk_ref list"
  co_privileged :: bool

definition zero_compute_spec :: compute_spec where
  "zero_compute_spec = \<lparr>co_name = [], co_subnetId = [], co_securityGroupId = [], co_nodePoolId = [],
     co_hostname = [], co_cpu = Fin 0 0, co_memoryMb = 0, co_pidsMax = 0, co_image = [], co_command = [],
     co_env = [], co_ports = [], co_disks = [], co_privileged = False\<rparr>"

definition is_letter :: "char \<Rightarrow> bool" where
  "is_letter c = ((CHR ''A'' \<le> c \<and> c \<le> CHR ''Z'') \<or> (CHR ''a'' \<le> c \<and> c \<le> CHR ''z''))"

definition is_digit :: "char \<Rightarrow> bool" where
  "is_digit c = (CHR ''0'' \<le> c \<and> c \<le> CHR ''9'')"

definition envName :: "string \<Rightarrow> bool" where
  "envName s = (case s of [] \<Rightarrow> False | c # cs \<Rightarrow> (is_letter c \<or> c = CHR ''_'') \<and>
     list_all (\<lambda>d. is_letter d \<or> is_digit d \<or> d = CHR ''_'') cs)"

definition hostName :: "string \<Rightarrow> bool" where
  "hostName s = (case s of [] \<Rightarrow> False | c # cs \<Rightarrow> (is_letter c \<or> is_digit c) \<and> length cs \<le> 252 \<and>
     list_all (\<lambda>d. is_letter d \<or> is_digit d \<or> d = CHR ''.'' \<or> d = CHR ''-'') cs)"

text \<open>The constant 0.01, rounded to a \<^verbatim>\<open>float64\<close>.\<close>

definition one_hundredth :: float64 where
  "one_hundredth = Fin 5764607523034235 (- 59)"

definition ValidateRuntimeLimits :: "compute_spec \<Rightarrow> error option" where
  "ValidateRuntimeLimits s =
     (if is_nan (co_cpu s) \<or> is_inf (co_cpu s) \<or> f_less (co_cpu s) (Fin 0 0) \<or>
         f_less (f_of_int MaxRuntimeCPU) (co_cpu s) \<or>
         (f_less (Fin 0 0) (co_cpu s) \<and> f_less (co_cpu s) one_hundredth)
      then Some (Errorf ''runtime: cpu must be zero/default or between 0.01 and 64'')
      else if co_memoryMb s < 0 \<or> co_memoryMb s > MaxRuntimeMemoryMB
        then Some (Errorf ''runtime: memoryMb out of range'')
      else if co_pidsMax s < 0 \<or> co_pidsMax s > MaxRuntimePids
        then Some (Errorf ''runtime: pidsMax out of range'')
      else None)"

definition reserved_port :: "string \<Rightarrow> bool" where
  "reserved_port mapping = (case cut mapping CHR '':'' of (host, _, _) \<Rightarrow>
     (case atoi host of None \<Rightarrow> False
      | Some port \<Rightarrow> port \<ge> FunctionPortRangeLo \<and> port \<le> FunctionPortRangeHi))"

definition ComputeSpec_Validate :: "compute_spec \<Rightarrow> error option" where
  "ComputeSpec_Validate s =
     (if co_hostname s \<noteq> [] \<and> \<not> hostName (co_hostname s) then Some (Errorf ''compute: invalid hostname'')
      else if list_ex (\<lambda>(k, v). \<not> envName k) (co_env s) then Some (Errorf ''compute: invalid environment name'')
      else if co_subnetId s = [] then Some (Errorf ''compute: subnetId is required'')
      else if co_image s = [] then Some (Errorf ''compute: image is required'')
      else case ValidateRuntimeLimits s of
        Some e \<Rightarrow> Some e
      | None \<Rightarrow>
          if list_ex reserved_port (co_ports s) then Some (Errorf ''compute: host ports are reserved for functions'')
          else if list_ex (\<lambda>d. cd_diskId d = [] \<or> cd_mountPath d = []) (co_disks s)
            then Some (Errorf ''compute: disk requires diskId and mountPath'')
          else None)"

record compute_status = status_base +
  cs_ip :: string
  cs_namespace :: string
  cs_vethHost :: string
  cs_rootfs :: string
  cs_ready :: bool
  cs_nodeName :: string

definition ComputeSpec_WithDefaults :: "compute_spec \<Rightarrow> compute_spec" where
  "ComputeSpec_WithDefaults s =
     s\<lparr>co_cpu := (if f_eq (co_cpu s) (Fin 0 0) then Fin 1 0 else co_cpu s),
       co_memoryMb := (if co_memoryMb s = 0 then 256 else co_memoryMb s),
       co_pidsMax := (if co_pidsMax s = 0 then 256 else co_pidsMax s)\<rparr>"

subsection \<open>Micro-VMs (\<^verbatim>\<open>microvm.go\<close>)\<close>

record microvm_spec =
  mv_name :: string
  mv_subnetId :: string
  mv_securityGroupId :: string
  mv_nodePoolId :: string
  mv_hostname :: string
  mv_vcpus :: int
  mv_memoryMb :: int
  mv_kernelPath :: string
  mv_initrdPath :: string
  mv_cmdLine :: string
  mv_image :: string
  mv_sshAuthorizedKey :: string
  mv_userData :: string

definition MicroVMSpec_Validate :: "microvm_spec \<Rightarrow> error option" where
  "MicroVMSpec_Validate s =
     (if mv_subnetId s = [] then Some (Errorf ''microvm: subnetId is required'')
      else if mv_vcpus s > MaxRuntimeCPU \<or> mv_memoryMb s > MaxRuntimeMemoryMB
        then Some (Errorf ''microvm: runtime sizing exceeds admission limits'')
      else if mv_vcpus s \<le> 0 then Some (Errorf ''microvm: vcpus must be positive'')
      else if mv_memoryMb s \<le> 0 then Some (Errorf ''microvm: memoryMb must be positive'')
      else if mv_kernelPath s = [] then Some (Errorf ''microvm: kernelPath is required'')
      else if mv_image s = [] then Some (Errorf ''microvm: image is required'')
      else None)"

record microvm_status = status_base +
  mvs_ip :: string
  mvs_tap :: string
  mvs_pid :: int
  mvs_ready :: bool
  mvs_nodeName :: string

subsection \<open>Disks, files on disks and replicas (\<^verbatim>\<open>disk.go\<close>, \<^verbatim>\<open>disk_replica.go\<close>)\<close>

definition MinEncryptedDiskMB :: int where "MinEncryptedDiskMB = 32"
definition MaxDiskSizeMB :: int where "MaxDiskSizeMB = 2 ^ 20"

record disk_spec =
  dk_name :: string
  dk_sizeMb :: int
  dk_kmsKeyId :: string

definition DiskSpec_Validate :: "disk_spec \<Rightarrow> error option" where
  "DiskSpec_Validate s =
     (if dk_sizeMb s > MaxDiskSizeMB then Some (Errorf ''disk: sizeMb must not exceed 1048576 (1 TiB)'')
      else if dk_sizeMb s \<le> 0 then Some (Errorf ''disk: sizeMb must be positive'')
      else if dk_kmsKeyId s \<noteq> [] \<and> dk_sizeMb s < MinEncryptedDiskMB
        then Some (Errorf ''disk: an encrypted disk needs at least 32 MB, its LUKS header taking 16 MiB'')
      else None)"

record disk_status = status_base +
  ds_encrypted :: bool
  ds_path :: string
  ds_nodeName :: string

record disk_file_spec =
  df_diskId :: string
  df_path :: string
  df_content :: string
  df_mode :: string
  df_sslCertId :: string
  df_sslPart :: string

definition SSLPartCertificate :: string where "SSLPartCertificate = ''certificate''"
definition SSLPartChain :: string where "SSLPartChain = ''chain''"
definition SSLPartPrivateKey :: string where "SSLPartPrivateKey = ''private_key''"

definition DiskFileSpec_Validate :: "disk_file_spec \<Rightarrow> error option" where
  "DiskFileSpec_Validate s =
     (if df_diskId s = [] then Some (Errorf ''disk_file: diskId is required'')
      else if df_path s = [] then Some (Errorf ''disk_file: path is required'')
      else if df_sslCertId s \<noteq> [] then
        (if df_content s \<noteq> [] then Some (Errorf ''disk_file: content and sslCertId are exclusive'')
         else if df_sslPart s = SSLPartCertificate \<or> df_sslPart s = SSLPartChain \<or> df_sslPart s = SSLPartPrivateKey
           then None
         else Some (Errorf ''disk_file: sslPart must be certificate, chain or private_key''))
      else if df_sslPart s \<noteq> [] then Some (Errorf ''disk_file: sslPart needs sslCertId'')
      else None)"

definition FailoverModeOptimistic :: string where "FailoverModeOptimistic = ''optimistic''"
definition FailoverModeConfirmed :: string where "FailoverModeConfirmed = ''confirmed''"

record failover_policy =
  fp_mode :: string

definition FailoverPolicy_Validate :: "failover_policy \<Rightarrow> error option" where
  "FailoverPolicy_Validate p =
     (if fp_mode p = [] \<or> fp_mode p = FailoverModeOptimistic \<or> fp_mode p = FailoverModeConfirmed then None
      else Some (Errorf ''failoverPolicy: mode must be optimistic or confirmed''))"

definition EffectiveMode :: "failover_policy \<Rightarrow> string" where
  "EffectiveMode p = (if fp_mode p = [] then FailoverModeConfirmed else fp_mode p)"

definition DefaultAsyncReplicaIntervalSeconds :: int where "DefaultAsyncReplicaIntervalSeconds = 60"

record async_disk_replica_spec =
  dr_diskId :: string
  dr_targetNodePoolId :: string
  dr_intervalSeconds :: int
  dr_failoverPolicy :: failover_policy

definition AsyncDiskReplicaSpec_Validate :: "async_disk_replica_spec \<Rightarrow> error option" where
  "AsyncDiskReplicaSpec_Validate s =
     (if dr_diskId s = [] then Some (Errorf ''async_disk_replica: diskId is required'')
      else if dr_intervalSeconds s < 0 then Some (Errorf ''async_disk_replica: intervalSeconds must not be negative'')
      else FailoverPolicy_Validate (dr_failoverPolicy s))"

definition IntervalOrDefault :: "async_disk_replica_spec \<Rightarrow> int" where
  "IntervalOrDefault s =
     (if dr_intervalSeconds s = 0 then DefaultAsyncReplicaIntervalSeconds else dr_intervalSeconds s)"

record async_disk_replica_status = status_base +
  drs_nodeName :: string
  drs_lastSyncedAt :: string
  drs_bytesSynced :: int

subsection \<open>Functions (\<^verbatim>\<open>function.go\<close>, \<^verbatim>\<open>function_instance.go\<close>)\<close>

record warm_pool_policy =
  wp_minWarm :: int
  wp_maxWarm :: int
  wp_idleTtlSeconds :: int
  wp_allowColdStart :: bool

definition WarmPoolPolicy_Validate :: "warm_pool_policy \<Rightarrow> error option" where
  "WarmPoolPolicy_Validate p =
     (if wp_minWarm p > 256 \<or> wp_maxWarm p > 256 then Some (Errorf ''function: warm pool sizes must not exceed 256'')
      else if wp_minWarm p < 0 then Some (Errorf ''function: warmPool.minWarm must not be negative'')
      else if wp_maxWarm p < 0 then Some (Errorf ''function: warmPool.maxWarm must not be negative'')
      else if wp_maxWarm p > 0 \<and> wp_maxWarm p < wp_minWarm p
        then Some (Errorf ''function: warmPool.maxWarm must be >= minWarm'')
      else if wp_idleTtlSeconds p < 0 then Some (Errorf ''function: warmPool.idleTtlSeconds must not be negative'')
      else None)"

record function_spec =
  fn_name :: string
  fn_subnetId :: string
  fn_securityGroupId :: string
  fn_nodePoolId :: string
  fn_cpu :: float64
  fn_memoryMb :: int
  fn_pidsMax :: int
  fn_image :: string
  fn_command :: string
  fn_env :: smap
  fn_port :: int
  fn_warmPool :: warm_pool_policy

definition function_runtime :: "function_spec \<Rightarrow> compute_spec" where
  "function_runtime s = zero_compute_spec\<lparr>co_cpu := fn_cpu s, co_memoryMb := fn_memoryMb s, co_pidsMax := fn_pidsMax s\<rparr>"

definition FunctionSpec_Validate :: "function_spec \<Rightarrow> error option" where
  "FunctionSpec_Validate s =
     (if fn_subnetId s = [] then Some (Errorf ''function: subnetId is required'')
      else if fn_image s = [] then Some (Errorf ''function: image is required'')
      else case ValidateRuntimeLimits (function_runtime s) of
        Some e \<Rightarrow> Some e
      | None \<Rightarrow>
          if fn_port s < 1 \<or> fn_port s > 65535 then Some (Errorf ''function: port out of range'')
          else WarmPoolPolicy_Validate (fn_warmPool s))"

record function_status = status_base +
  fs_warmCount :: int

definition FunctionSpec_WithDefaults :: "function_spec \<Rightarrow> function_spec" where
  "FunctionSpec_WithDefaults s =
     (let runtime = ComputeSpec_WithDefaults (function_runtime s); wp = fn_warmPool s in
      s\<lparr>fn_cpu := co_cpu runtime, fn_memoryMb := co_memoryMb runtime, fn_pidsMax := co_pidsMax runtime,
        fn_warmPool := (if wp_maxWarm wp = 0 then wp\<lparr>wp_maxWarm := max 32 (wp_minWarm wp)\<rparr> else wp)\<rparr>)"

definition FunctionInstanceWarm :: string where "FunctionInstanceWarm = ''Warm''"
definition FunctionInstanceAssigned :: string where "FunctionInstanceAssigned = ''Assigned''"

record function_instance_spec =
  fi_functionId :: string
  fi_computeId :: string

definition FunctionInstanceSpec_Validate :: "function_instance_spec \<Rightarrow> error option" where
  "FunctionInstanceSpec_Validate s =
     (if fi_functionId s = [] then Some (Errorf ''function_instance: functionId is required'')
      else if fi_computeId s = [] then Some (Errorf ''function_instance: computeId is required'')
      else None)"

record function_instance_status = status_base +
  fi_state :: string
  fi_lastUsedAt :: string
  fi_port :: int
  fi_nodeName :: string

subsection \<open>Defaults and admission of runtime limits\<close>

text \<open>
  Omitted limits become finite ones, filling them twice changes nothing, and the
  verdict of the admission check is the same before and after.
\<close>

lemma f_eq_zero: "f_eq x (Fin 0 0) \<longleftrightarrow> (\<exists>e. x = Fin 0 e)"
  by (cases x) auto

lemma compute_defaults_idem [simp]:
  "ComputeSpec_WithDefaults (ComputeSpec_WithDefaults s) = ComputeSpec_WithDefaults s"
  by (simp add: ComputeSpec_WithDefaults_def)

lemma cpu_default [simp]:
  "is_nan (co_cpu (ComputeSpec_WithDefaults s)) \<longleftrightarrow> is_nan (co_cpu s)"
  "is_inf (co_cpu (ComputeSpec_WithDefaults s)) \<longleftrightarrow> is_inf (co_cpu s)"
  "f_less (co_cpu (ComputeSpec_WithDefaults s)) (Fin 0 0) \<longleftrightarrow> f_less (co_cpu s) (Fin 0 0)"
  "f_less (Fin 64 0) (co_cpu (ComputeSpec_WithDefaults s)) \<longleftrightarrow> f_less (Fin 64 0) (co_cpu s)"
  "f_less (co_cpu (ComputeSpec_WithDefaults s)) one_hundredth \<longleftrightarrow>
     f_less (co_cpu s) one_hundredth \<and> \<not> f_eq (co_cpu s) (Fin 0 0)"
  "f_less (Fin 0 0) (co_cpu (ComputeSpec_WithDefaults s)) \<longleftrightarrow>
     f_less (Fin 0 0) (co_cpu s) \<or> f_eq (co_cpu s) (Fin 0 0)"
  by (auto simp: ComputeSpec_WithDefaults_def f_eq_zero is_nan_def is_inf_def one_hundredth_def)

lemma int_defaults [simp]:
  "co_memoryMb (ComputeSpec_WithDefaults s) = (if co_memoryMb s = 0 then 256 else co_memoryMb s)"
  "co_pidsMax (ComputeSpec_WithDefaults s) = (if co_pidsMax s = 0 then 256 else co_pidsMax s)"
  by (simp_all add: ComputeSpec_WithDefaults_def)

lemma f_of_MaxRuntimeCPU [simp]: "f_of_int MaxRuntimeCPU = Fin 64 0"
  by (simp add: MaxRuntimeCPU_def f_of_int_exact)

lemma zero_not_less [simp]: "f_eq x (Fin 0 0) \<Longrightarrow> \<not> f_less (Fin 0 0) x"
  by (auto simp: f_eq_zero)

lemma limits_defaults [simp]:
  "ValidateRuntimeLimits (ComputeSpec_WithDefaults s) = ValidateRuntimeLimits s"
proof -
  have "(f_less (Fin 0 0) (co_cpu s) \<or> f_eq (co_cpu s) (Fin 0 0)) \<and>
      f_less (co_cpu s) one_hundredth \<and> \<not> f_eq (co_cpu s) (Fin 0 0) \<longleftrightarrow>
    f_less (Fin 0 0) (co_cpu s) \<and> f_less (co_cpu s) one_hundredth"
    by (auto dest: zero_not_less)
  then show ?thesis
    by (simp add: ValidateRuntimeLimits_def MaxRuntimeMemoryMB_def MaxRuntimePids_def)
qed

lemma compute_validate_defaults [simp]:
  "ComputeSpec_Validate (ComputeSpec_WithDefaults s) = ComputeSpec_Validate s"
  unfolding ComputeSpec_Validate_def limits_defaults by (simp add: ComputeSpec_WithDefaults_def)

lemma function_runtime_defaults [simp]:
  "function_runtime (FunctionSpec_WithDefaults s) = ComputeSpec_WithDefaults (function_runtime s)"
  by (simp add: function_runtime_def FunctionSpec_WithDefaults_def ComputeSpec_WithDefaults_def
      zero_compute_spec_def Let_def)

lemma function_defaults_idem [simp]:
  "FunctionSpec_WithDefaults (FunctionSpec_WithDefaults s) = FunctionSpec_WithDefaults s"
  unfolding FunctionSpec_WithDefaults_def [of "FunctionSpec_WithDefaults s"]
    function_runtime_defaults compute_defaults_idem
  by (simp add: FunctionSpec_WithDefaults_def [of s] Let_def)

lemma function_validate_defaults [simp]:
  "FunctionSpec_Validate (FunctionSpec_WithDefaults s) = FunctionSpec_Validate s"
proof -
  have "WarmPoolPolicy_Validate (fn_warmPool (FunctionSpec_WithDefaults s)) = WarmPoolPolicy_Validate (fn_warmPool s)"
    by (auto simp: WarmPoolPolicy_Validate_def FunctionSpec_WithDefaults_def Let_def)
  moreover have "fn_subnetId (FunctionSpec_WithDefaults s) = fn_subnetId s"
    "fn_image (FunctionSpec_WithDefaults s) = fn_image s" "fn_port (FunctionSpec_WithDefaults s) = fn_port s"
    by (simp_all add: FunctionSpec_WithDefaults_def Let_def)
  ultimately show ?thesis
    by (cases "ValidateRuntimeLimits (function_runtime s)") (simp_all add: FunctionSpec_Validate_def)
qed

lemma not_negative:
  "\<not> is_nan x \<Longrightarrow> \<not> f_less x (Fin 0 0) \<Longrightarrow> f_eq x (Fin 0 0) \<or> f_less (Fin 0 0) x"
  by (cases x) (auto simp: is_nan_def min.commute zero_less_mult_iff mult_less_0_iff)

lemma compute_validate_limits: "ComputeSpec_Validate s = None \<Longrightarrow> ValidateRuntimeLimits s = None"
  by (auto simp: ComputeSpec_Validate_def split: if_splits option.splits)

lemma admitted_limits:
  assumes "ValidateRuntimeLimits s = None"
  shows "\<not> f_less (co_cpu (ComputeSpec_WithDefaults s)) one_hundredth"
    "\<not> f_less (Fin 64 0) (co_cpu (ComputeSpec_WithDefaults s))"
    "\<not> is_nan (co_cpu (ComputeSpec_WithDefaults s))" "\<not> is_inf (co_cpu (ComputeSpec_WithDefaults s))"
    "co_memoryMb (ComputeSpec_WithDefaults s) \<in> {1..262144}"
    "co_pidsMax (ComputeSpec_WithDefaults s) \<in> {1..4096}"
  using assms not_negative [of "co_cpu s"]
  by (auto simp: ValidateRuntimeLimits_def MaxRuntimeMemoryMB_def MaxRuntimePids_def split: if_splits)

end
