(* ===== verification/TrafficKinds.thy ===== *)
theory TrafficKinds
  imports Kinds
begin

text \<open>
  Traffic and credential kinds of \<^verbatim>\<open>internal/domain/resource\<close>: layer-7 listeners
  with their target groups, layer-4 load balancers, firewall policies, DNS,
  peerings, certificates, keys, secrets, users and tokens, with defaults and
  admission checks.
\<close>

subsection \<open>Listeners and target groups (\<^verbatim>\<open>listener.go\<close>)\<close>

definition LBProtocolHTTP :: string where "LBProtocolHTTP = ''http''"
definition LBProtocolHTTPS :: string where "LBProtocolHTTPS = ''https''"
definition LBProtocolTLS :: string where "LBProtocolTLS = ''tls''"
definition LBProtocolTCP :: string where "LBProtocolTCP = ''tcp''"
definition TLSModeTerminate :: string where "TLSModeTerminate = ''terminate''"
definition TLSModeReencrypt :: string where "TLSModeReencrypt = ''reencrypt''"
definition TLSModePassthrough :: string where "TLSModePassthrough = ''passthrough''"

lemmas lb_consts = LBProtocolHTTP_def LBProtocolHTTPS_def LBProtocolTLS_def LBProtocolTCP_def
  TLSModeTerminate_def TLSModeReencrypt_def TLSModePassthrough_def

record lb_health_check =
  hc_protocol :: string
  hc_path :: string
  hc_port :: int
  hc_intervalSeconds :: int
  hc_timeoutSeconds :: int
  hc_healthyThreshold :: int
  hc_unhealthyThreshold :: int

record lb_target_group_spec =
  tg_vpcId :: string
  tg_protocol :: string
  tg_port :: int
  tg_backendCaId :: string
  tg_serverName :: string
  tg_healthCheck :: lb_health_check

definition health_defaults :: "string \<Rightarrow> lb_health_check \<Rightarrow> lb_health_check" where
  "health_defaults protocol hc =
     (let p = (if hc_protocol hc = [] then protocol else hc_protocol hc) in
      hc\<lparr>hc_protocol := p,
         hc_path := (if hc_path hc = [] \<and> p \<noteq> LBProtocolTCP then ''/'' else hc_path hc),
         hc_intervalSeconds := (if hc_intervalSeconds hc = 0 then 5 else hc_intervalSeconds hc),
         hc_timeoutSeconds := (if hc_timeoutSeconds hc = 0 then 2 else hc_timeoutSeconds hc),
         hc_healthyThreshold := (if hc_healthyThreshold hc = 0 then 2 else hc_healthyThreshold hc),
         hc_unhealthyThreshold := (if hc_unhealthyThreshold hc = 0 then 3 else hc_unhealthyThreshold hc)\<rparr>)"

definition LBTargetGroupSpec_WithDefaults :: "lb_target_group_spec \<Rightarrow> lb_target_group_spec" where
  "LBTargetGroupSpec_WithDefaults s0 =
     (let s = (if tg_protocol s0 = [] then s0\<lparr>tg_protocol := LBProtocolHTTP\<rparr> else s0)
      in s\<lparr>tg_healthCheck := health_defaults (tg_protocol s) (tg_healthCheck s)\<rparr>)"

definition health_check_validate :: "lb_health_check \<Rightarrow> error option" where
  "health_check_validate hc =
     (if hc_protocol hc = LBProtocolHTTP \<or> hc_protocol hc = LBProtocolHTTPS then
        (if \<not> has_prefix (hc_path hc) ''/''
         then Some (Errorf ''lb_target_group: health check path must start with /'') else None)
      else if hc_protocol hc = LBProtocolTCP then
        (if hc_path hc \<noteq> [] then Some (Errorf ''lb_target_group: a tcp health check takes no path'') else None)
      else Some (Errorf ''lb_target_group: health check protocol must be http, https or tcp''))"

definition health_check_ranges :: "lb_health_check \<Rightarrow> error option" where
  "health_check_ranges hc =
     (if hc_port hc < 0 \<or> hc_port hc > 65535 then Some (Errorf ''lb_target_group: health check port out of range'')
      else if hc_intervalSeconds hc < 1 \<or> hc_timeoutSeconds hc < 1 \<or> hc_timeoutSeconds hc \<ge> hc_intervalSeconds hc
        then Some (Errorf ''lb_target_group: health check timeout must be at least 1s and shorter than the interval'')
      else if hc_healthyThreshold hc < 1 \<or> hc_healthyThreshold hc > 10 \<or>
          hc_unhealthyThreshold hc < 1 \<or> hc_unhealthyThreshold hc > 10
        then Some (Errorf ''lb_target_group: health check thresholds must be between 1 and 10'')
      else None)"

definition LBTargetGroupSpec_Validate :: "lb_target_group_spec \<Rightarrow> error option" where
  "LBTargetGroupSpec_Validate s0 =
     (let s = LBTargetGroupSpec_WithDefaults s0; hc = tg_healthCheck s in
      if tg_vpcId s = [] then Some (Errorf ''lb_target_group: vpcId is required'')
      else if \<not> (tg_protocol s = LBProtocolHTTP \<or> tg_protocol s = LBProtocolHTTPS \<or> tg_protocol s = LBProtocolTCP)
        then Some (Errorf ''lb_target_group: protocol must be http, https or tcp'')
      else if tg_port s < 1 \<or> tg_port s > 65535 then Some (Errorf ''lb_target_group: port out of range'')
      else if tg_backendCaId s \<noteq> [] \<and> tg_protocol s \<noteq> LBProtocolHTTPS
        then Some (Errorf ''lb_target_group: backendCaId requires the https protocol'')
      else if tg_serverName s \<noteq> [] \<and> tg_protocol s \<noteq> LBProtocolHTTPS
        then Some (Errorf ''lb_target_group: serverName requires the https protocol'')
      else case health_check_validate hc of
        Some e \<Rightarrow> Some e
      | None \<Rightarrow> health_check_ranges hc)"

record lb_target_health =
  th_computeId :: string
  th_address :: string
  th_port :: int
  th_health :: string
  th_nodeName :: string

record lb_target_group_status = status_base +
  tgs_targets :: "lb_target_health list"

record lb_target_spec =
  lt_targetGroupId :: string
  lt_computeId :: string
  lt_port :: int
  lt_weight :: int

definition LBTargetSpec_WithDefaults :: "lb_target_spec \<Rightarrow> lb_target_spec" where
  "LBTargetSpec_WithDefaults s = (if lt_weight s = 0 then s\<lparr>lt_weight := 1\<rparr> else s)"

definition LBTargetSpec_Validate :: "lb_target_spec \<Rightarrow> error option" where
  "LBTargetSpec_Validate s0 =
     (let s = LBTargetSpec_WithDefaults s0 in
      if lt_targetGroupId s = [] then Some (Errorf ''lb_target: targetGroupId is required'')
      else if lt_computeId s = [] then Some (Errorf ''lb_target: computeId is required'')
      else if lt_port s < 0 \<or> lt_port s > 65535 then Some (Errorf ''lb_target: port out of range'')
      else if lt_weight s < 1 \<or> lt_weight s > 1000 then Some (Errorf ''lb_target: weight must be between 1 and 1000'')
      else None)"

record lb_listener_rule =
  lr_host :: string
  lr_pathPrefix :: string
  lr_targetGroupId :: string

record lb_listener_spec =
  ln_loadBalancerId :: string
  ln_port :: int
  ln_protocol :: string
  ln_tlsMode :: string
  ln_certificateIds :: "string list"
  ln_defaultTargetGroupId :: string
  ln_rules :: "lb_listener_rule list"

definition LBListenerSpec_WithDefaults :: "lb_listener_spec \<Rightarrow> lb_listener_spec" where
  "LBListenerSpec_WithDefaults s =
     (if ln_tlsMode s = [] then
        (if ln_protocol s = LBProtocolHTTPS then s\<lparr>ln_tlsMode := TLSModeTerminate\<rparr>
         else if ln_protocol s = LBProtocolTLS then s\<lparr>ln_tlsMode := TLSModePassthrough\<rparr>
         else s)
      else s)"

definition contains_any :: "string \<Rightarrow> string \<Rightarrow> bool" where
  "contains_any s cs = list_ex (\<lambda>c. c \<in> set cs) s"

definition LBListenerRule_validate :: "lb_listener_rule \<Rightarrow> string \<Rightarrow> error option" where
  "LBListenerRule_validate r protocol =
     (if lr_targetGroupId r = [] then Some (Errorf ''targetGroupId is required'')
      else if lr_host r = [] \<and> lr_pathPrefix r = []
        then Some (Errorf ''a rule matches a host, a path prefix or both'')
      else if contains_any (lr_host r) [CHR ''/'', CHR '':'', CHR '' '', CHR 0x09]
        then Some (Errorf ''host is not a host name'')
      else if lr_pathPrefix r \<noteq> [] then
        (if protocol = LBProtocolTLS then Some (Errorf ''a tls listener routes on the SNI host only'')
         else if \<not> has_prefix (lr_pathPrefix r) ''/'' then Some (Errorf ''pathPrefix must start with /'')
         else None)
      else None)"

fun listener_rules :: "string \<Rightarrow> lb_listener_rule list \<Rightarrow> error option" where
  "listener_rules protocol [] = None"
| "listener_rules protocol (r # rs) = (case LBListenerRule_validate r protocol of
     Some e \<Rightarrow> Some (Wrap ''lb_listener: rule'' e)
   | None \<Rightarrow> listener_rules protocol rs)"

definition listener_tls :: "lb_listener_spec \<Rightarrow> error option" where
  "listener_tls s =
     (if ln_protocol s = LBProtocolHTTP then
        (if ln_tlsMode s \<noteq> [] \<or> ln_certificateIds s \<noteq> []
         then Some (Errorf ''lb_listener: an http listener takes no tlsMode nor certificates'') else None)
      else if ln_protocol s = LBProtocolHTTPS then
        (if ln_tlsMode s \<noteq> TLSModeTerminate \<and> ln_tlsMode s \<noteq> TLSModeReencrypt
         then Some (Errorf ''lb_listener: an https tlsMode must be terminate or reencrypt'')
         else if ln_certificateIds s = [] then Some (Errorf ''lb_listener: an https listener needs at least one certificate'')
         else None)
      else if ln_protocol s = LBProtocolTLS then
        (if ln_tlsMode s \<noteq> TLSModePassthrough then Some (Errorf ''lb_listener: a tls tlsMode must be passthrough'')
         else if ln_certificateIds s \<noteq> [] then Some (Errorf ''lb_listener: a tls listener takes no certificates'')
         else None)
      else if ln_protocol s = LBProtocolTCP then
        (if ln_tlsMode s \<noteq> [] \<or> ln_certificateIds s \<noteq> [] \<or> ln_rules s \<noteq> []
         then Some (Errorf ''lb_listener: a tcp listener takes no tlsMode, certificates nor rules'') else None)
      else Some (Errorf ''lb_listener: protocol must be http, https, tls or tcp''))"

definition LBListenerSpec_Validate :: "lb_listener_spec \<Rightarrow> error option" where
  "LBListenerSpec_Validate s0 =
     (let s = LBListenerSpec_WithDefaults s0 in
      if ln_loadBalancerId s = [] then Some (Errorf ''lb_listener: loadBalancerId is required'')
      else if ln_port s < 1 \<or> ln_port s > 65535 then Some (Errorf ''lb_listener: port out of range'')
      else if ln_defaultTargetGroupId s = [] then Some (Errorf ''lb_listener: defaultTargetGroupId is required'')
      else if list_ex (\<lambda>i. i = []) (ln_certificateIds s)
        then Some (Errorf ''lb_listener: certificateIds must not hold an empty id'')
      else case listener_tls s of
        Some e \<Rightarrow> Some e
      | None \<Rightarrow> listener_rules (ln_protocol s) (ln_rules s))"

subsection \<open>Layer-4 load balancers (\<^verbatim>\<open>loadbalancer.go\<close>)\<close>

record load_balancer_spec =
  lb_name :: string
  lb_vpcId :: string
  lb_address :: string
  lb_port :: int
  lb_protocol :: string
  lb_algorithm :: string
  lb_publicIpId :: string

definition LoadBalancerSpec_Validate :: "load_balancer_spec \<Rightarrow> error option" where
  "LoadBalancerSpec_Validate s =
     (if lb_vpcId s = [] then Some (Errorf ''load_balancer: vpcId is required'')
      else if lb_port s < 0 \<or> lb_port s > 65535 then Some (Errorf ''load_balancer: port out of range'')
      else if lb_protocol s \<notin> {[], ''tcp'', ''udp''} then Some (Errorf ''load_balancer: protocol must be tcp or udp'')
      else if lb_algorithm s \<notin> {[], ''round_robin'', ''least_conn'', ''source''}
        then Some (Errorf ''load_balancer: invalid algorithm'')
      else None)"

record load_balancer_status = status_base +
  lbs_address :: string
  lbs_serviceId :: string
  lbs_publicAddress :: string

record lb_backend_spec =
  bk_lbId :: string
  bk_computeId :: string
  bk_port :: int
  bk_weight :: int

definition LBBackendSpec_Validate :: "lb_backend_spec \<Rightarrow> error option" where
  "LBBackendSpec_Validate s =
     (if bk_lbId s = [] then Some (Errorf ''lb_backend: lbId is required'')
      else if bk_computeId s = [] then Some (Errorf ''lb_backend: computeId is required'')
      else if bk_port s < 1 \<or> bk_port s > 65535 then Some (Errorf ''lb_backend: port out of range'')
      else if bk_weight s < 0 then Some (Errorf ''lb_backend: weight must not be negative'')
      else None)"

subsection \<open>Firewall policies (\<^verbatim>\<open>waf.go\<close>)\<close>

record waf_policy_spec =
  wf_name :: string
  wf_targetType :: string
  wf_targetId :: string
  wf_logEnabled :: bool

definition WAFPolicySpec_Validate :: "waf_policy_spec \<Rightarrow> error option" where
  "WAFPolicySpec_Validate s =
     (if wf_targetType s \<notin> {''igw'', ''subnet'', ''compute''}
      then Some (Errorf ''waf_policy: targetType must be igw, subnet or compute'')
      else if wf_targetId s = [] then Some (Errorf ''waf_policy: targetId is required'')
      else None)"

record waf_rule_spec =
  wr_policyId :: string
  wr_priority :: int
  wr_matchType :: string
  wr_matchValue :: string
  wr_action :: string
  wr_rateLimit :: int
  wr_rateWindow :: int

definition WAFRuleSpec_Validate :: "waf_rule_spec \<Rightarrow> error option" where
  "WAFRuleSpec_Validate s =
     (if wr_policyId s = [] then Some (Errorf ''waf_rule: policyId is required'')
      else if wr_matchType s = [] then Some (Errorf ''waf_rule: matchType is required'')
      else if wr_action s \<notin> {''block'', ''allow'', ''log'', ''ratelimit''}
        then Some (Errorf ''waf_rule: action must be block, allow, log or ratelimit'')
      else if wr_action s = ''ratelimit'' \<and> wr_rateLimit s \<le> 0
        then Some (Errorf ''waf_rule: ratelimit action requires a positive rateLimit'')
      else None)"

subsection \<open>DNS, peerings and egress domains (\<^verbatim>\<open>dns.go\<close>, \<^verbatim>\<open>peering.go\<close>, \<^verbatim>\<open>egress.go\<close>)\<close>

definition dnsRecordTypes :: "string list" where
  "dnsRecordTypes = [''A'', ''AAAA'', ''CNAME'', ''TXT'', ''MX'', ''NS'', ''SRV'', ''PTR'', ''CAA'']"

record dns_zone_spec =
  dz_name :: string
  dz_domain :: string
  dz_visibility :: string
  dz_vpcIds :: "string list"

definition DNSZoneSpec_Validate :: "dns_zone_spec \<Rightarrow> error option" where
  "DNSZoneSpec_Validate s =
     (if dz_domain s = [] then Some (Errorf ''dns_zone: domain is required'')
      else if dz_visibility s \<notin> {[], ''public'', ''private''}
        then Some (Errorf ''dns_zone: visibility must be public or private'')
      else None)"

record dns_record_spec =
  dn_zoneId :: string
  dn_name :: string
  dn_type :: string
  dn_ttl :: int
  dn_records :: "string list"

definition DNSRecordSpec_Validate :: "dns_record_spec \<Rightarrow> error option" where
  "DNSRecordSpec_Validate s =
     (if dn_zoneId s = [] then Some (Errorf ''dns_record: zoneId is required'')
      else if dn_type s \<notin> set dnsRecordTypes then Some (Errorf ''dns_record: unsupported type'')
      else if dn_records s = [] then Some (Errorf ''dns_record: at least one record value is required'')
      else if dn_ttl s < 0 then Some (Errorf ''dns_record: ttl must not be negative'')
      else None)"

record peering_spec =
  pe_vpc1Id :: string
  pe_vpc2Id :: string

definition PeeringSpec_Validate :: "peering_spec \<Rightarrow> error option" where
  "PeeringSpec_Validate s =
     (if pe_vpc1Id s = [] \<or> pe_vpc2Id s = [] then Some (Errorf ''peering: vpc1Id and vpc2Id are required'')
      else if pe_vpc1Id s = pe_vpc2Id s then Some (Errorf ''peering: cannot peer a VPC with itself'')
      else None)"

definition is_lower :: "char \<Rightarrow> bool" where
  "is_lower c = (CHR ''a'' \<le> c \<and> c \<le> CHR ''z'')"

definition label_ok :: "string \<Rightarrow> bool" where
  "label_ok l = (l \<noteq> [] \<and> length l \<le> 63 \<and> hd l \<noteq> CHR ''-'' \<and> last l \<noteq> CHR ''-'' \<and>
     list_all (\<lambda>c. is_lower c \<or> is_digit c \<or> c = CHR ''-'') l)"

text \<open>
  \<^verbatim>\<open>strings.ToLower\<close> is taken on ASCII letters: a name with any other upper case
  letter is refused too, by the loop over its labels.
\<close>

definition validDomainPattern :: "string \<Rightarrow> error option" where
  "validDomainPattern p =
     (let name = trim_prefix p ''*.'' in
      if name = [] \<or> length name > 253 \<or> list_ex (\<lambda>c. CHR ''A'' \<le> c \<and> c \<le> CHR ''Z'') name \<or> last name = CHR ''.''
      then Some (Errorf ''not a lowercase domain such as example.com or *.example.com'')
      else if list_all label_ok (split_on CHR ''.'' name) then None
      else Some (Errorf ''not a valid domain''))"

subsection \<open>Certificates, keys, secrets, users and tokens\<close>

record ssl_ca_spec =
  ca_commonName :: string
  ca_organization :: string
  ca_validDays :: int
  ca_vpcIds :: "string list"
  ca_global :: bool

definition SSLCASpec_Validate :: "ssl_ca_spec \<Rightarrow> error option" where
  "SSLCASpec_Validate s =
     (if ca_commonName s = [] then Some (Errorf ''ssl_ca: commonName is required'')
      else if ca_validDays s < 0 then Some (Errorf ''ssl_ca: validDays must not be negative'')
      else None)"

record ssl_cert_spec =
  ce_caId :: string
  ce_commonName :: string
  ce_dnsNames :: "string list"
  ce_ipAddresses :: "string list"
  ce_validDays :: int

definition SSLCertSpec_Validate :: "ssl_cert_spec \<Rightarrow> error option" where
  "SSLCertSpec_Validate s =
     (if ce_caId s = [] then Some (Errorf ''ssl_cert: caId is required'')
      else if ce_commonName s = [] then Some (Errorf ''ssl_cert: commonName is required'')
      else if ce_validDays s < 0 then Some (Errorf ''ssl_cert: validDays must not be negative'')
      else None)"

record kms_keyring_spec =
  kr_name :: string

definition KMSKeyringSpec_Validate :: "kms_keyring_spec \<Rightarrow> error option" where
  "KMSKeyringSpec_Validate s = (if kr_name s = [] then Some (Errorf ''kms_keyring: name is required'') else None)"

record kms_key_spec =
  kk_keyringId :: string
  kk_name :: string
  kk_purpose :: string
  kk_algorithm :: string
  kk_rotationPeriod :: string

definition KMSKeySpec_Validate :: "kms_key_spec \<Rightarrow> error option" where
  "KMSKeySpec_Validate s =
     (if kk_keyringId s = [] then Some (Errorf ''kms_key: keyringId is required'')
      else if kk_name s = [] then Some (Errorf ''kms_key: name is required'')
      else None)"

record secret_spec =
  se_data :: string

definition SecretSpec_Validate :: "secret_spec \<Rightarrow> error option" where
  "SecretSpec_Validate s = (if se_data s = [] then Some (Errorf ''secret: data is required'') else None)"

record secret_version_spec =
  sv_secretId :: string
  sv_data :: string

definition SecretVersionSpec_Validate :: "secret_version_spec \<Rightarrow> error option" where
  "SecretVersionSpec_Validate s =
     (if sv_secretId s = [] then Some (Errorf ''secret_version: secretId is required'')
      else if sv_data s = [] then Some (Errorf ''secret_version: data is required'')
      else None)"

record user_spec =
  us_username :: string
  us_password :: string
  us_roles :: "string list"
  us_disabled :: bool

definition UserSpec_Validate :: "user_spec \<Rightarrow> error option" where
  "UserSpec_Validate s = (if us_username s = [] then Some (Errorf ''user: username is required'') else None)"

record access_token_spec =
  at_name :: string
  at_expiresAt :: "time option"

definition AccessTokenSpec_Validate :: "access_token_spec \<Rightarrow> error option" where
  "AccessTokenSpec_Validate s = (if at_name s = [] then Some (Errorf ''access_token: name is required'') else None)"

subsection \<open>What admission guarantees\<close>

text \<open>
  A put fills the defaults, checks and stores; an update does all of it again on
  what was stored.
\<close>

lemma health_defaults_idem [simp]: "health_defaults p (health_defaults p hc) = health_defaults p hc"
  by (simp add: health_defaults_def Let_def lb_consts)

lemma target_group_defaults_idem [simp]:
  "LBTargetGroupSpec_WithDefaults (LBTargetGroupSpec_WithDefaults s) = LBTargetGroupSpec_WithDefaults s"
proof -
  have "tg_protocol (LBTargetGroupSpec_WithDefaults s) \<noteq> []"
    by (simp add: LBTargetGroupSpec_WithDefaults_def Let_def lb_consts)
  then show ?thesis
    by (auto simp: LBTargetGroupSpec_WithDefaults_def Let_def)
qed

lemma target_defaults_idem [simp]:
  "LBTargetSpec_WithDefaults (LBTargetSpec_WithDefaults s) = LBTargetSpec_WithDefaults s"
  by (simp add: LBTargetSpec_WithDefaults_def)

lemma listener_defaults_idem [simp]:
  "LBListenerSpec_WithDefaults (LBListenerSpec_WithDefaults s) = LBListenerSpec_WithDefaults s"
  by (simp add: LBListenerSpec_WithDefaults_def lb_consts)

lemma traffic_validate_defaults [simp]:
  "LBTargetGroupSpec_Validate (LBTargetGroupSpec_WithDefaults tg) = LBTargetGroupSpec_Validate tg"
  "LBTargetSpec_Validate (LBTargetSpec_WithDefaults t) = LBTargetSpec_Validate t"
  "LBListenerSpec_Validate (LBListenerSpec_WithDefaults l) = LBListenerSpec_Validate l"
  by (simp_all add: LBTargetGroupSpec_Validate_def LBTargetSpec_Validate_def LBListenerSpec_Validate_def)

end
