(* ===== verification/Admission.thy ===== *)
theory Admission
  imports Handler TrafficKinds
begin

text \<open>
  Admission through the resource handler: what the defaults and checks of a kind
  amount to once they run inside a put on the file store.
\<close>

text \<open>What a successful put leaves under the uid of its request, created or updated.\<close>

lemma put_stores_defaulted:
  assumes "lawful_codec c" "plain k" "file_good k c w" "plain (hr_uid r)" "h_reg h = file_registry k c"
    and "hr_ctx r = None" "handler_put now h r w = (resp, w')" "rs_status resp < 400"
  shows "\<exists>res req. hr_body r = Some req \<and> rs_body resp = ResourceBody res \<and>
    file_view k c w' (hr_uid r) = Some res \<and> file_good k c w' \<and>
    spec res = sp_default (h_spec h) (spec req) \<and> sp_validate (h_spec h) (spec res) = None"
proof (cases "file_view k c w (hr_uid r)")
  case None
  with typed_registry.put_create [OF file_registry_laws [OF assms(1,2)], of w r h now resp w'] assms
  show ?thesis by (auto simp: file_good_def put_created_def)
next
  case (Some old)
  with typed_registry.put_update [OF file_registry_laws [OF assms(1,2)], of w r h old now resp w'] assms
  show ?thesis by (auto simp: file_good_def put_updated_def)
qed

lemma put_privileged:
  assumes "handler_put now h r w = (resp, w')" "rs_status resp < 400" "hr_body r = Some req"
    and "sp_privileged (h_spec h) (spec req)"
  shows "\<exists>i. hr_identity r = Some i \<and> HasRole i AdminRole"
proof -
  have "h_spec (withContext (hr_ctx r) h) = h_spec h" by (simp add: withContext_def)
  with assms show ?thesis
    by (cases "hr_identity r"; cases "HasRole (the (hr_identity r)) AdminRole") (auto simp: handler_put_def Let_def)
qed

text \<open>
  C40. Whoever calls the API and whatever the body holds, on a file store without system-call
  faults: a compute the handler accepts is what the store then holds and a later get of its uid
  returns, and it has a finite budget (0.01 to 64 processors, 1 MiB to 256 GiB of memory, 1 to
  4096 processes), is privileged only if the caller is an administrator, passes the admission
  check, and has no default left to fill.
\<close>
theorem api_compute_bounded:
  assumes "lawful_codec c" "plain k" "file_good k c w" "plain (hr_uid r)" "h_reg h = file_registry k c"
    and "hr_ctx r = None" "sp_default (h_spec h) = ComputeSpec_WithDefaults" "sp_validate (h_spec h) = ComputeSpec_Validate"
    and "sp_privileged (h_spec h) = co_privileged"
    and "handler_put now h r w = (resp, w')" "rs_status resp < 400"
  shows "\<exists>res. file_view k c w' (hr_uid r) = Some res \<and> reg_get (h_reg h) w' (hr_uid r) = Inr res \<and>
    rs_body resp = ResourceBody res \<and>
    \<not> is_nan (co_cpu (spec res)) \<and> \<not> f_less (co_cpu (spec res)) one_hundredth \<and>
    \<not> f_less (Fin 64 0) (co_cpu (spec res)) \<and>
    co_memoryMb (spec res) \<in> {1..262144} \<and> co_pidsMax (spec res) \<in> {1..4096} \<and>
    (co_privileged (spec res) \<longrightarrow> (\<exists>i. hr_identity r = Some i \<and> HasRole i AdminRole)) \<and>
    ComputeSpec_Validate (spec res) = None \<and> ComputeSpec_WithDefaults (spec res) = spec res"
proof -
  from put_stores_defaulted [OF assms(1-6,10,11)] assms(7,8) obtain res req where
    res: "hr_body r = Some req" "rs_body resp = ResourceBody res" "file_view k c w' (hr_uid r) = Some res"
      "file_good k c w'" "spec res = ComputeSpec_WithDefaults (spec req)" "ComputeSpec_Validate (spec req) = None"
    by auto
  note limits = admitted_limits [OF compute_validate_limits [OF res(6)]]
  have "co_privileged (spec res) = co_privileged (spec req)"
    by (simp add: res(5) ComputeSpec_WithDefaults_def)
  moreover have "co_privileged (spec req) \<longrightarrow> (\<exists>i. hr_identity r = Some i \<and> HasRole i AdminRole)"
    using put_privileged [OF assms(10,11) res(1)] assms(9) by simp
  moreover have "reg_get (h_reg h) w' (hr_uid r) = Inr res"
    using file_get_view [OF assms(1,2) res(4) assms(4)] res(3) assms(5) by simp
  ultimately show ?thesis using res limits by (intro exI [of _ res]) simp
qed

definition blank_meta :: object_meta where
  "blank_meta = \<lparr>md_uid = [], md_name = [], md_organizationId = [], md_projectId = [], md_ownerUid = [],
     md_labels = [], md_annotations = [], md_ownerRefs = [], md_finalizers = [], md_generation = 0,
     md_resourceVersion = [], md_deletionTimestamp = None, md_createdAt = 0\<rparr>"

definition blank_compute_status :: compute_status where
  "blank_compute_status = \<lparr>observedGeneration = 0, st_phase = PhaseUnset, conditions = [], cs_ip = [],
     cs_namespace = [], cs_vethHost = [], cs_rootfs = [], cs_ready = False, cs_nodeName = []\<rparr>"

definition compute_draft :: "object_meta \<Rightarrow> compute_spec \<Rightarrow> (compute_spec, compute_status) resource" where
  "compute_draft m s = \<lparr>apiVersion = APIVersion, kind = ''compute'', metadata = m, spec = s, status = blank_compute_status\<rparr>"

definition asked_compute :: compute_spec where
  "asked_compute = zero_compute_spec\<lparr>co_subnetId := ''s1'', co_image := ''nginx''\<rparr>"

definition created_meta :: object_meta where
  "created_meta = fresh_meta 0 [] (blank_meta\<lparr>md_uid := ''c1''\<rparr>)"

definition compute_codec :: "(compute_spec, compute_status) codec" where
  "compute_codec = table_codec [compute_draft created_meta (ComputeSpec_WithDefaults asked_compute)]"

definition compute_handler :: "(fsys, compute_spec, compute_status) handler" where
  "compute_handler = \<lparr>h_reg = file_registry ''compute'' compute_codec,
     h_kind = ''compute'', h_az = None, h_adminOnly = False,
     h_spec = \<lparr>sp_privileged = co_privileged, sp_default = ComputeSpec_WithDefaults,
       sp_validate = ComputeSpec_Validate, sp_json = (\<lambda>_. None)\<rparr>,
     h_zero = blank_compute_status\<rparr>"

definition compute_request :: "(compute_spec, compute_status) http_request" where
  "compute_request = \<lparr>hr_identity = None, hr_ctx = None, hr_uid = ''c1'', hr_query = [],
     hr_body = Some (compute_draft blank_meta asked_compute)\<rparr>"

lemma compute_example [simp]:
  "plain ''compute''" "plain ''c1''" "lawful_codec compute_codec" "file_good ''compute'' compute_codec []"
  "h_reg compute_handler = file_registry ''compute'' compute_codec"
proof -
  show "plain ''compute''" "plain ''c1''" by code_simp+
qed (simp_all add: compute_codec_def lawful_table_codec compute_handler_def file_good_def typed_kind_def file_abs_def wf_fs_def)

lemma compute_finish:
  "\<exists>w'. put_finish compute_handler None 201 (compute_draft created_meta asked_compute) [] =
    (respond 201 (ResourceBody (set_rv (revision [0]) (compute_draft created_meta (ComputeSpec_WithDefaults asked_compute)))), w')"
proof -
  let ?d = "compute_draft created_meta (ComputeSpec_WithDefaults asked_compute)"
  have v: "ComputeSpec_Validate (ComputeSpec_WithDefaults asked_compute) = None"
    by (simp add: ComputeSpec_Validate_def ValidateRuntimeLimits_def asked_compute_def zero_compute_spec_def is_nan_def is_inf_def
        MaxRuntimeMemoryMB_def MaxRuntimePids_def ComputeSpec_WithDefaults_def one_hundredth_def)
  have st: "stamp (file_registry ''compute'' compute_codec) ?d = ?d" "set_rv [] ?d = ?d"
    by (simp_all add: stamp_def set_rv_def compute_draft_def created_meta_def fresh_meta_def)
  have m: "marshal compute_codec ?d = Some [0]" by (simp add: compute_codec_def table_codec_def)
  have view: "file_view ''compute'' compute_codec [] ''c1'' = None" by (simp add: view_def file_abs_def)
  from typed_registry.put_finish_progress [OF file_registry_laws [OF compute_example(3,1)],
      of "[]" "compute_draft created_meta asked_compute" compute_handler ?d None "[0]" 201]
  show ?thesis
    using compute_example(4) v st m view unfolding file_good_def
    by (auto simp: compute_draft_def created_meta_def fresh_meta_def blank_meta_def compute_handler_def authorizeReferences_def
        current_rv_def)
qed

theorem api_compute_bounded_witness:
  "\<exists>resp w' res. handler_put 0 compute_handler compute_request [] = (resp, w') \<and>
    file_view ''compute'' compute_codec w' ''c1'' = Some res \<and> rs_body resp = ResourceBody res \<and>
    co_memoryMb asked_compute = 0 \<and> co_memoryMb (spec res) \<in> {1..262144}"
proof -
  from compute_finish obtain resp w' where f: "put_finish compute_handler None 201 (compute_draft created_meta asked_compute) [] = (resp, w')"
    and ok: "rs_status resp < 400" by auto
  have "reg_get (file_registry ''compute'' compute_codec) [] ''c1'' = Inl ErrNotFound"
    using file_get_view [OF compute_example(3,1,4,2)] by (simp add: view_def file_abs_def)
  with f have p: "handler_put 0 compute_handler compute_request [] = (resp, w')"
    by (simp add: handler_put_def Let_def compute_request_def compute_handler_def create_owner_def compute_draft_def
        created_meta_def asked_compute_def zero_compute_spec_def blank_meta_def)
  have h: "hr_ctx compute_request = None" "hr_uid compute_request = ''c1''"
    "sp_default (h_spec compute_handler) = ComputeSpec_WithDefaults" "sp_validate (h_spec compute_handler) = ComputeSpec_Validate"
    "sp_privileged (h_spec compute_handler) = co_privileged" "co_memoryMb asked_compute = 0"
    by (simp_all add: compute_request_def compute_handler_def asked_compute_def zero_compute_spec_def)
  from api_compute_bounded [OF compute_example(3,1,4) _ compute_example(5) h(1,3,4,5) p ok] p h show ?thesis by auto
qed

end
