(* ===== verification/Clock.thy ===== *)
theory Clock
  imports Resource
begin

text \<open>
  The part of package \<^verbatim>\<open>time\<close> the controllers and agents use: instants in RFC 3339
  form and the saturating difference of two instants. Agents write heartbeats with
  \<^verbatim>\<open>Format\<close>, controllers read them with \<^verbatim>\<open>Parse\<close>; the last lemmas show
  that what one writes the other reads.
\<close>

definition second_ns :: int where "second_ns = 1000000000"

subsection \<open>The calendar\<close>

definition is_leap :: "int \<Rightarrow> bool" where
  "is_leap y = (y mod 4 = 0 \<and> (y mod 100 \<noteq> 0 \<or> y mod 400 = 0))"

definition daysIn :: "int \<Rightarrow> int \<Rightarrow> int" where
  "daysIn m y = (if m = 2 then (if is_leap y then 29 else 28)
     else if m = 4 \<or> m = 6 \<or> m = 9 \<or> m = 11 then 30 else 31)"

text \<open>Days from the first of January of year 0 to that of year \<open>y\<close>, and to that of 1970.\<close>

definition days_before_year :: "int \<Rightarrow> int" where
  "days_before_year y = 365 * y + (y + 3) div 4 - (y + 99) div 100 + (y + 399) div 400"

definition unix_day :: int where "unix_day = 719528"

definition days_before_month :: "int \<Rightarrow> int \<Rightarrow> int" where
  "days_before_month m y = sum_list (map (\<lambda>k. daysIn k y) [1..m - 1])"

text \<open>The instant of a civil date and time in UTC, with the offset of its zone in seconds.\<close>

definition Date :: "int \<Rightarrow> int \<Rightarrow> int \<Rightarrow> int \<Rightarrow> int \<Rightarrow> int \<Rightarrow> int \<Rightarrow> int \<Rightarrow> time" where
  "Date y mo d h mi s nsec offset =
     ((days_before_year y + days_before_month mo y + d - 1 - unix_day) * 86400
       + h * 3600 + mi * 60 + s - offset) * second_ns + nsec"

subsection \<open>Parsing\<close>

definition digit :: "char \<Rightarrow> int option" where
  "digit c = (if CHR ''0'' \<le> c \<and> c \<le> CHR ''9'' then Some (int (of_char c) - 48) else None)"

text \<open>
  \<^verbatim>\<open>getnum\<close>: one or two digits, exactly two when \<open>fixed\<close>; the rest of the input.
\<close>

fun getnum :: "string \<Rightarrow> bool \<Rightarrow> (int \<times> string) option" where
  "getnum [] fixed = None"
| "getnum (a # s) fixed = (case digit a of
     None \<Rightarrow> None
   | Some x \<Rightarrow> (case s of
       [] \<Rightarrow> if fixed then None else Some (x, s)
     | b # s' \<Rightarrow> (case digit b of
         None \<Rightarrow> if fixed then None else Some (x, s)
       | Some y \<Rightarrow> Some (x * 10 + y, s'))))"

fun expect :: "char \<Rightarrow> string \<Rightarrow> string option" where
  "expect c [] = None"
| "expect c (x # s) = (if x = c then Some s else None)"

definition ranged :: "int \<Rightarrow> int \<Rightarrow> (int \<times> string) option \<Rightarrow> (int \<times> string) option" where
  "ranged lo hi r = (case r of None \<Rightarrow> None | Some (n, s) \<Rightarrow> if lo \<le> n \<and> n \<le> hi then Some (n, s) else None)"

definition year4 :: "string \<Rightarrow> (int \<times> string) option" where
  "year4 s = (case getnum s True of
     None \<Rightarrow> None
   | Some (a, s) \<Rightarrow> (case getnum s True of None \<Rightarrow> None | Some (b, s) \<Rightarrow> Some (a * 100 + b, s)))"

fun digits_prefix :: "string \<Rightarrow> int list" where
  "digits_prefix [] = []"
| "digits_prefix (c # s) = (case digit c of None \<Rightarrow> [] | Some d \<Rightarrow> d # digits_prefix s)"

text \<open>
  A fraction after the seconds: a period or comma, then digits, of which the first
  nine count; without a digit there is no fraction.
\<close>

definition fraction :: "string \<Rightarrow> int \<times> string" where
  "fraction s = (case s of
     [] \<Rightarrow> (0, s)
   | c # s' \<Rightarrow>
       let ds = digits_prefix s' in
       if (c = CHR ''.'' \<or> c = CHR '','') \<and> ds \<noteq> []
       then (foldl (\<lambda>a d. a * 10 + d) 0 (take 9 (ds @ replicate 9 0)), drop (length ds) s')
       else (0, s))"

definition zone :: "string \<Rightarrow> int option" where
  "zone s = (if s = ''Z'' then Some 0
     else if length s = 6 \<and> s ! 3 = CHR '':'' then
       (case getnum (take 2 (drop 1 s)) True of
          None \<Rightarrow> None
        | Some (hr, _) \<Rightarrow> (case getnum (drop 4 s) True of
            None \<Rightarrow> None
          | Some (mm, _) \<Rightarrow>
              if hr > 24 \<or> mm > 60 then None
              else if hd s = CHR ''+'' then Some ((hr * 60 + mm) * 60)
              else if hd s = CHR ''-'' then Some (- ((hr * 60 + mm) * 60))
              else None))
     else None)"

text \<open>
  \<^verbatim>\<open>time.Parse(time.RFC3339, s)\<close>. Its fast path for the strict form accepts fewer
  texts than the layout interpreter it falls back to, with the same result; this
  is the interpreter, run on that layout.
\<close>

definition parse_rfc3339 :: "string \<Rightarrow> time option" where
  "parse_rfc3339 s = Option.bind (year4 s) (\<lambda>(y, s). Option.bind (expect CHR ''-'' s) (\<lambda>s.
     Option.bind (ranged 1 12 (getnum s True)) (\<lambda>(mo, s). Option.bind (expect CHR ''-'' s) (\<lambda>s.
     Option.bind (getnum s True) (\<lambda>(d, s). Option.bind (expect CHR ''T'' s) (\<lambda>s.
     Option.bind (ranged 0 23 (getnum s False)) (\<lambda>(h, s). Option.bind (expect CHR '':'' s) (\<lambda>s.
     Option.bind (ranged 0 59 (getnum s True)) (\<lambda>(mi, s). Option.bind (expect CHR '':'' s) (\<lambda>s.
     Option.bind (ranged 0 59 (getnum s True)) (\<lambda>(sec, s).
     case fraction s of (nsec, s) \<Rightarrow> Option.bind (zone s) (\<lambda>offset.
       if d < 1 \<or> d > daysIn mo y then None
       else Some (Date y mo d h mi sec nsec offset)))))))))))))"

subsection \<open>Formatting\<close>

definition digit_char :: "int \<Rightarrow> char" where
  "digit_char n = char_of (nat n + 48)"

definition pad2 :: "int \<Rightarrow> string" where
  "pad2 n = [digit_char (n div 10), digit_char (n mod 10)]"

definition year_of :: "int \<Rightarrow> int" where
  "year_of D = (let y = (400 * D) div 146097 in
     if D < days_before_year y then y - 1
     else if D < days_before_year (y + 1) then y else y + 1)"

fun month_day :: "int list \<Rightarrow> int \<Rightarrow> int \<Rightarrow> int \<times> int" where
  "month_day [] y d = (12, d + 1)"
| "month_day (m # ms) y d = (if d < daysIn m y then (m, d + 1) else month_day ms y (d - daysIn m y))"

text \<open>
  \<^verbatim>\<open>t.UTC().Format(time.RFC3339)\<close> for the years 0 to 9999, whose form has four
  digits.
\<close>

definition format_rfc3339 :: "time \<Rightarrow> string" where
  "format_rfc3339 t =
     (let secs = t div second_ns; D = secs div 86400 + unix_day; tod = secs mod 86400;
          y = year_of D; (mo, d) = month_day [1..12] y (D - days_before_year y)
      in pad2 (y div 100) @ pad2 (y mod 100) @ ''-'' @ pad2 mo @ ''-'' @ pad2 d @ ''T'' @
         pad2 (tod div 3600) @ '':'' @ pad2 (tod mod 3600 div 60) @ '':'' @ pad2 (tod mod 60) @ ''Z'')"

subsection \<open>Differences\<close>

text \<open>\<^verbatim>\<open>t.Sub(u)\<close> saturates at the ends of the 64-bit \<^verbatim>\<open>Duration\<close>.\<close>

definition time_sub :: "time \<Rightarrow> time \<Rightarrow> int" where
  "time_sub t u = max (- (2 ^ 63)) (min (2 ^ 63 - 1) (t - u))"

lemma time_sub_le: "w < 2 ^ 63 - 1 \<Longrightarrow> - (2 ^ 63) \<le> w \<Longrightarrow> time_sub t u \<le> w \<longleftrightarrow> t - u \<le> w"
  by (auto simp: time_sub_def)

subsection \<open>What is formatted parses back\<close>

lemma div_lower: "0 < k \<Longrightarrow> k * (a div k) \<le> a" for a k :: int
  using pos_mod_sign [of k a] mult_div_mod_eq [of k a] by linarith

lemma div_upper: "0 < k \<Longrightarrow> a < k * (a div k) + k" for a k :: int
  using pos_mod_bound [of k a] mult_div_mod_eq [of k a] by linarith

lemma days_before_year_bounds:
  "400 * days_before_year y \<le> 146097 * y + 699" "146097 * y - 699 \<le> 400 * days_before_year y"
proof -
  define a b c where "a = (y + 3) div 4" and "b = (y + 99) div 100" and "c = (y + 399) div 400"
  have "4 * a \<le> y + 3" "y + 3 < 4 * a + 4" "100 * b \<le> y + 99" "y + 99 < 100 * b + 100"
    "400 * c \<le> y + 399" "y + 399 < 400 * c + 400"
    unfolding a_def b_def c_def by (rule div_lower div_upper; simp)+
  moreover have "days_before_year y = 365 * y + a - b + c"
    by (simp add: days_before_year_def a_def b_def c_def)
  ultimately show "400 * days_before_year y \<le> 146097 * y + 699" "146097 * y - 699 \<le> 400 * days_before_year y"
    by linarith+
qed

lemma year_of_bounds: "days_before_year (year_of D) \<le> D" "D < days_before_year (year_of D + 1)"
proof -
  define y where "y = (400 * D) div 146097"
  have "400 * D = 146097 * y + (400 * D) mod 146097" by (simp add: y_def)
  moreover have "0 \<le> (400 * D) mod 146097" "(400 * D) mod 146097 < 146097" by simp_all
  ultimately have y: "146097 * y \<le> 400 * D" "400 * D < 146097 * y + 146097" by linarith+
  have lo: "days_before_year (y - 1) \<le> D"
    using y days_before_year_bounds(1) [of "y - 1"] unfolding right_diff_distrib by linarith
  have hi: "D < days_before_year (y + 2)"
    using y days_before_year_bounds(2) [of "y + 2"] unfolding distrib_left by linarith
  show "days_before_year (year_of D) \<le> D"
    using lo by (auto simp: year_of_def Let_def y_def [symmetric])
  show "D < days_before_year (year_of D + 1)"
    using hi by (auto simp: year_of_def Let_def y_def [symmetric] add.commute)
qed

lemma round_up_step:
  fixes k y :: int
  assumes "0 < k"
  shows "(y + 1 + (k - 1)) div k - (y + (k - 1)) div k = (if k dvd y then 1 else 0)"
proof -
  define q r where "q = y div k" and "r = y mod k"
  have qr: "y = k * q + r" "0 \<le> r" "r < k" using assms by (auto simp: q_def r_def)
  have "(y + 1 + (k - 1)) div k = q + 1"
    by (rule int_div_pos_eq [where r = r]) (use qr in \<open>auto simp: algebra_simps\<close>)
  moreover have "(y + (k - 1)) div k = (if r = 0 then q else q + 1)"
    by (rule int_div_pos_eq [where r = "if r = 0 then k - 1 else r - 1"]) (use qr in \<open>auto simp: algebra_simps\<close>)
  ultimately show ?thesis by (auto simp: r_def dvd_eq_mod_eq_0)
qed

lemma leap_days:
  assumes "Q \<Longrightarrow> P" "R \<Longrightarrow> Q"
  shows "(if P then 1 else 0) - (if Q then 1 else 0) + (if R then 1 else (0 :: int)) =
    (if P \<and> (\<not> Q \<or> R) then 1 else 0)"
  by (cases P; cases Q; cases R) (use assms in simp_all)

lemma year_length:
  "days_before_year (y + 1) - days_before_year y = (if is_leap y then 366 else 365)"
proof -
  define d where "d k = (y + (k - 1)) div k" for k :: int
  define d' where "d' k = (y + 1 + (k - 1)) div k" for k :: int
  define u :: "int \<Rightarrow> int" where "u k = (if k dvd y then 1 else 0)" for k
  have step: "d' k = d k + u k" if "0 < k" for k
    using round_up_step [OF that, of y] unfolding d_def d'_def u_def by linarith
  have "days_before_year y = 365 * y + d 4 - d 100 + d 400"
    "days_before_year (y + 1) = 365 * (y + 1) + d' 4 - d' 100 + d' 400"
    by (simp_all add: days_before_year_def d_def d'_def)
  then have "days_before_year (y + 1) - days_before_year y = 365 + (u 4 - u 100 + u 400)"
    using step [of 4] step [of 100] step [of 400] by simp
  also have "\<dots> = 365 + (if 4 dvd y \<and> (\<not> 100 dvd y \<or> 400 dvd y) then 1 else 0)"
    unfolding u_def by (subst leap_days) (use dvd_trans [of 4 100 y] dvd_trans [of 100 400 y] in simp_all)
  also have "\<dots> = 365 + (if is_leap y then 1 else 0)"
    by (simp only: is_leap_def dvd_eq_mod_eq_0)
  finally show ?thesis by (cases "is_leap y") simp_all
qed

lemma digit_char [simp]: "0 \<le> n \<Longrightarrow> n \<le> 9 \<Longrightarrow> digit (digit_char n) = Some n"
  by (auto simp: digit_def digit_char_def less_eq_char_def nat_less_iff)

lemma getnum_pad2 [simp]: "0 \<le> n \<Longrightarrow> n < 100 \<Longrightarrow> getnum (pad2 n @ s) fixed = Some (n, s)"
  by (simp add: pad2_def)

lemma year4_pad2:
  assumes "0 \<le> y" "y < 10000"
  shows "year4 (pad2 (y div 100) @ pad2 (y mod 100) @ s) = Some (y, s)"
  using assms by (simp add: year4_def)

lemma month_day_bounds:
  assumes "0 \<le> d" "d < sum_list (map (\<lambda>m. daysIn m y) ms)" "month_day ms y d = (mo, dd)"
  shows "\<exists>as bs. ms = as @ mo # bs \<and> 1 \<le> dd \<and> dd \<le> daysIn mo y \<and>
    sum_list (map (\<lambda>m. daysIn m y) as) + dd - 1 = d"
  using assms
proof (induction ms y d rule: month_day.induct)
  case (1 y d)
  then show ?case by simp
next
  case (2 m ms y d)
  show ?case
  proof (cases "d < daysIn m y")
    case True
    with 2 show ?thesis by (intro exI [of _ "[]"] exI [of _ ms]) auto
  next
    case False
    with 2 obtain as bs where "ms = as @ mo # bs" "1 \<le> dd" "dd \<le> daysIn mo y"
        "sum_list (map (\<lambda>m. daysIn m y) as) + dd - 1 = d - daysIn m y"
      by auto
    then show ?thesis by (intro exI [of _ "m # as"] exI [of _ bs]) auto
  qed
qed

lemma upto_split_at:
  assumes "[1..n] = as @ m # bs"
  shows "as = [1..m - 1] \<and> 1 \<le> m \<and> m \<le> n"
proof -
  have m: "1 \<le> m" "m \<le> n" using assms by (metis atLeastAtMost_iff in_set_conv_decomp set_upto)+
  have nth: "[1..n] ! i = 1 + int i" if "i < length [1..n]" for i
    using that by (subst nth_upto) auto
  have "length as < length [1..n]" by (simp add: assms)
  from nth [OF this] have len: "m = 1 + int (length as)" by (simp add: assms)
  have "as = [1..m - 1]"
  proof (rule nth_equalityI)
    show "length as = length [1..m - 1]" using len by simp
    fix i
    assume "i < length as"
    with nth [of i] len show "as ! i = [1..m - 1] ! i" by (simp add: assms nth_append)
  qed
  with m show ?thesis by simp
qed

lemma months_year: "sum_list (map (\<lambda>m. daysIn m y) [1..12]) = (if is_leap y then 366 else 365)"
proof -
  have "[1..12 :: int] = [1, 2, 3, 4, 5, 6, 7, 8, 9, 10, 11, 12]" by (simp add: upto.simps)
  then show ?thesis by (simp add: daysIn_def)
qed

lemma month_day_year:
  assumes "month_day [1..12] y (D - days_before_year y) = (mo, d)" "days_before_year y \<le> D" "D < days_before_year (y + 1)"
  shows "1 \<le> mo" "mo \<le> 12" "1 \<le> d" "d \<le> daysIn mo y"
    "days_before_year y + days_before_month mo y + d - 1 = D"
proof -
  have "D - days_before_year y < sum_list (map (\<lambda>m. daysIn m y) [1..12])"
    using assms(3) year_length [of y] unfolding months_year by linarith
  from month_day_bounds [OF _ this assms(1)] assms(2) obtain as bs where
    ab: "[1..12] = as @ mo # bs" "1 \<le> d" "d \<le> daysIn mo y"
      "sum_list (map (\<lambda>m. daysIn m y) as) + d - 1 = D - days_before_year y"
    by auto
  with upto_split_at [OF ab(1)] show "1 \<le> mo" "mo \<le> 12" "1 \<le> d" "d \<le> daysIn mo y"
      "days_before_year y + days_before_month mo y + d - 1 = D"
    by (auto simp: days_before_month_def)
qed

lemma daysIn_le: "daysIn m y \<le> 31"
  by (simp add: daysIn_def)

lemma parse_parts:
  assumes "0 \<le> y" "y < 10000" "1 \<le> mo" "mo \<le> 12" "1 \<le> d" "d \<le> daysIn mo y"
    "0 \<le> h" "h \<le> 23" "0 \<le> mi" "mi \<le> 59" "0 \<le> sec" "sec \<le> 59"
  shows "parse_rfc3339 (pad2 (y div 100) @ pad2 (y mod 100) @ ''-'' @ pad2 mo @ ''-'' @ pad2 d @ ''T'' @
    pad2 h @ '':'' @ pad2 mi @ '':'' @ pad2 sec @ ''Z'') = Some (Date y mo d h mi sec 0 0)"
proof -
  have "d < 100" using assms(6) daysIn_le [of mo y] by linarith
  with assms show ?thesis
    by (simp add: parse_rfc3339_def year4_pad2 ranged_def fraction_def zone_def)
qed

text \<open>Formatting drops the fraction of a second and nothing else.\<close>

lemma parse_format:
  assumes "0 \<le> year_of (t div second_ns div 86400 + unix_day)" "year_of (t div second_ns div 86400 + unix_day) < 10000"
  shows "parse_rfc3339 (format_rfc3339 t) = Some (t div second_ns * second_ns)"
proof -
  define D tod where "D = t div second_ns div 86400 + unix_day" and "tod = t div second_ns mod 86400"
  obtain mo d where md: "month_day [1..12] (year_of D) (D - days_before_year (year_of D)) = (mo, d)" by fastforce
  note b = month_day_year [OF md year_of_bounds]
  have tod: "0 \<le> tod" "tod < 86400" by (simp_all add: tod_def)
  then have r: "0 \<le> tod div 3600" "tod div 3600 \<le> 23" "0 \<le> tod mod 3600 div 60" "tod mod 3600 div 60 \<le> 59"
      "0 \<le> tod mod 60" "tod mod 60 \<le> 59" "d < 100"
    using b(4) daysIn_le [of mo "year_of D"] by auto
  have s: "tod div 3600 * 3600 + tod mod 3600 div 60 * 60 + tod mod 60 = tod"
  proof -
    have "tod mod 3600 mod 60 = tod mod 60" by (rule mod_mod_cancel) simp
    then have "tod mod 3600 div 60 * 60 + tod mod 60 = tod mod 3600"
      using div_mult_mod_eq [of "tod mod 3600" 60] by simp
    then show ?thesis using div_mult_mod_eq [of tod 3600] by linarith
  qed
  have "t div second_ns = (D - unix_day) * 86400 + tod" by (simp add: D_def tod_def)
  then have "(days_before_year (year_of D) + days_before_month mo (year_of D) + d - 1 - unix_day) * 86400 +
      tod div 3600 * 3600 + tod mod 3600 div 60 * 60 + tod mod 60 = t div second_ns"
    using s unfolding b(5) by linarith
  then have "Date (year_of D) mo d (tod div 3600) (tod mod 3600 div 60) (tod mod 60) 0 0 = t div second_ns * second_ns"
    unfolding Date_def by simp
  then show ?thesis
    unfolding format_rfc3339_def Let_def D_def [symmetric] tod_def [symmetric] md prod.case
    by (subst parse_parts) (use assms b r in \<open>simp_all only: D_def [symmetric]\<close>)
qed

lemma days_before_year_mono: "a \<le> b \<Longrightarrow> days_before_year a \<le> days_before_year b"
proof (induction b rule: int_ge_induct)
  case (step i)
  then show ?case using year_length [of i] by (auto split: if_splits)
qed simp

text \<open>Every instant from 1970 to the end of the year 9999 has a four-digit form.\<close>

lemma parse_format_era:
  assumes "0 \<le> t" "t < 253402300800 * second_ns"
  shows "parse_rfc3339 (format_rfc3339 t) = Some (t div second_ns * second_ns)"
proof (rule parse_format)
  let ?D = "t div second_ns div 86400 + unix_day"
  have t: "second_ns * (t div second_ns) \<le> t" by (rule div_lower) (simp add: second_ns_def)
  have "0 \<le> t div second_ns" using assms(1) by (simp add: second_ns_def pos_imp_zdiv_nonneg_iff)
  moreover have "t div second_ns < 253402300800"
    using t assms(2) by (simp add: second_ns_def)
  ultimately have "unix_day \<le> ?D" "86400 * (t div second_ns div 86400) < 253402300800"
    using div_lower [of 86400 "t div second_ns"] by (simp_all add: pos_imp_zdiv_nonneg_iff)
  then have D: "unix_day \<le> ?D" "?D < days_before_year 10000" "days_before_year 0 = 0"
    by (simp_all add: unix_day_def days_before_year_def)
  show "0 \<le> year_of ?D"
    using days_before_year_mono [of "year_of ?D + 1" 0] year_of_bounds(2) [of ?D] D
    unfolding unix_day_def by linarith
  show "year_of ?D < 10000"
    using days_before_year_mono [of 10000 "year_of ?D"] year_of_bounds(1) [of ?D] D by linarith
qed

end
