(* ===== verification/Placement.thy ===== *)
theory Placement
  imports Registry Kinds Clock "HOL-Library.Product_Lexorder"
begin

text \<open>
  Placing workloads on nodes: the strategies of \<^verbatim>\<open>internal/scheduler\<close> and the
  four cluster controllers of \<^verbatim>\<open>internal/controllers\<close> that assign computes,
  micro-VMs, disks and disk replicas to nodes and clear the assignment when a node
  stops heartbeating. The source repeats the passes per kind; here a pass is written
  once over the accessors of a kind and each controller instantiates it. All
  registries share one store, so a pass is a function of the store. A controller
  returns \<^verbatim>\<open>errors.Join\<close> of what went wrong: a list, empty for \<^verbatim>\<open>nil\<close>.
\<close>

subsection \<open>Strategies (\<^verbatim>\<open>internal/scheduler/scheduler.go\<close>)\<close>

record resources =
  milliCPU :: int
  memoryMB :: int

record sched_node =
  sn_name :: string
  sn_capacity :: resources
  sn_allocated :: resources

definition Free :: "sched_node \<Rightarrow> resources" where
  "Free n = \<lparr>milliCPU = i64 (milliCPU (sn_capacity n) - milliCPU (sn_allocated n)),
     memoryMB = i64 (memoryMB (sn_capacity n) - memoryMB (sn_allocated n))\<rparr>"

definition res_fits :: "resources \<Rightarrow> resources \<Rightarrow> bool" where
  "res_fits r demand = (milliCPU r \<ge> milliCPU demand \<and> memoryMB r \<ge> memoryMB demand)"

definition score :: "resources \<Rightarrow> int" where
  "score r = i64 (milliCPU r + memoryMB r)"

datatype strategy = BinPack | Spread

fun rank :: "strategy \<Rightarrow> resources \<Rightarrow> int" where
  "rank BinPack free = i64 (- score free)"
| "rank Spread free = score free"

text \<open>\<^verbatim>\<open>sort.Slice\<close> with the largest rank first and ties by name.\<close>

definition Schedule :: "resources \<Rightarrow> sched_node list \<Rightarrow> strategy \<Rightarrow> string result" where
  "Schedule demand nodes strategy =
     (let fitting = filter (\<lambda>n. res_fits (Free n) demand) nodes in
      if fitting = [] then Inl (Errorf ''scheduler: no node fits the demand'')
      else Inr (sn_name (hd (sort_key (\<lambda>n. (- rank strategy (Free n), sn_name n)) fitting))))"

subsection \<open>Nodes, readiness and allocation\<close>

type_synonym node = "(node_spec, node_status) resource"
type_synonym node_pool = "(node_pool_spec, node_pool_status) resource"

record node_alloc =
  al_cpus :: float64
  al_mem :: int
  al_pods :: int

definition zero_alloc :: node_alloc where
  "zero_alloc = \<lparr>al_cpus = Fin 0 0, al_mem = 0, al_pods = 0\<rparr>"

type_synonym allocation = "string \<Rightarrow> node_alloc option"

definition alloc_of :: "allocation \<Rightarrow> string \<Rightarrow> node_alloc" where
  "alloc_of alloc uid = (case alloc uid of None \<Rightarrow> zero_alloc | Some a \<Rightarrow> a)"

definition nodeReady :: "int \<Rightarrow> node \<Rightarrow> time \<Rightarrow> bool" where
  "nodeReady readyWindow n now =
     (if nd_lastSeen (status n) = [] then False
      else case parse_rfc3339 (nd_lastSeen (status n)) of
        None \<Rightarrow> False
      | Some t \<Rightarrow> time_sub now t \<le> readyWindow)"

definition matchLabels :: "smap \<Rightarrow> smap \<Rightarrow> bool" where
  "matchLabels labels selector = list_all (\<lambda>(k, v). smap_get labels k = v) selector"

fun poolSelector :: "node_pool list \<Rightarrow> string \<Rightarrow> smap option" where
  "poolSelector pools [] = Some []"
| "poolSelector [] poolID = None"
| "poolSelector (p # ps) poolID =
     (if uid_of p = poolID then Some (np_nodeSelector (spec p)) else poolSelector ps poolID)"

text \<open>The scan of \<^verbatim>\<open>pickNode\<close>: the first eligible node with the fewest pods.\<close>

fun pick_loop :: "(node \<Rightarrow> bool) \<Rightarrow> (node \<Rightarrow> int) \<Rightarrow> node list \<Rightarrow> string \<Rightarrow> int \<Rightarrow> string" where
  "pick_loop eligible pods [] best bestPods = best"
| "pick_loop eligible pods (n # ns) best bestPods =
     (if eligible n \<and> (best = [] \<or> pods n < bestPods)
      then pick_loop eligible pods ns (uid_of n) (pods n)
      else pick_loop eligible pods ns best bestPods)"

definition has_room :: "node_alloc \<Rightarrow> node_capacity \<Rightarrow> float64 \<Rightarrow> int \<Rightarrow> bool" where
  "has_room a c cpu mem =
     (\<not> (cap_maxPods c > 0 \<and> al_pods a \<ge> cap_maxPods c) \<and>
      \<not> f_less (f_of_int (cap_cpus c)) (f_add (al_cpus a) cpu) \<and>
      \<not> i64 (al_mem a + mem) > cap_memoryMb c)"

definition pickNode ::
    "node list \<Rightarrow> allocation \<Rightarrow> (string \<Rightarrow> bool) \<Rightarrow> smap \<Rightarrow> float64 \<Rightarrow> int \<Rightarrow> string" where
  "pickNode nodes alloc ready selector cpu mem =
     pick_loop (\<lambda>n. ready (uid_of n) \<and> matchLabels (nd_labels (spec n)) selector \<and>
         has_room (alloc_of alloc (uid_of n)) (nd_capacity (spec n)) cpu mem)
       (\<lambda>n. al_pods (alloc_of alloc (uid_of n))) nodes [] (- 1)"

definition pickNodeExcluding ::
    "node list \<Rightarrow> allocation \<Rightarrow> (string \<Rightarrow> bool) \<Rightarrow> smap \<Rightarrow> string \<Rightarrow> string" where
  "pickNodeExcluding nodes alloc ready selector exclude =
     pick_loop (\<lambda>n. \<not> (uid_of n = exclude \<or> \<not> ready (uid_of n) \<or> \<not> matchLabels (nd_labels (spec n)) selector))
       (\<lambda>n. al_pods (alloc_of alloc (uid_of n))) nodes [] (- 1)"

text \<open>The maps a pass builds from its listing of nodes.\<close>

fun init_ready :: "(node \<Rightarrow> bool) \<Rightarrow> node list \<Rightarrow> (string \<Rightarrow> bool) \<Rightarrow> string \<Rightarrow> bool" where
  "init_ready rdy [] m = m"
| "init_ready rdy (n # ns) m = init_ready rdy ns (m(uid_of n := rdy n))"

fun init_alloc :: "node list \<Rightarrow> allocation \<Rightarrow> allocation" where
  "init_alloc [] m = m"
| "init_alloc (n # ns) m = init_alloc ns (m(uid_of n \<mapsto> zero_alloc))"

subsection \<open>One pass over a kind\<close>

record ('s, 'st) placed_kind =
  pk_node :: "'st \<Rightarrow> string"
  pk_set :: "string \<Rightarrow> 'st \<Rightarrow> 'st"
  pk_charge :: "'s \<Rightarrow> node_alloc \<Rightarrow> node_alloc"

abbreviation node_of :: "('s, 'st) placed_kind \<Rightarrow> ('s, 'st) resource \<Rightarrow> string" where
  "node_of K r \<equiv> pk_node K (status r)"

abbreviation deleting :: "('s, 'st) resource \<Rightarrow> bool" where
  "deleting r \<equiv> IsDeleting (metadata r)"

text \<open>
  \<^verbatim>\<open>assign\<close> and \<^verbatim>\<open>evict\<close>: the latest copy is read, its node replaced, and the
  copy written back under the revision just read.
\<close>

definition assign ::
    "('s, 'st) placed_kind \<Rightarrow> ('w, 's, 'st) registry \<Rightarrow> string \<Rightarrow> string \<Rightarrow> 'w \<Rightarrow> error option \<times> 'w" where
  "assign K reg uid node w = (case reg_get reg w uid of
     Inl e \<Rightarrow> (Some e, w)
   | Inr cur \<Rightarrow>
       if node_of K cur = node then (None, w)
       else (case reg_put reg w (cur\<lparr>status := pk_set K node (status cur)\<rparr>) of
           (Inl e, w') \<Rightarrow> (Some e, w')
         | (Inr _, w') \<Rightarrow> (None, w')))"

definition evict :: "('s, 'st) placed_kind \<Rightarrow> ('w, 's, 'st) registry \<Rightarrow> string \<Rightarrow> 'w \<Rightarrow> error option \<times> 'w" where
  "evict K reg uid w = (case reg_get reg w uid of
     Inl e \<Rightarrow> (Some e, w)
   | Inr cur \<Rightarrow>
       if node_of K cur = [] then (None, w)
       else (case reg_put reg w (cur\<lparr>status := pk_set K [] (status cur)\<rparr>) of
           (Inl e, w') \<Rightarrow> (Some e, w')
         | (Inr _, w') \<Rightarrow> (None, w')))"

fun evict_loop ::
    "('s, 'st) placed_kind \<Rightarrow> ('w, 's, 'st) registry \<Rightarrow> (string \<Rightarrow> bool) \<Rightarrow> ('s, 'st) resource list \<Rightarrow> 'w \<Rightarrow>
      error list \<times> ('s, 'st) resource list \<times> 'w" where
  "evict_loop K reg ready [] w = ([], [], w)"
| "evict_loop K reg ready (r # rs) w =
     (if deleting r \<or> node_of K r = [] \<or> ready (node_of K r)
      then (case evict_loop K reg ready rs w of (errs, rs', w') \<Rightarrow> (errs, r # rs', w'))
      else (case evict K reg (uid_of r) w of
          (Some e, w1) \<Rightarrow> (case evict_loop K reg ready rs w1 of
            (errs, rs', w') \<Rightarrow> (Wrap ''evict'' e # errs, r # rs', w'))
        | (None, w1) \<Rightarrow> (case evict_loop K reg ready rs w1 of
            (errs, rs', w') \<Rightarrow> (errs, r\<lparr>status := pk_set K [] (status r)\<rparr> # rs', w'))))"

fun count_loop :: "('s, 'st) placed_kind \<Rightarrow> ('s, 'st) resource list \<Rightarrow> allocation \<Rightarrow> allocation" where
  "count_loop K [] alloc = alloc"
| "count_loop K (r # rs) alloc =
     (if deleting r then count_loop K rs alloc
      else case alloc (node_of K r) of
        None \<Rightarrow> count_loop K rs alloc
      | Some a \<Rightarrow> count_loop K rs (alloc(node_of K r \<mapsto> pk_charge K (spec r) a)))"

text \<open>
  \<open>chooser\<close> is what a controller does between the guard and the assignment; it
  answers \<^verbatim>\<open>""\<close> where the source continues with the next workload.
\<close>

fun place_loop ::
    "('s, 'st) placed_kind \<Rightarrow> ('w, 's, 'st) registry \<Rightarrow> (allocation \<Rightarrow> 'w \<Rightarrow> 's \<Rightarrow> string) \<Rightarrow>
      ('s, 'st) resource list \<Rightarrow> allocation \<Rightarrow> 'w \<Rightarrow> error list \<times> allocation \<times> 'w" where
  "place_loop K reg chooser [] alloc w = ([], alloc, w)"
| "place_loop K reg chooser (r # rs) alloc w =
     (if deleting r \<or> node_of K r \<noteq> [] then place_loop K reg chooser rs alloc w
      else let node = chooser alloc w (spec r) in
        if node = [] then place_loop K reg chooser rs alloc w
        else (case assign K reg (uid_of r) node w of
            (Some e, w1) \<Rightarrow> (case place_loop K reg chooser rs alloc w1 of
              (errs, res) \<Rightarrow> (Wrap ''schedule'' e # errs, res))
          | (None, w1) \<Rightarrow>
              place_loop K reg chooser rs (alloc(node \<mapsto> pk_charge K (spec r) (alloc_of alloc node))) w1))"

definition place_pass ::
    "('s, 'st) placed_kind \<Rightarrow> ('w, 's, 'st) registry \<Rightarrow> (string \<Rightarrow> bool) \<Rightarrow> node list \<Rightarrow>
      (allocation \<Rightarrow> 'w \<Rightarrow> 's \<Rightarrow> string) \<Rightarrow> ('s, 'st) resource list \<Rightarrow> 'w \<Rightarrow> error list \<times> allocation \<times> 'w" where
  "place_pass K reg ready nodes chooser items w =
     (case evict_loop K reg ready items w of (errs, items', w1) \<Rightarrow>
        (case place_loop K reg chooser items' (count_loop K items' (init_alloc nodes Map.empty)) w1 of
           (errs', alloc, w2) \<Rightarrow> (errs @ errs', alloc, w2)))"

subsection \<open>Node and pool status\<close>

definition allocated_eq :: "node_allocated \<Rightarrow> node_allocated \<Rightarrow> bool" where
  "allocated_eq a b = (f_eq (na_cpus a) (na_cpus b) \<and> na_memoryMb a = na_memoryMb b \<and> na_pods a = na_pods b)"

definition node_phase :: "node \<Rightarrow> bool \<Rightarrow> phase \<times> string \<times> string" where
  "node_phase n rdy =
     (if rdy then (PhaseReady, ''Ready'', ''node available for scheduling'')
      else if nd_lastSeen (status n) = [] then (PhasePending, ''NeverSeen'', ''node has not heartbeated'')
      else (PhasePending, ''Stale'', ''node heartbeat is stale''))"

definition node_update :: "time \<Rightarrow> allocation \<Rightarrow> (string \<Rightarrow> bool) \<Rightarrow> node \<Rightarrow> node option" where
  "node_update stamped alloc ready n =
     (let a = alloc_of alloc (uid_of n);
          want = \<lparr>na_cpus = al_cpus a, na_memoryMb = al_mem a, na_pods = al_pods a\<rparr>;
          (ph, reason, msg) = node_phase n (ready (uid_of n))
      in if allocated_eq (nd_allocated (status n)) want \<and> st_phase (status n) = ph then None
         else let st = SetPhase stamped ph reason msg ((status n)\<lparr>nd_allocated := want\<rparr>);
                  st = (if ph = PhaseReady then MarkReconciled (md_generation (metadata n)) st else st)
           in Some (n\<lparr>status := st\<rparr>))"

text \<open>Both status writers save what changed and carry on after an error.\<close>

fun save_each ::
    "string \<Rightarrow> (('s, 'st) resource \<Rightarrow> ('s, 'st) resource option) \<Rightarrow> ('w, 's, 'st) registry \<Rightarrow> ('s, 'st) resource list \<Rightarrow>
      'w \<Rightarrow> error list \<times> 'w" where
  "save_each label update reg [] w = ([], w)"
| "save_each label update reg (r # rs) w = (case update r of
     None \<Rightarrow> save_each label update reg rs w
   | Some r' \<Rightarrow> (case reg_put reg w r' of
       (Inl e, w1) \<Rightarrow> (case save_each label update reg rs w1 of (errs, w') \<Rightarrow> (Wrap label e # errs, w'))
     | (Inr _, w1) \<Rightarrow> save_each label update reg rs w1))"

definition writeNodeStatus ::
    "time \<Rightarrow> ('w, node_spec, node_status) registry \<Rightarrow> node list \<Rightarrow> allocation \<Rightarrow> (string \<Rightarrow> bool) \<Rightarrow> 'w \<Rightarrow>
      error list \<times> 'w" where
  "writeNodeStatus stamped reg nodes alloc ready w =
     save_each ''controllers: save node'' (node_update stamped alloc ready) reg nodes w"

definition pool_members :: "node list \<Rightarrow> node_pool \<Rightarrow> node list" where
  "pool_members nodes p = filter (\<lambda>n. matchLabels (nd_labels (spec n)) (np_nodeSelector (spec p))) nodes"

definition pool_update :: "time \<Rightarrow> node list \<Rightarrow> (string \<Rightarrow> bool) \<Rightarrow> node_pool \<Rightarrow> node_pool option" where
  "pool_update stamped nodes ready p =
     (let members = pool_members nodes p;
          tot = int (length members); readyCount = int (length (filter (\<lambda>n. ready (uid_of n)) members))
      in if np_totalNodes (status p) = tot \<and> np_readyNodes (status p) = readyCount \<and>
           st_phase (status p) = PhaseReady then None
         else Some (p\<lparr>status := MarkReconciled (md_generation (metadata p))
             (SetPhase stamped PhaseReady ''Counted'' ''node pool reconciled''
               ((status p)\<lparr>np_totalNodes := tot, np_readyNodes := readyCount\<rparr>))\<rparr>))"

definition writePoolStatus ::
    "time \<Rightarrow> ('w, node_pool_spec, node_pool_status) registry \<Rightarrow> node_pool list \<Rightarrow> node list \<Rightarrow> (string \<Rightarrow> bool) \<Rightarrow> 'w \<Rightarrow>
      error list \<times> 'w" where
  "writePoolStatus stamped reg pools nodes ready w =
     save_each ''controllers: save node pool'' (pool_update stamped nodes ready) reg pools w"

subsection \<open>The compute scheduler (\<^verbatim>\<open>scheduler.go\<close>)\<close>

record 'w scheduler_controller =
  sc_computes :: "('w, compute_spec, compute_status) registry"
  sc_nodes :: "('w, node_spec, node_status) registry"
  sc_pools :: "('w, node_pool_spec, node_pool_status) registry"
  sc_readyWindow :: int

definition charge_compute :: "compute_spec \<Rightarrow> node_alloc \<Rightarrow> node_alloc" where
  "charge_compute s a = \<lparr>al_cpus = f_add (al_cpus a) (co_cpu s), al_mem = i64 (al_mem a + co_memoryMb s),
     al_pods = i64 (al_pods a + 1)\<rparr>"

definition compute_kind :: "(compute_spec, compute_status) placed_kind" where
  "compute_kind = \<lparr>pk_node = cs_nodeName, pk_set = (\<lambda>n s. s\<lparr>cs_nodeName := n\<rparr>), pk_charge = charge_compute\<rparr>"

definition choose_compute ::
    "node list \<Rightarrow> node_pool list \<Rightarrow> (string \<Rightarrow> bool) \<Rightarrow> allocation \<Rightarrow> 'w \<Rightarrow> compute_spec \<Rightarrow> string" where
  "choose_compute nodes pools ready alloc w s = (case poolSelector pools (co_nodePoolId s) of
     None \<Rightarrow> []
   | Some selector \<Rightarrow> pickNode nodes alloc ready selector (co_cpu s) (co_memoryMb s))"

definition Scheduler_WithContext :: "error option \<Rightarrow> 'w scheduler_controller \<Rightarrow> 'w scheduler_controller" where
  "Scheduler_WithContext ctx c = c\<lparr>sc_computes := reg_WithContext ctx (sc_computes c),
     sc_nodes := reg_WithContext ctx (sc_nodes c), sc_pools := reg_WithContext ctx (sc_pools c)\<rparr>"

definition with_compute_defaults :: "(compute_spec, compute_status) resource \<Rightarrow> (compute_spec, compute_status) resource" where
  "with_compute_defaults r = r\<lparr>spec := ComputeSpec_WithDefaults (spec r)\<rparr>"

text \<open>\<open>now\<close> is the reading of the controller's clock, \<open>stamped\<close> that of the conditions it sets.\<close>

definition Scheduler_Reconcile ::
    "error option \<Rightarrow> time \<Rightarrow> time \<Rightarrow> 'w scheduler_controller \<Rightarrow> 'w \<Rightarrow> error list \<times> 'w" where
  "Scheduler_Reconcile ctx now stamped c0 w =
     (let c = Scheduler_WithContext ctx c0 in
      case reg_list (sc_nodes c) w of
        Inl e \<Rightarrow> ([Wrap ''controllers: list nodes'' e], w)
      | Inr nodes \<Rightarrow> (case reg_list (sc_computes c) w of
          Inl e \<Rightarrow> ([Wrap ''controllers: list computes'' e], w)
        | Inr items \<Rightarrow> (case reg_list (sc_pools c) w of
            Inl e \<Rightarrow> ([Wrap ''controllers: list node pools'' e], w)
          | Inr pools \<Rightarrow>
              let computes = map with_compute_defaults items;
                  ready = init_ready (\<lambda>n. nodeReady (sc_readyWindow c) n now) nodes (\<lambda>_. False)
              in case place_pass compute_kind (sc_computes c) ready nodes
                    (choose_compute nodes pools ready) computes w of
                (errs, alloc, w1) \<Rightarrow> (case writeNodeStatus stamped (sc_nodes c) nodes alloc ready w1 of
                  (errs1, w2) \<Rightarrow> (case writePoolStatus stamped (sc_pools c) pools nodes ready w2 of
                    (errs2, w3) \<Rightarrow> (errs @ errs1 @ errs2, w3))))))"

subsection \<open>The micro-VM scheduler (\<^verbatim>\<open>microvm_scheduler.go\<close>)\<close>

record 'w microvm_scheduler =
  ms_microvms :: "('w, microvm_spec, microvm_status) registry"
  ms_nodes :: "('w, node_spec, node_status) registry"
  ms_pools :: "('w, node_pool_spec, node_pool_status) registry"
  ms_readyWindow :: int

definition charge_microvm :: "microvm_spec \<Rightarrow> node_alloc \<Rightarrow> node_alloc" where
  "charge_microvm s a = \<lparr>al_cpus = f_add (al_cpus a) (f_of_int (mv_vcpus s)), al_mem = i64 (al_mem a + mv_memoryMb s),
     al_pods = i64 (al_pods a + 1)\<rparr>"

definition microvm_kind :: "(microvm_spec, microvm_status) placed_kind" where
  "microvm_kind = \<lparr>pk_node = mvs_nodeName, pk_set = (\<lambda>n s. s\<lparr>mvs_nodeName := n\<rparr>), pk_charge = charge_microvm\<rparr>"

definition MicroVMScheduler_poolSelector :: "node_pool list \<Rightarrow> string \<Rightarrow> smap option" where
  "MicroVMScheduler_poolSelector = poolSelector"

definition choose_microvm ::
    "node list \<Rightarrow> node_pool list \<Rightarrow> (string \<Rightarrow> bool) \<Rightarrow> allocation \<Rightarrow> 'w \<Rightarrow> microvm_spec \<Rightarrow> string" where
  "choose_microvm nodes pools ready alloc w s = (case MicroVMScheduler_poolSelector pools (mv_nodePoolId s) of
     None \<Rightarrow> []
   | Some selector \<Rightarrow> pickNode nodes alloc ready selector (f_of_int (mv_vcpus s)) (mv_memoryMb s))"

definition MicroVMScheduler_nodeReady :: "'w microvm_scheduler \<Rightarrow> node \<Rightarrow> time \<Rightarrow> bool" where
  "MicroVMScheduler_nodeReady c n now = nodeReady (ms_readyWindow c) n now"

definition MicroVMScheduler_assign :: "('w, microvm_spec, microvm_status) registry \<Rightarrow> string \<Rightarrow> string \<Rightarrow> 'w \<Rightarrow> error option \<times> 'w" where
  "MicroVMScheduler_assign = assign microvm_kind"

definition MicroVMScheduler_evict :: "('w, microvm_spec, microvm_status) registry \<Rightarrow> string \<Rightarrow> 'w \<Rightarrow> error option \<times> 'w" where
  "MicroVMScheduler_evict = evict microvm_kind"

definition MicroVMScheduler_writeNodeStatus ::
    "time \<Rightarrow> ('w, node_spec, node_status) registry \<Rightarrow> node list \<Rightarrow> allocation \<Rightarrow> (string \<Rightarrow> bool) \<Rightarrow> 'w \<Rightarrow>
      error list \<times> 'w" where
  "MicroVMScheduler_writeNodeStatus = writeNodeStatus"

definition MicroVMScheduler_writePoolStatus ::
    "time \<Rightarrow> ('w, node_pool_spec, node_pool_status) registry \<Rightarrow> node_pool list \<Rightarrow> node list \<Rightarrow> (string \<Rightarrow> bool) \<Rightarrow> 'w \<Rightarrow>
      error list \<times> 'w" where
  "MicroVMScheduler_writePoolStatus = writePoolStatus"

definition MicroVMScheduler_WithContext :: "error option \<Rightarrow> 'w microvm_scheduler \<Rightarrow> 'w microvm_scheduler" where
  "MicroVMScheduler_WithContext ctx c = c\<lparr>ms_microvms := reg_WithContext ctx (ms_microvms c),
     ms_nodes := reg_WithContext ctx (ms_nodes c), ms_pools := reg_WithContext ctx (ms_pools c)\<rparr>"

definition MicroVMScheduler_Reconcile ::
    "error option \<Rightarrow> time \<Rightarrow> time \<Rightarrow> 'w microvm_scheduler \<Rightarrow> 'w \<Rightarrow> error list \<times> 'w" where
  "MicroVMScheduler_Reconcile ctx now stamped c0 w =
     (let c = MicroVMScheduler_WithContext ctx c0 in
      case reg_list (ms_nodes c) w of
        Inl e \<Rightarrow> ([Wrap ''controllers: list nodes'' e], w)
      | Inr nodes \<Rightarrow> (case reg_list (ms_microvms c) w of
          Inl e \<Rightarrow> ([Wrap ''controllers: list microvms'' e], w)
        | Inr microvms \<Rightarrow> (case reg_list (ms_pools c) w of
            Inl e \<Rightarrow> ([Wrap ''controllers: list node pools'' e], w)
          | Inr pools \<Rightarrow>
              let ready = init_ready (\<lambda>n. MicroVMScheduler_nodeReady c n now) nodes (\<lambda>_. False)
              in case place_pass microvm_kind (ms_microvms c) ready nodes
                    (choose_microvm nodes pools ready) microvms w of
                (errs, alloc, w1) \<Rightarrow> (case MicroVMScheduler_writeNodeStatus stamped (ms_nodes c) nodes alloc ready w1 of
                  (errs1, w2) \<Rightarrow> (case MicroVMScheduler_writePoolStatus stamped (ms_pools c) pools nodes ready w2 of
                    (errs2, w3) \<Rightarrow> (errs @ errs1 @ errs2, w3))))))"

subsection \<open>The disk scheduler (\<^verbatim>\<open>disk_scheduler.go\<close>)\<close>

record 'w disk_scheduler =
  dc_disks :: "('w, disk_spec, disk_status) registry"
  dc_nodes :: "('w, node_spec, node_status) registry"
  dc_readyWindow :: int

definition charge_pod :: "'s \<Rightarrow> node_alloc \<Rightarrow> node_alloc" where
  "charge_pod s a = a\<lparr>al_pods := i64 (al_pods a + 1)\<rparr>"

definition disk_kind :: "(disk_spec, disk_status) placed_kind" where
  "disk_kind = \<lparr>pk_node = ds_nodeName, pk_set = (\<lambda>n s. s\<lparr>ds_nodeName := n\<rparr>), pk_charge = charge_pod\<rparr>"

definition choose_disk :: "node list \<Rightarrow> (string \<Rightarrow> bool) \<Rightarrow> allocation \<Rightarrow> 'w \<Rightarrow> disk_spec \<Rightarrow> string" where
  "choose_disk nodes ready alloc w s = pickNode nodes alloc ready [] (Fin 0 0) 0"

definition DiskScheduler_nodeReady :: "'w disk_scheduler \<Rightarrow> node \<Rightarrow> time \<Rightarrow> bool" where
  "DiskScheduler_nodeReady c n now = nodeReady (dc_readyWindow c) n now"

definition DiskScheduler_assign :: "('w, disk_spec, disk_status) registry \<Rightarrow> string \<Rightarrow> string \<Rightarrow> 'w \<Rightarrow> error option \<times> 'w" where
  "DiskScheduler_assign = assign disk_kind"

definition DiskScheduler_evict :: "('w, disk_spec, disk_status) registry \<Rightarrow> string \<Rightarrow> 'w \<Rightarrow> error option \<times> 'w" where
  "DiskScheduler_evict = evict disk_kind"

definition DiskScheduler_Reconcile :: "time \<Rightarrow> 'w disk_scheduler \<Rightarrow> 'w \<Rightarrow> error list \<times> 'w" where
  "DiskScheduler_Reconcile now c w = (case reg_list (dc_nodes c) w of
     Inl e \<Rightarrow> ([Wrap ''controllers: list nodes'' e], w)
   | Inr nodes \<Rightarrow> (case reg_list (dc_disks c) w of
       Inl e \<Rightarrow> ([Wrap ''controllers: list disks'' e], w)
     | Inr disks \<Rightarrow>
         let ready = init_ready (\<lambda>n. DiskScheduler_nodeReady c n now) nodes (\<lambda>_. False)
         in case place_pass disk_kind (dc_disks c) ready nodes (choose_disk nodes ready) disks w of
           (errs, alloc, w1) \<Rightarrow> (errs, w1)))"

subsection \<open>The replica scheduler (\<^verbatim>\<open>async_disk_replica_scheduler.go\<close>)\<close>

record 'w replica_scheduler =
  rc_replicas :: "('w, async_disk_replica_spec, async_disk_replica_status) registry"
  rc_disks :: "('w, disk_spec, disk_status) registry"
  rc_nodes :: "('w, node_spec, node_status) registry"
  rc_pools :: "('w, node_pool_spec, node_pool_status) registry"
  rc_readyWindow :: int

definition replica_kind :: "(async_disk_replica_spec, async_disk_replica_status) placed_kind" where
  "replica_kind = \<lparr>pk_node = drs_nodeName, pk_set = (\<lambda>n s. s\<lparr>drs_nodeName := n\<rparr>), pk_charge = charge_pod\<rparr>"

definition ReplicaScheduler_poolSelector :: "node_pool list \<Rightarrow> string \<Rightarrow> smap option" where
  "ReplicaScheduler_poolSelector = poolSelector"

definition choose_replica ::
    "('w, disk_spec, disk_status) registry \<Rightarrow> node list \<Rightarrow> node_pool list \<Rightarrow> (string \<Rightarrow> bool) \<Rightarrow> allocation \<Rightarrow> 'w \<Rightarrow>
      async_disk_replica_spec \<Rightarrow> string" where
  "choose_replica disks nodes pools ready alloc w s = (case reg_get disks w (dr_diskId s) of
     Inl e \<Rightarrow> []
   | Inr disk \<Rightarrow>
       if ds_nodeName (status disk) = [] then []
       else (case ReplicaScheduler_poolSelector pools (dr_targetNodePoolId s) of
           None \<Rightarrow> []
         | Some selector \<Rightarrow> pickNodeExcluding nodes alloc ready selector (ds_nodeName (status disk))))"

definition ReplicaScheduler_nodeReady :: "'w replica_scheduler \<Rightarrow> node \<Rightarrow> time \<Rightarrow> bool" where
  "ReplicaScheduler_nodeReady c n now = nodeReady (rc_readyWindow c) n now"

definition ReplicaScheduler_assign ::
    "('w, async_disk_replica_spec, async_disk_replica_status) registry \<Rightarrow> string \<Rightarrow> string \<Rightarrow> 'w \<Rightarrow> error option \<times> 'w" where
  "ReplicaScheduler_assign = assign replica_kind"

definition ReplicaScheduler_evict ::
    "('w, async_disk_replica_spec, async_disk_replica_status) registry \<Rightarrow> string \<Rightarrow> 'w \<Rightarrow> error option \<times> 'w" where
  "ReplicaScheduler_evict = evict replica_kind"

definition ReplicaScheduler_Reconcile :: "time \<Rightarrow> 'w replica_scheduler \<Rightarrow> 'w \<Rightarrow> error list \<times> 'w" where
  "ReplicaScheduler_Reconcile now c w = (case reg_list (rc_nodes c) w of
     Inl e \<Rightarrow> ([Wrap ''controllers: list nodes'' e], w)
   | Inr nodes \<Rightarrow> (case reg_list (rc_replicas c) w of
       Inl e \<Rightarrow> ([Wrap ''controllers: list async disk replicas'' e], w)
     | Inr replicas \<Rightarrow> (case reg_list (rc_pools c) w of
         Inl e \<Rightarrow> ([Wrap ''controllers: list node pools'' e], w)
       | Inr pools \<Rightarrow>
           let ready = init_ready (\<lambda>n. ReplicaScheduler_nodeReady c n now) nodes (\<lambda>_. False)
           in case place_pass replica_kind (rc_replicas c) ready nodes
                 (choose_replica (rc_disks c) nodes pools ready) replicas w of
             (errs, alloc, w1) \<Rightarrow> (errs, w1))))"

subsection \<open>Heartbeats (\<^verbatim>\<open>internal/manager/heartbeat.go\<close>)\<close>

record 'w node_heartbeat =
  hb_reg :: "('w, node_spec, node_status) registry"
  hb_nodeName :: string

definition Heartbeat_ReconcileAll :: "time \<Rightarrow> 'w node_heartbeat \<Rightarrow> 'w \<Rightarrow> error option \<times> 'w" where
  "Heartbeat_ReconcileAll now h w =
     (if hb_nodeName h = [] then (None, w)
      else case reg_get (hb_reg h) w (hb_nodeName h) of
        Inl e \<Rightarrow> if errors_is e ErrNotFound then (None, w) else (Some (Wrap ''manager: load node'' e), w)
      | Inr node \<Rightarrow> (case reg_put (hb_reg h) w (node\<lparr>status := (status node)\<lparr>nd_lastSeen := format_rfc3339 now\<rparr>\<rparr>) of
          (Inl e, w') \<Rightarrow> (Some (Wrap ''manager: heartbeat node'' e), w')
        | (Inr _, w') \<Rightarrow> (None, w')))"

subsection \<open>What the scans choose\<close>

lemma pick_loop_found:
  assumes "best \<noteq> []" "\<And>n. n \<in> set ns \<Longrightarrow> eligible n \<Longrightarrow> uid_of n \<noteq> []"
  shows "(pick_loop eligible pods ns best bp = best \<and> (\<forall>n\<in>set ns. eligible n \<longrightarrow> bp \<le> pods n)) \<or>
    (\<exists>n\<in>set ns. eligible n \<and> pick_loop eligible pods ns best bp = uid_of n \<and> pods n < bp \<and>
      (\<forall>m\<in>set ns. eligible m \<longrightarrow> pods n \<le> pods m))"
  using assms
proof (induction ns arbitrary: best bp)
  case Nil
  then show ?case by simp
next
  case (Cons n ns)
  show ?case
  proof (cases "eligible n \<and> pods n < bp")
    case True
    then have "uid_of n \<noteq> []" using Cons.prems by simp
    from Cons.IH [OF this, of "pods n"] Cons.prems True show ?thesis by force
  next
    case False
    with Cons.IH [of best bp] Cons.prems show ?thesis by force
  qed
qed

text \<open>
  The scan answers \<^verbatim>\<open>""\<close> exactly when no node is eligible, and otherwise an eligible
  node with the fewest pods.
\<close>

lemma pick_loop_best:
  assumes "\<And>n. n \<in> set ns \<Longrightarrow> eligible n \<Longrightarrow> uid_of n \<noteq> []"
  shows "if \<exists>n\<in>set ns. eligible n
    then \<exists>n\<in>set ns. eligible n \<and> pick_loop eligible pods ns [] bp = uid_of n \<and>
      (\<forall>m\<in>set ns. eligible m \<longrightarrow> pods n \<le> pods m)
    else pick_loop eligible pods ns [] bp = []"
  using assms
proof (induction ns)
  case Nil
  then show ?case by simp
next
  case (Cons n ns)
  show ?case
  proof (cases "eligible n")
    case True
    then have "uid_of n \<noteq> []" using Cons.prems by simp
    from pick_loop_found [OF this, of ns eligible pods "pods n"] Cons.prems True show ?thesis by force
  next
    case False
    with Cons show ?thesis by auto
  qed
qed

lemma pick_loop_eligible:
  "pick_loop eligible pods ns best bp = best \<or>
   (\<exists>n\<in>set ns. eligible n \<and> uid_of n = pick_loop eligible pods ns best bp)"
proof (induction ns arbitrary: best bp)
  case (Cons n ns)
  show ?case using Cons.IH [of "uid_of n" "pods n"] Cons.IH [of best bp] by (auto intro: sym)
qed simp

lemma pickNode_sound:
  assumes "pickNode nodes alloc ready selector cpu mem = u" "u \<noteq> []"
  shows "\<exists>n\<in>set nodes. uid_of n = u \<and> ready u \<and> matchLabels (nd_labels (spec n)) selector \<and>
    has_room (alloc_of alloc u) (nd_capacity (spec n)) cpu mem"
  using pick_loop_eligible [of "\<lambda>n. ready (uid_of n) \<and> matchLabels (nd_labels (spec n)) selector \<and>
         has_room (alloc_of alloc (uid_of n)) (nd_capacity (spec n)) cpu mem"
      "\<lambda>n. al_pods (alloc_of alloc (uid_of n))" nodes "[]" "- 1"] assms unfolding pickNode_def by auto

lemma pickNodeExcluding_sound:
  assumes "pickNodeExcluding nodes alloc ready selector exclude = u" "u \<noteq> []"
  shows "u \<noteq> exclude \<and> (\<exists>n\<in>set nodes. uid_of n = u \<and> ready u \<and> matchLabels (nd_labels (spec n)) selector)"
  using pick_loop_eligible [of "\<lambda>n. \<not> (uid_of n = exclude \<or> \<not> ready (uid_of n) \<or>
         \<not> matchLabels (nd_labels (spec n)) selector)"
      "\<lambda>n. al_pods (alloc_of alloc (uid_of n))" nodes "[]" "- 1"] assms unfolding pickNodeExcluding_def by auto

lemma init_ready_iff:
  "distinct (map uid_of ns) \<Longrightarrow> init_ready rdy ns m u =
    (if u \<in> uid_of ` set ns then \<exists>n\<in>set ns. uid_of n = u \<and> rdy n else m u)"
  by (induction ns arbitrary: m) (auto simp: rev_image_eqI)

lemma init_alloc_simp: "init_alloc ns m u = (if u \<in> uid_of ` set ns then Some zero_alloc else m u)"
  by (induction ns arbitrary: m) auto

end
