(* ===== verification/PlacementLaws.thy ===== *)
theory PlacementLaws
  imports Placement
begin

text \<open>
  What the passes of \<^verbatim>\<open>internal/controllers\<close> do to the store. The locale
  \<open>placement\<close> is the contract a placed kind meets; inside it an eviction only clears
  nodes that are not ready, a placement only answers nodes that are ready and have
  room, and the allocation a pass computes charges exactly the workloads the store
  has on each node. The four kinds interpret it over the file store.
\<close>

subsection \<open>What a pass does to the store\<close>

text \<open>
  The contract of a placed kind: its registry, and a node field that can be read and
  written without touching the rest of the status.
\<close>

locale placement = typed_registry ops abs inv ok R
  for ops :: "'w store_ops" and abs inv ok and R :: "('w, 's, 'st) registry" +
  fixes K :: "('s, 'st) placed_kind"
  assumes node_set [simp]: "pk_node K (pk_set K n st) = n"
    and set_set [simp]: "pk_set K n (pk_set K m st) = pk_set K n st"
    and set_node [simp]: "pk_set K (pk_node K st) st = st"
begin

text \<open>\<open>kept a b\<close>: the resource \<open>b\<close> is \<open>a\<close> up to its revision, stamp and node.\<close>

definition kept :: "('s, 'st) resource \<Rightarrow> ('s, 'st) resource \<Rightarrow> bool" where
  "kept a b = (spec b = spec a \<and> metadata (set_rv [] b) = metadata (set_rv [] a) \<and>
     status b = pk_set K (node_of K b) (status a))"

lemma kept_refl [simp]: "kept a a"
  by (simp add: kept_def)

lemma kept_trans: "kept a b \<Longrightarrow> kept b c \<Longrightarrow> kept a c"
  unfolding kept_def by (metis set_set)

lemma kept_deleting: "kept a b \<Longrightarrow> deleting b = deleting a"
proof -
  assume "kept a b"
  then have "md_deletionTimestamp (metadata (set_rv [] b)) = md_deletionTimestamp (metadata (set_rv [] a))"
    by (simp add: kept_def)
  then show ?thesis by (simp add: set_rv_def IsDeleting_def)
qed

lemma kept_uid: "kept a b \<Longrightarrow> uid_of b = uid_of a"
proof -
  assume "kept a b"
  then have "uid_of (set_rv [] b) = uid_of (set_rv [] a)" by (simp only: kept_def)
  then show ?thesis by simp
qed

lemma assign_result:
  assumes "good w" "ok uid" "assign K R uid node w = (e, w')"
  shows "good w' \<and> (\<forall>k u. k \<noteq> reg_kind R \<longrightarrow> abs w' (k, u) = abs w (k, u)) \<and>
    (if e = None then \<exists>a b. vw w uid = Some a \<and> vw w' = (vw w)(uid \<mapsto> b) \<and> kept a b \<and> node_of K b = node
     else vw w' = vw w)"
proof (cases "vw w uid")
  case None
  with assms get_view [OF assms(1,2)] show ?thesis by (auto simp: assign_def)
next
  case (Some cur)
  note get = get_view [OF assms(1,2), unfolded Some]
  have uid: "uid_of cur = uid" using vw_uid [OF assms(1) Some] by simp
  show ?thesis
  proof (cases "node_of K cur = node")
    case True
    with assms get Some show ?thesis by (auto simp: assign_def fun_upd_idem intro!: exI [of _ cur])
  next
    case False
    let ?new = "cur\<lparr>status := pk_set K node (status cur)\<rparr>"
    obtain r w1 where put: "reg_put R w ?new = (r, w1)" by fastforce
    have "ok (uid_of ?new)" using uid assms(2) by simp
    note c = reg_put_cases [OF assms(1) this put] reg_put_other_kind [OF assms(1) this put]
    show ?thesis
    proof (cases r)
      case (Inl err)
      with False get put assms(3) c show ?thesis by (auto simp: assign_def)
    next
      case (Inr res)
      with False get put assms(3) have r: "e = None" "w' = w1" by (auto simp: assign_def)
      from c(1) Inr obtain v where v: "good w1" "vw w1 = (vw w)(uid \<mapsto> res)" "res = set_rv v (stamp R ?new)"
        using uid by auto
      moreover have "kept cur res" "node_of K res = node"
        by (auto simp: v(3) kept_def set_rv_def)
      ultimately show ?thesis using r c(2) Some by auto
    qed
  qed
qed

lemma evict_assign: "evict K R uid w = assign K R uid [] w"
  by (simp add: evict_def assign_def)

text \<open>A listing in memory agrees with the store on node and deletion mark.\<close>

definition tracks :: "'w \<Rightarrow> ('s, 'st) resource list \<Rightarrow> bool" where
  "tracks w rs = (\<forall>r\<in>set rs. ok (uid_of r) \<and>
     (\<exists>v. vw w (uid_of r) = Some v \<and> node_of K v = node_of K r \<and> deleting v = deleting r))"

lemma tracks_Cons:
  "tracks w (r # rs) \<longleftrightarrow> ok (uid_of r) \<and>
     (\<exists>v. vw w (uid_of r) = Some v \<and> node_of K v = node_of K r \<and> deleting v = deleting r) \<and> tracks w rs"
  by (auto simp: tracks_def)

lemma tracks_upd: "tracks w rs \<Longrightarrow> vw w' = (vw w)(uid \<mapsto> b) \<Longrightarrow> uid \<notin> uid_of ` set rs \<Longrightarrow> tracks w' rs"
  by (auto simp: tracks_def image_def)

lemma tracks_same: "tracks w rs \<Longrightarrow> vw w' = vw w \<Longrightarrow> tracks w' rs"
  by (auto simp: tracks_def)

text \<open>\<open>moves P w w'\<close>: every stored resource stays, changing its node only as \<open>P\<close> allows.\<close>

definition moves ::
    "(('s, 'st) resource \<Rightarrow> string \<Rightarrow> bool) \<Rightarrow> 'w \<Rightarrow> 'w \<Rightarrow> bool" where
  "moves P w w' = (good w' \<and> (\<forall>k u. k \<noteq> reg_kind R \<longrightarrow> abs w' (k, u) = abs w (k, u)) \<and>
     (\<forall>uid. case vw w uid of
        None \<Rightarrow> vw w' uid = None
      | Some a \<Rightarrow> \<exists>b. vw w' uid = Some b \<and> kept a b \<and> (node_of K b = node_of K a \<or> P a (node_of K b))))"

lemma movesE:
  assumes "moves P w w'"
  shows "case vw w uid of
        None \<Rightarrow> vw w' uid = None
      | Some a \<Rightarrow> \<exists>b. vw w' uid = Some b \<and> kept a b \<and> (node_of K b = node_of K a \<or> P a (node_of K b))"
  using assms unfolding moves_def by blast

lemma movesD:
  assumes "moves P w w'" "vw w uid = Some a"
  shows "\<exists>b. vw w' uid = Some b \<and> kept a b \<and> (node_of K b = node_of K a \<or> P a (node_of K b))"
  using movesE [OF assms(1), of uid] assms(2) by simp

lemma moves_refl [simp]: "good w \<Longrightarrow> moves P w w"
  by (auto simp: moves_def split: option.split)

lemma moves_trans:
  assumes "moves P w w1" "moves Q w1 w2"
    and "\<And>a b n. kept a b \<Longrightarrow> (node_of K b = node_of K a \<or> P a (node_of K b)) \<Longrightarrow> Q b n \<Longrightarrow> n \<noteq> node_of K a \<Longrightarrow> S a n"
    and "\<And>a n. P a n \<Longrightarrow> S a n"
  shows "moves S w w2"
proof -
  have "case vw w uid of None \<Rightarrow> vw w2 uid = None
      | Some a \<Rightarrow> \<exists>c. vw w2 uid = Some c \<and> kept a c \<and> (node_of K c = node_of K a \<or> S a (node_of K c))" for uid
  proof (cases "vw w uid")
    case None
    with movesE [OF assms(1), of uid] movesE [OF assms(2), of uid] show ?thesis by simp
  next
    case (Some a)
    from movesD [OF assms(1) Some] obtain b where b: "vw w1 uid = Some b" "kept a b"
        "node_of K b = node_of K a \<or> P a (node_of K b)" by blast
    from movesD [OF assms(2) b(1)] obtain c where c: "vw w2 uid = Some c" "kept b c"
        "node_of K c = node_of K b \<or> Q b (node_of K c)" by blast
    have "node_of K c = node_of K a \<or> S a (node_of K c)"
      using b(3) c(3) assms(3) [OF b(2,3)] assms(4) by metis
    with c(1) kept_trans [OF b(2) c(2)] Some show ?thesis by auto
  qed
  with assms(1,2) show ?thesis by (auto simp: moves_def)
qed

lemma moves_good: "moves P w w' \<Longrightarrow> good w'"
  by (simp add: moves_def)

lemma moves_weaken:
  assumes "moves P w w'" "\<And>a n. P a n \<Longrightarrow> Q a n"
  shows "moves Q w w'"
  by (rule moves_trans [OF assms(1) moves_refl [where P = "\<lambda>_ _. False", OF moves_good [OF assms(1)]]])
    (use assms(2) in auto)

lemma assign_moves:
  assumes "good w" "ok uid" "assign K R uid node w = (e, w')"
    and "\<And>a. vw w uid = Some a \<Longrightarrow> e = None \<Longrightarrow> P a node"
  shows "moves P w w'"
  using assign_result [OF assms(1-3)] assms(1,4)
  by (cases e) (auto simp: moves_def simp del: vw_None split: option.split)

definition frame :: "('s, 'st) resource list \<Rightarrow> 'w \<Rightarrow> 'w \<Rightarrow> bool" where
  "frame rs w w' = (\<forall>uid. uid \<notin> uid_of ` set rs \<longrightarrow> vw w' uid = vw w uid)"

lemma frameD: "frame rs w w' \<Longrightarrow> uid \<notin> uid_of ` set rs \<Longrightarrow> vw w' uid = vw w uid"
  by (simp add: frame_def)

lemma assign_frame: "good w \<Longrightarrow> ok (uid_of r) \<Longrightarrow> assign K R (uid_of r) node w = (e, w') \<Longrightarrow> frame [r] w w'"
  using assign_result [of w "uid_of r" node e w'] by (cases e) (auto simp: frame_def)

lemma frame_Cons: "frame [r] w w1 \<Longrightarrow> frame rs w1 w' \<Longrightarrow> frame (r # rs) w w'"
  by (simp add: frame_def)

lemma frame_tail: "frame rs w w' \<Longrightarrow> frame (r # rs) w w'"
  by (simp add: frame_def)

lemma tracks_frame: "tracks w rs \<Longrightarrow> frame [r] w w' \<Longrightarrow> uid_of r \<notin> uid_of ` set rs \<Longrightarrow> tracks w' rs"
  unfolding tracks_def frame_def by (auto simp: image_def)

definition evictable :: "(string \<Rightarrow> bool) \<Rightarrow> ('s, 'st) resource \<Rightarrow> string \<Rightarrow> bool" where
  "evictable ready a n = (n = [] \<and> \<not> deleting a \<and> \<not> ready (node_of K a))"

lemma evictable_trans:
  "kept a b \<Longrightarrow> node_of K b = node_of K a \<or> evictable ready a (node_of K b) \<Longrightarrow> evictable ready b n \<Longrightarrow>
   evictable ready a n"
  using kept_deleting by (auto simp: evictable_def)

lemma evict_loop_result:
  assumes "good w" "tracks w rs" "distinct (map uid_of rs)" "evict_loop K R ready rs w = (errs, rs', w')"
  shows "moves (evictable ready) w w' \<and> frame rs w w' \<and> tracks w' rs' \<and>
    map (\<lambda>r. (uid_of r, spec r, deleting r)) rs' = map (\<lambda>r. (uid_of r, spec r, deleting r)) rs \<and>
    (errs = [] \<longrightarrow> (\<forall>r\<in>set rs'. deleting r \<or> node_of K r = [] \<or> ready (node_of K r)))"
  using assms
proof (induction rs arbitrary: w errs rs' w')
  case Nil
  then show ?case by (auto simp: frame_def tracks_def)
next
  case (Cons r rs)
  have r: "ok (uid_of r)" "uid_of r \<notin> uid_of ` set rs" "tracks w rs" "distinct (map uid_of rs)"
    using Cons.prems(2,3) by (auto simp: tracks_Cons)
  from Cons.prems(2) obtain v where v: "vw w (uid_of r) = Some v" "node_of K v = node_of K r" "deleting v = deleting r"
    by (auto simp: tracks_Cons)
  show ?case
  proof (cases "deleting r \<or> node_of K r = [] \<or> ready (node_of K r)")
    case True
    obtain errs1 rs1 w1 where l: "evict_loop K R ready rs w = (errs1, rs1, w1)" by (metis prod_cases3)
    with True Cons.prems(4) have eq: "errs = errs1" "rs' = r # rs1" "w' = w1" by auto
    note IH = Cons.IH [OF Cons.prems(1) r(3,4) l]
    have "vw w1 (uid_of r) = vw w (uid_of r)" using IH frameD r(2) by blast
    with IH r v True frame_tail show ?thesis unfolding eq by (auto simp: tracks_Cons)
  next
    case False
    obtain e w0 where a: "assign K R (uid_of r) [] w = (e, w0)" by fastforce
    obtain errs1 rs1 w1 where l: "evict_loop K R ready rs w0 = (errs1, rs1, w1)" by (metis prod_cases3)
    let ?r = "if e = None then r\<lparr>status := pk_set K [] (status r)\<rparr> else r"
    have eq: "errs = (case e of None \<Rightarrow> errs1 | Some x \<Rightarrow> Wrap ''evict'' x # errs1)" "rs' = ?r # rs1" "w' = w1"
      using False Cons.prems(4) a l by (auto simp: evict_assign split: option.splits)
    note fr = assign_frame [OF Cons.prems(1) r(1) a]
    have m0: "moves (evictable ready) w w0"
      by (rule assign_moves [OF Cons.prems(1) r(1) a]) (use False v in \<open>auto simp: evictable_def\<close>)
    note IH = Cons.IH [OF moves_good [OF m0] tracks_frame [OF r(3) fr r(2)] r(4) l]
    have m: "moves (evictable ready) w w1"
      by (rule moves_trans [OF m0 conjunct1 [OF IH]]) (auto intro: evictable_trans)
    have "vw w1 (uid_of r) = vw w0 (uid_of r)" using IH frameD r(2) by blast
    moreover have "\<exists>b. vw w0 (uid_of r) = Some b \<and> node_of K b = node_of K ?r \<and> deleting b = deleting ?r"
      using assign_result [OF Cons.prems(1) r(1) a] v kept_deleting by (cases e) auto
    ultimately have "tracks w1 (?r # rs1)" using IH r(1) by (auto simp: tracks_Cons)
    moreover have "frame (r # rs) w w1" using frame_Cons [OF fr] IH by blast
    ultimately show ?thesis unfolding eq using m IH by (cases e) auto
  qed
qed

text \<open>
  The workloads of a listing the store has on node \<open>u\<close>, and the claim that an
  allocation charges exactly those, in some order.
\<close>

definition on_node :: "'w \<Rightarrow> string \<Rightarrow> ('s, 'st) resource list \<Rightarrow> ('s, 'st) resource set" where
  "on_node w u items = {r \<in> set items. \<not> deleting r \<and> (\<exists>v. vw w (uid_of r) = Some v \<and> node_of K v = u)}"

definition charged :: "('s, 'st) resource list \<Rightarrow> node_alloc" where
  "charged xs = foldl (\<lambda>a r. pk_charge K (spec r) a) zero_alloc xs"

definition tally :: "'s list \<Rightarrow> node_alloc" where
  "tally ss = foldl (\<lambda>a s. pk_charge K s a) zero_alloc ss"

lemma charged_tally: "charged xs = tally (map spec xs)"
  by (simp add: charged_def tally_def foldl_map)

definition accounts :: "'w \<Rightarrow> ('s, 'st) resource list \<Rightarrow> allocation \<Rightarrow> bool" where
  "accounts w items alloc = (\<forall>u a. u \<noteq> [] \<longrightarrow> alloc u = Some a \<longrightarrow>
     (\<exists>xs. distinct xs \<and> set xs = on_node w u items \<and> a = charged xs))"

lemma count_loop_result:
  "count_loop K rs alloc u = map_option (\<lambda>a.
     foldl (\<lambda>a r. pk_charge K (spec r) a) a (filter (\<lambda>r. \<not> deleting r \<and> node_of K r = u) rs)) (alloc u)"
proof (induction rs arbitrary: alloc)
  case Nil
  then show ?case by (cases "alloc u") simp_all
next
  case (Cons r rs)
  show ?case
    by (cases "deleting r"; cases "alloc (node_of K r)"; cases "node_of K r = u") (simp_all add: Cons.IH)
qed

lemma count_accounts:
  assumes "tracks w items" "distinct (map uid_of items)"
  shows "accounts w items (count_loop K items (init_alloc nodes Map.empty))"
proof -
  have "\<exists>xs. distinct xs \<and> set xs = on_node w u items \<and> a = charged xs"
    if "count_loop K items (init_alloc nodes Map.empty) u = Some a" for u a
  proof (intro exI conjI)
    let ?xs = "filter (\<lambda>r. \<not> deleting r \<and> node_of K r = u) items"
    show "distinct ?xs" using assms(2) by (simp add: distinct_map)
    show "set ?xs = on_node w u items" using assms(1) by (fastforce simp: on_node_def tracks_def)
    show "a = charged ?xs"
      using that by (auto simp: count_loop_result init_alloc_simp charged_def split: if_splits)
  qed
  then show ?thesis by (simp add: accounts_def)
qed

lemma accounts_same:
  assumes "accounts w items alloc" "vw w' = vw w"
  shows "accounts w' items alloc"
  using assms unfolding accounts_def on_node_def by simp

lemma accounts_assign:
  assumes "accounts w items alloc" "r \<in> set items" "distinct (map uid_of items)" "\<not> deleting r"
    and "vw w (uid_of r) = Some v" "node_of K v = []"
    and "vw w' = (vw w)(uid_of r \<mapsto> b)" "node_of K b = u" "u \<noteq> []" "alloc u = Some a"
  shows "accounts w' items (alloc(u \<mapsto> pk_charge K (spec r) a))"
proof -
  have same: "r' = r" if "r' \<in> set items" "uid_of r' = uid_of r" for r'
    using that assms(2,3) by (metis distinct_map inj_onD)
  have here: "on_node w' u items = insert r (on_node w u items)" "r \<notin> on_node w u items"
    using assms(2,4-9) same by (auto simp: on_node_def split: if_splits)
  have other: "on_node w' u' items = on_node w u' items" if "u' \<noteq> u" "u' \<noteq> []" for u'
    using assms(5-8) that same by (auto simp: on_node_def split: if_splits)
  from assms(1,9,10) obtain xs where "distinct xs" "set xs = on_node w u items" "a = charged xs"
    by (auto simp: accounts_def)
  with here have "distinct (xs @ [r]) \<and> set (xs @ [r]) = on_node w' u items \<and>
      pk_charge K (spec r) a = charged (xs @ [r])"
    by (auto simp: charged_def)
  with other assms(1,9) show ?thesis unfolding accounts_def by (metis fun_upd_apply option.inject)
qed

text \<open>
  A chooser that only answers nodes of the listing that are ready and have room, and
  the node that a placement of the pass was last checked against.
\<close>

definition sound_chooser ::
    "node list \<Rightarrow> (string \<Rightarrow> bool) \<Rightarrow> (node \<Rightarrow> 's \<Rightarrow> node_alloc \<Rightarrow> bool) \<Rightarrow> (allocation \<Rightarrow> 'w \<Rightarrow> 's \<Rightarrow> string) \<Rightarrow> bool" where
  "sound_chooser nodes ready fits chooser = (\<forall>alloc w s u. chooser alloc w s = u \<longrightarrow> u \<noteq> [] \<longrightarrow>
     (\<exists>n\<in>set nodes. uid_of n = u \<and> ready u \<and> fits n s (alloc_of alloc u)))"

definition checked ::
    "node list \<Rightarrow> (string \<Rightarrow> bool) \<Rightarrow> (node \<Rightarrow> 's \<Rightarrow> node_alloc \<Rightarrow> bool) \<Rightarrow> allocation \<Rightarrow> string \<Rightarrow> bool" where
  "checked nodes ready fits alloc u = (u \<noteq> [] \<and> (\<exists>n\<in>set nodes. \<exists>s ss. uid_of n = u \<and> ready u \<and>
     fits n s (tally ss) \<and> alloc u = Some (pk_charge K s (tally ss))))"

definition suits ::
    "node list \<Rightarrow> (node \<Rightarrow> 's \<Rightarrow> node_alloc \<Rightarrow> bool) \<Rightarrow> ('s, 'st) resource list \<Rightarrow> string \<Rightarrow> string \<Rightarrow> bool" where
  "suits nodes fits items uid u = (\<exists>r\<in>set items. \<exists>n\<in>set nodes. \<exists>a. uid_of r = uid \<and> uid_of n = u \<and> fits n (spec r) a)"

lemma suits_cong:
  assumes "map (\<lambda>r. (uid_of r, spec r, deleting r)) items = map (\<lambda>r. (uid_of r, spec r, deleting r)) items'"
  shows "suits nodes fits items = suits nodes fits items'"
proof -
  have suits: "suits nodes fits xs uid u =
      (\<exists>t\<in>set (map (\<lambda>r. (uid_of r, spec r, deleting r)) xs). \<exists>n\<in>set nodes. \<exists>a. fst t = uid \<and> uid_of n = u \<and> fits n (fst (snd t)) a)"
    for xs :: "('s, 'st) resource list" and uid u
    by (simp add: suits_def)
  show ?thesis by (intro ext) (simp only: suits assms)
qed

definition placed_well ::
    "node list \<Rightarrow> (string \<Rightarrow> bool) \<Rightarrow> (node \<Rightarrow> 's \<Rightarrow> node_alloc \<Rightarrow> bool) \<Rightarrow> ('s, 'st) resource list \<Rightarrow> allocation \<Rightarrow>
      string \<Rightarrow> string \<Rightarrow> bool" where
  "placed_well nodes ready fits items alloc uid u = (checked nodes ready fits alloc u \<and> suits nodes fits items uid u)"

definition placeable :: "(string \<Rightarrow> string \<Rightarrow> bool) \<Rightarrow> ('s, 'st) resource \<Rightarrow> string \<Rightarrow> bool" where
  "placeable Z a n = (node_of K a = [] \<and> \<not> deleting a \<and> Z (uid_of a) n)"

lemma placeable_trans:
  "kept a b \<Longrightarrow> node_of K b = node_of K a \<or> placeable Z a (node_of K b) \<Longrightarrow> (\<And>u n. Z u n \<Longrightarrow> n \<noteq> []) \<Longrightarrow>
   placeable Z b n \<Longrightarrow> placeable Z a n"
  using kept_deleting kept_uid by (auto simp: placeable_def)

lemma place_loop_result:
  assumes "good w" "tracks w rs" "set rs \<subseteq> set items" "distinct (map uid_of rs)" "distinct (map uid_of items)"
    and "accounts w items alloc" "\<forall>n\<in>set nodes. alloc (uid_of n) \<noteq> None"
    and "sound_chooser nodes ready fits chooser"
    and "place_loop K R chooser rs alloc w = (errs, alloc', w')"
  shows "moves (placeable (placed_well nodes ready fits items alloc')) w w' \<and> accounts w' items alloc' \<and>
    (\<forall>u. alloc' u = alloc u \<or> checked nodes ready fits alloc' u)"
  using assms
proof (induction rs arbitrary: w alloc errs)
  case Nil
  then show ?case by auto
next
  case (Cons r rs)
  have r: "ok (uid_of r)" "uid_of r \<notin> uid_of ` set rs" "tracks w rs" "distinct (map uid_of rs)"
      "set rs \<subseteq> set items" "r \<in> set items"
    using Cons.prems(2,3,4) by (auto simp: tracks_Cons)
  from Cons.prems(2) obtain v where v: "vw w (uid_of r) = Some v" "node_of K v = node_of K r" "deleting v = deleting r"
    by (auto simp: tracks_Cons)
  define u where "u = chooser alloc w (spec r)"
  note skip = Cons.IH [OF Cons.prems(1) r(3,5,4) Cons.prems(5-8)]
  show ?case
  proof (cases "deleting r \<or> node_of K r \<noteq> [] \<or> u = []")
    case True
    with Cons.prems(9) have "place_loop K R chooser rs alloc w = (errs, alloc', w')"
      by (auto simp: u_def Let_def split: if_splits)
    then show ?thesis by (rule skip)
  next
    case False
    obtain e w0 where a: "assign K R (uid_of r) u w = (e, w0)" by fastforce
    note res = assign_result [OF Cons.prems(1) r(1) a]
    note tr = tracks_frame [OF r(3) assign_frame [OF Cons.prems(1) r(1) a] r(2)]
    show ?thesis
    proof (cases e)
      case (Some x)
      with res have w0: "good w0" "vw w0 = vw w" by auto
      obtain errs1 where "place_loop K R chooser rs alloc w0 = (errs1, alloc', w')"
        using Cons.prems(9) False a Some by (auto simp: u_def Let_def split: prod.splits if_splits)
      from Cons.IH [OF w0(1) tr r(5,4) Cons.prems(5) accounts_same [OF Cons.prems(6) w0(2)] Cons.prems(7,8) this]
      have IH: "moves (placeable (placed_well nodes ready fits items alloc')) w0 w'" "accounts w' items alloc'"
        "\<forall>u. alloc' u = alloc u \<or> checked nodes ready fits alloc' u" by auto
      have "moves (placeable (placed_well nodes ready fits items alloc')) w w0"
        by (rule assign_moves [OF Cons.prems(1) r(1) a]) (use Some in auto)
      then have "moves (placeable (placed_well nodes ready fits items alloc')) w w'"
        by (rule moves_trans [OF _ IH(1)]) (auto intro: placeable_trans simp: placed_well_def checked_def)
      with IH show ?thesis by blast
    next
      case None
      from Cons.prems(8) False obtain n where
        n: "n \<in> set nodes" "uid_of n = u" "ready u" "fits n (spec r) (alloc_of alloc u)"
        unfolding sound_chooser_def u_def by blast
      with Cons.prems(7) obtain a0 where a0: "alloc u = Some a0" by blast
      let ?alloc = "alloc(u \<mapsto> pk_charge K (spec r) a0)"
      from a0 have ao: "alloc_of alloc u = a0" by (simp add: alloc_of_def)
      from res None obtain b where b: "good w0" "vw w0 = (vw w)(uid_of r \<mapsto> b)" "node_of K b = u" by auto
      have "place_loop K R chooser rs ?alloc w0 = (errs, alloc', w')"
        using Cons.prems(9) False a None ao by (auto simp: u_def Let_def split: if_splits)
      moreover have "accounts w0 items ?alloc"
        using accounts_assign [OF Cons.prems(6) r(6) Cons.prems(5) _ v(1) _ b(2,3) _ a0] False v by simp
      moreover have "\<forall>m\<in>set nodes. ?alloc (uid_of m) \<noteq> None"
        using Cons.prems(7) by simp
      ultimately have IH: "moves (placeable (placed_well nodes ready fits items alloc')) w0 w'" "accounts w' items alloc'"
          "\<forall>u. alloc' u = ?alloc u \<or> checked nodes ready fits alloc' u"
        using Cons.IH [OF b(1) tr r(5,4) Cons.prems(5) _ _ Cons.prems(8)] by blast+
      have fit: "suits nodes fits items (uid_of r) u"
        using n r(6) by (auto simp: suits_def)
      have here: "checked nodes ready fits alloc' u"
      proof (cases "alloc' u = ?alloc u")
        case True
        from Cons.prems(6) a0 False obtain xs where "a0 = charged xs" unfolding accounts_def by blast
        with True n ao False show ?thesis
          unfolding checked_def charged_tally
          by (intro conjI bexI [OF _ n(1)] exI [of _ "spec r"] exI [of _ "map spec xs"]) auto
      next
        case False
        with IH(3) show ?thesis by blast
      qed
      have "moves (placeable (placed_well nodes ready fits items alloc')) w w0"
        by (rule assign_moves [OF Cons.prems(1) r(1) a])
          (use v False here fit vw_uid [OF Cons.prems(1) v(1)] in \<open>auto simp: placeable_def placed_well_def\<close>)
      then have "moves (placeable (placed_well nodes ready fits items alloc')) w w'"
        by (rule moves_trans [OF _ IH(1)]) (auto intro: placeable_trans simp: placed_well_def checked_def)
      with IH here show ?thesis by (metis fun_upd_other)
    qed
  qed
qed

text \<open>The pass as a whole.\<close>

definition relocatable :: "(string \<Rightarrow> bool) \<Rightarrow> (string \<Rightarrow> string \<Rightarrow> bool) \<Rightarrow> ('s, 'st) resource \<Rightarrow> string \<Rightarrow> bool" where
  "relocatable ready Z a n = (\<not> deleting a \<and> (node_of K a = [] \<or> \<not> ready (node_of K a)) \<and> (n = [] \<or> Z (uid_of a) n))"

lemma relocatable_step:
  assumes "kept a b" "node_of K b = node_of K a \<or> evictable ready a (node_of K b)" "placeable Z b n"
  shows "relocatable ready Z a n"
  using assms(2,3) kept_deleting [OF assms(1)] kept_uid [OF assms(1)]
  by (cases "node_of K b = node_of K a") (auto simp: relocatable_def evictable_def placeable_def)

lemma relocatable_evict: "evictable ready a n \<Longrightarrow> relocatable ready Z a n"
  by (auto simp: relocatable_def evictable_def)

lemma tracks_uids: "tracks w rs \<Longrightarrow> r \<in> set rs \<Longrightarrow> \<exists>v. vw w (uid_of r) = Some v \<and> node_of K v = node_of K r \<and> deleting v = deleting r"
  by (auto simp: tracks_def)

lemma place_pass_result:
  assumes "good w" "tracks w items" "distinct (map uid_of items)" "sound_chooser nodes ready fits chooser"
    and "place_pass K R ready nodes chooser items w = (errs, alloc, w')"
  shows "moves (relocatable ready (placed_well nodes ready fits items alloc)) w w' \<and>
    (\<exists>items'. map (\<lambda>r. (uid_of r, spec r, deleting r)) items' = map (\<lambda>r. (uid_of r, spec r, deleting r)) items \<and>
      accounts w' items' alloc) \<and>
    (errs = [] \<longrightarrow> (\<forall>r\<in>set items. \<exists>b. vw w' (uid_of r) = Some b \<and>
      (deleting b \<or> node_of K b = [] \<or> ready (node_of K b))))"
proof -
  obtain errs1 items1 w1 where e: "evict_loop K R ready items w = (errs1, items1, w1)" by (metis prod_cases3)
  let ?alloc = "count_loop K items1 (init_alloc nodes Map.empty)"
  obtain errs2 where p: "place_loop K R chooser items1 ?alloc w1 = (errs2, alloc, w')" "errs = errs1 @ errs2"
    using assms(5) e by (auto simp: place_pass_def split: prod.splits)
  note ev = evict_loop_result [OF assms(1-3) e]
  from ev have same: "map (\<lambda>r. (uid_of r, spec r, deleting r)) items1 = map (\<lambda>r. (uid_of r, spec r, deleting r)) items"
    by blast
  have uids: "map uid_of items1 = map uid_of items"
    using arg_cong [OF same, where f = "map fst"] by (simp add: comp_def)
  have d1: "distinct (map uid_of items1)" using assms(3) uids by simp
  have dom: "\<forall>n\<in>set nodes. ?alloc (uid_of n) \<noteq> None"
    by (simp add: count_loop_result init_alloc_simp)
  have "good w1" "tracks w1 items1" using ev moves_good by blast+
  note pl = place_loop_result [OF this order_refl d1 d1 count_accounts [OF \<open>tracks w1 items1\<close> d1] dom assms(4) p(1)]
  let ?Z = "placed_well nodes ready fits items1 alloc"
  have Z: "?Z = placed_well nodes ready fits items alloc"
    using suits_cong [OF same] by (simp add: placed_well_def fun_eq_iff)
  have "moves (relocatable ready ?Z) w w'"
    by (rule moves_trans [OF conjunct1 [OF ev] conjunct1 [OF pl]])
      (simp_all add: relocatable_step relocatable_evict)
  moreover have "\<exists>b. vw w' (uid_of r) = Some b \<and> (deleting b \<or> node_of K b = [] \<or> ready (node_of K b))"
    if "errs = []" "r \<in> set items" for r
  proof -
    have "uid_of r \<in> set (map uid_of items1)" unfolding uids using that(2) by simp
    then obtain r1 where r1: "r1 \<in> set items1" "uid_of r1 = uid_of r" by auto
    from tracks_uids [OF \<open>tracks w1 items1\<close> r1(1)] obtain v where
      v: "vw w1 (uid_of r) = Some v" "node_of K v = node_of K r1" "deleting v = deleting r1" using r1(2) by auto
    from movesD [OF conjunct1 [OF pl] v(1)] obtain b where b: "vw w' (uid_of r) = Some b" "kept v b"
        "node_of K b = node_of K v \<or> placeable ?Z v (node_of K b)" by blast
    from ev that(1) p(2) r1(1) have "deleting r1 \<or> node_of K r1 = [] \<or> ready (node_of K r1)" by auto
    with v b(3) kept_deleting [OF b(2)] have "deleting b \<or> node_of K b = [] \<or> ready (node_of K b)"
      by (auto simp: placeable_def placed_well_def checked_def)
    with b(1) show ?thesis by blast
  qed
  ultimately show ?thesis using same pl unfolding Z by blast
qed

lemma list_tracks:
  assumes "good w" "reg_list R w = Inr items"
  shows "tracks w items \<and> distinct (map uid_of items) \<and>
    (\<forall>uid v. ok uid \<longrightarrow> vw w uid = Some v \<longrightarrow> v \<in> set items)"
proof -
  from list_view [OF assms(1)] assms(2) have l: "set items = {res. \<exists>uid. ok uid \<and> vw w uid = Some res}"
      "distinct (map uid_of items)" by auto
  have "tracks w items" using l(1) vw_uid [OF assms(1)] by (fastforce simp: tracks_def)
  with l show ?thesis by blast
qed

end

context placement
begin

lemma listing_tracks:
  assumes "good w" "reg_list R w = Inr listing" "\<forall>r. metadata (f r) = metadata r \<and> status (f r) = status r"
  shows "tracks w (map f listing)" "distinct (map uid_of (map f listing))"
  using list_tracks [OF assms(1,2)] assms(3) by (auto simp: tracks_def comp_def)


lemma pass_effect:
  assumes "good w" "reg_list R w = Inr listing" "\<forall>r. metadata (f r) = metadata r \<and> status (f r) = status r"
    and "\<forall>alloc w s. let u = chooser alloc w s in u = [] \<or>
      (\<exists>n\<in>set nodes. uid_of n = u \<and> ready u \<and> fits n s (alloc_of alloc u))"
    and "place_pass K R ready nodes chooser (map f listing) w = (errs, alloc, w')"
  shows "good w'" "k \<noteq> reg_kind R \<Longrightarrow> abs w' (k, u) = abs w (k, u)"
    "vw w uid = None \<Longrightarrow> vw w' uid = None"
    "vw w uid = Some a \<Longrightarrow> \<exists>b. vw w' uid = Some b \<and> spec b = spec a \<and>
      metadata (set_rv [] b) = metadata (set_rv [] a) \<and> status b = pk_set K (node_of K b) (status a) \<and>
      (node_of K b = node_of K a \<or> \<not> deleting a \<and> (node_of K a = [] \<or> \<not> ready (node_of K a)) \<and>
        (node_of K b = [] \<or> ready (node_of K b) \<and>
          (\<exists>r\<in>set listing. \<exists>n\<in>set nodes. \<exists>al. uid_of r = uid \<and> uid_of n = node_of K b \<and> fits n (spec (f r)) al)))"
    "errs = [] \<Longrightarrow> r \<in> set listing \<Longrightarrow> \<exists>b. vw w' (uid_of r) = Some b \<and>
      (deleting b \<or> node_of K b = [] \<or> ready (node_of K b))"
proof -
  have "sound_chooser nodes ready fits chooser" using assms(4) unfolding sound_chooser_def Let_def by blast
  note p = place_pass_result [OF assms(1) listing_tracks [OF assms(1-3)] this assms(5)]
  then have m: "moves (relocatable ready (placed_well nodes ready fits (map f listing) alloc)) w w'" by blast
  then show "good w'" "k \<noteq> reg_kind R \<Longrightarrow> abs w' (k, u) = abs w (k, u)" by (auto simp: moves_def)
  show "vw w uid = None \<Longrightarrow> vw w' uid = None" using movesE [OF m, of uid] by simp
  show "errs = [] \<Longrightarrow> r \<in> set listing \<Longrightarrow> \<exists>b. vw w' (uid_of r) = Some b \<and>
      (deleting b \<or> node_of K b = [] \<or> ready (node_of K b))" using p assms(3) by auto
  assume a: "vw w uid = Some a"
  from movesD [OF m a] vw_uid [OF assms(1) a]
  show "\<exists>b. vw w' uid = Some b \<and> spec b = spec a \<and>
      metadata (set_rv [] b) = metadata (set_rv [] a) \<and> status b = pk_set K (node_of K b) (status a) \<and>
      (node_of K b = node_of K a \<or> \<not> deleting a \<and> (node_of K a = [] \<or> \<not> ready (node_of K a)) \<and>
        (node_of K b = [] \<or> ready (node_of K b) \<and>
          (\<exists>r\<in>set listing. \<exists>n\<in>set nodes. \<exists>al. uid_of r = uid \<and> uid_of n = node_of K b \<and> fits n (spec (f r)) al)))"
    unfolding kept_def relocatable_def placed_well_def checked_def suits_def using assms(3) by auto
qed

text \<open>
  A node that gained a workload has room for everything on it: the last check of the
  pass against that node was made with all of it charged.
\<close>

lemma room_of_items:
  assumes "good w" "tracks w items" "distinct (map uid_of items)" "sound_chooser nodes ready fits chooser"
    and "place_pass K R ready nodes chooser items w = (errs, alloc, w')"
    and "\<forall>r\<in>set items. spec r = sp (uid_of r)"
    and "vw w uid = Some a" "vw w' uid = Some b" "node_of K b \<noteq> node_of K a" "node_of K b \<noteq> []"
  shows "\<exists>n\<in>set nodes. \<exists>s ss us. uid_of n = node_of K b \<and> fits n s (tally ss) \<and> distinct us \<and>
    set us = {v. v \<in> uid_of ` set items \<and> (\<exists>c. vw w' v = Some c \<and> \<not> deleting c \<and> node_of K c = node_of K b)} \<and>
    tally (ss @ [s]) = tally (map sp us)"
proof -
  note p = place_pass_result [OF assms(1-5)]
  then obtain items' where i: "map (\<lambda>r. (uid_of r, spec r, deleting r)) items' = map (\<lambda>r. (uid_of r, spec r, deleting r)) items"
      "accounts w' items' alloc" and m: "moves (relocatable ready (placed_well nodes ready fits items alloc)) w w'"
    by blast
  have "placed_well nodes ready fits items alloc uid (node_of K b)"
    using movesD [OF m assms(7)] assms(8-10) vw_uid [OF assms(1,7)] by (auto simp: relocatable_def)
  then obtain n s ss where n: "n \<in> set nodes" "uid_of n = node_of K b" "fits n s (tally ss)"
      "alloc (node_of K b) = Some (tally (ss @ [s]))"
    by (auto simp: placed_well_def checked_def tally_def)
  with i(2) assms(10) obtain xs where xs: "distinct xs" "set xs = on_node w' (node_of K b) items'"
      "tally (ss @ [s]) = charged xs"
    unfolding accounts_def by blast
  have item: "\<exists>r0\<in>set items. uid_of r0 = uid_of r \<and> spec r0 = spec r \<and> deleting r0 = deleting r" if "r \<in> set items'" for r
  proof -
    from that have "(uid_of r, spec r, deleting r) \<in> set (map (\<lambda>r. (uid_of r, spec r, deleting r)) items')" by auto
    then show ?thesis unfolding i(1) by auto
  qed
  have uids: "map uid_of items' = map uid_of items"
    using arg_cong [OF i(1), where f = "map fst"] by (simp add: comp_def)
  have del: "deleting c = deleting r" if "r \<in> set items'" "vw w' (uid_of r) = Some c" for r c
  proof -
    from item [OF that(1)] obtain r0 where r0: "r0 \<in> set items" "uid_of r0 = uid_of r" "deleting r0 = deleting r" by blast
    from tracks_uids [OF assms(2) r0(1)] obtain v where v: "vw w (uid_of r) = Some v" "deleting v = deleting r0"
      using r0(2) by auto
    from movesD [OF m v(1)] that(2) have "kept v c" by auto
    from kept_deleting [OF this] v(2) r0(3) show ?thesis by simp
  qed
  have "set xs \<subseteq> set items'" using xs(2) by (auto simp: on_node_def)
  then have "distinct (map uid_of xs)"
    using xs(1) assms(3) uids by (metis distinct_map inj_on_subset)
  moreover have "set (map uid_of xs) = {v. v \<in> uid_of ` set items \<and> (\<exists>c. vw w' v = Some c \<and> \<not> deleting c \<and> node_of K c = node_of K b)}"
  proof -
    have "uid_of ` set items = uid_of ` set items'" using arg_cong [OF uids, where f = set] by simp
    then show ?thesis using del by (fastforce simp: xs(2) on_node_def)
  qed
  moreover have "charged xs = tally (map sp (map uid_of xs))"
  proof -
    have "spec r = sp (uid_of r)" if "r \<in> set xs" for r
      using item [of r] that assms(6) \<open>set xs \<subseteq> set items'\<close> by force
    then have "map spec xs = map sp (map uid_of xs)" by simp
    then show ?thesis unfolding charged_tally by (rule arg_cong)
  qed
  ultimately show ?thesis using n xs(3) by metis
qed

lemma pass_room:
  assumes "good w" "reg_list R w = Inr listing" "\<forall>r. metadata (f r) = metadata r \<and> status (f r) = status r"
    and "\<forall>alloc w s. let u = chooser alloc w s in u = [] \<or>
      (\<exists>n\<in>set nodes. uid_of n = u \<and> ready u \<and> fits n s (alloc_of alloc u))"
    and "place_pass K R ready nodes chooser (map f listing) w = (errs, alloc, w')"
    and "\<forall>r\<in>set listing. spec (f r) = sp (uid_of r)"
    and "vw w uid = Some a" "vw w' uid = Some b" "node_of K b \<noteq> node_of K a" "node_of K b \<noteq> []"
  shows "\<exists>n\<in>set nodes. \<exists>s ss us. uid_of n = node_of K b \<and> fits n s (tally ss) \<and> distinct us \<and>
    set us = {v. v \<in> uid_of ` set listing \<and> (\<exists>c. vw w' v = Some c \<and> \<not> deleting c \<and> node_of K c = node_of K b)} \<and>
    tally (ss @ [s]) = tally (map sp us)"
proof -
  have "sound_chooser nodes ready fits chooser" using assms(4) unfolding sound_chooser_def Let_def by blast
  moreover have "\<forall>r\<in>set (map f listing). spec r = sp (uid_of r)" using assms(3,6) by simp
  moreover have "uid_of ` set (map f listing) = uid_of ` set listing" using assms(3) by (simp add: image_image)
  ultimately show ?thesis
    using room_of_items [OF assms(1) listing_tracks [OF assms(1-3)] _ assms(5) _ assms(7-10)] by simp
qed

end

end
