(* ===== verification/SchedulerLaws.thy ===== *)
theory SchedulerLaws
  imports PlacementLaws
begin

text \<open>
  The schedulers over the file store. The contract of \<open>PlacementLaws\<close> is interpreted
  for the four kinds of placed resources, and the theorems say what a whole pass of a
  scheduler does to what is stored: which resources move, where they may go, and that
  a node never receives more than it has room for.
\<close>

subsection \<open>The four kinds over the file store\<close>

lemma kind_simps [simp]:
  "pk_node compute_kind = cs_nodeName" "pk_set compute_kind = (\<lambda>n s. s\<lparr>cs_nodeName := n\<rparr>)"
  "pk_node microvm_kind = mvs_nodeName" "pk_set microvm_kind = (\<lambda>n s. s\<lparr>mvs_nodeName := n\<rparr>)"
  "pk_node disk_kind = ds_nodeName" "pk_set disk_kind = (\<lambda>n s. s\<lparr>ds_nodeName := n\<rparr>)"
  "pk_node replica_kind = drs_nodeName" "pk_set replica_kind = (\<lambda>n s. s\<lparr>drs_nodeName := n\<rparr>)"
  "pk_charge compute_kind = charge_compute" "pk_charge microvm_kind = charge_microvm"
  "pk_charge disk_kind = charge_pod" "pk_charge replica_kind = charge_pod"
  by (simp_all add: compute_kind_def microvm_kind_def disk_kind_def replica_kind_def)

lemma placed_over_file:
  assumes "lawful_codec c" "plain k"
  shows "placement (FileStore no_faults) file_abs wf_fs plain (file_registry k c) K \<longleftrightarrow>
    placement_axioms K"
  using file_registry_laws [OF assms] by (simp add: placement_def)

lemma kind_laws:
  "placement_axioms compute_kind" "placement_axioms microvm_kind"
  "placement_axioms disk_kind" "placement_axioms replica_kind"
  by (simp_all add: placement_axioms_def)

lemmas file_placement = placed_over_file [THEN iffD2, OF _ _ kind_laws(1)]
  placed_over_file [THEN iffD2, OF _ _ kind_laws(2)]
  placed_over_file [THEN iffD2, OF _ _ kind_laws(3)]
  placed_over_file [THEN iffD2, OF _ _ kind_laws(4)]

interpretation fcompute: placement "FileStore no_faults" file_abs wf_fs plain
  "file_registry (Rep_store_kind k) (Rep_json_codec c)" compute_kind for k c
  using Rep_store_kind [of k] Rep_json_codec [of c] file_placement(1) by auto

interpretation fmicrovm: placement "FileStore no_faults" file_abs wf_fs plain
  "file_registry (Rep_store_kind k) (Rep_json_codec c)" microvm_kind for k c
  using Rep_store_kind [of k] Rep_json_codec [of c] file_placement(2) by auto

interpretation fdisk: placement "FileStore no_faults" file_abs wf_fs plain
  "file_registry (Rep_store_kind k) (Rep_json_codec c)" disk_kind for k c
  using Rep_store_kind [of k] Rep_json_codec [of c] file_placement(3) by auto

interpretation freplica: placement "FileStore no_faults" file_abs wf_fs plain
  "file_registry (Rep_store_kind k) (Rep_json_codec c)" replica_kind for k c
  using Rep_store_kind [of k] Rep_json_codec [of c] file_placement(4) by auto

text \<open>Writing the status of nodes and pools leaves every other kind alone.\<close>

lemma node_update_uid: "\<forall>n n'. node_update stamped alloc ready n = Some n' \<longrightarrow> uid_of n' = uid_of n"
  by (auto simp: node_update_def Let_def split: prod.splits if_splits)

lemma pool_update_uid: "\<forall>p p'. pool_update stamped nodes ready p = Some p' \<longrightarrow> uid_of p' = uid_of p"
  by (auto simp: pool_update_def Let_def split: if_splits)

lemma file_put_frame:
  assumes "lawful_codec c" "plain k" "file_good k c w" "plain (uid_of res)" "reg_put (file_registry k c) w res = (r, w')"
  shows "file_good k c w' \<and> (\<forall>k' u. k' \<noteq> k \<longrightarrow> file_abs w' (k', u) = file_abs w (k', u))"
  using typed_registry.reg_put_cases [OF file_registry_laws [OF assms(1,2)], of w res r w']
    typed_registry.reg_put_other_kind [OF file_registry_laws [OF assms(1,2)], of w res r w'] assms
  by (auto simp: file_good_def)

lemma save_each_frame:
  assumes "lawful_codec c" "plain k" "file_good k c w" "\<forall>r\<in>set rs. plain (uid_of r)"
    and "\<forall>r r'. update r = Some r' \<longrightarrow> uid_of r' = uid_of r"
    and "save_each label update (file_registry k c) rs w = (errs, w')"
  shows "file_good k c w' \<and> (\<forall>k' u. k' \<noteq> k \<longrightarrow> file_abs w' (k', u) = file_abs w (k', u))"
  using assms(3,4,6)
proof (induction rs arbitrary: w errs)
  case Nil
  then show ?case by simp
next
  case (Cons r rs)
  show ?case
  proof (cases "update r")
    case None
    with Cons show ?thesis by simp
  next
    case (Some r')
    obtain x w1 where put: "reg_put (file_registry k c) w r' = (x, w1)" by fastforce
    have "plain (uid_of r')" using assms(5) Some Cons.prems(2) by simp
    note fr = file_put_frame [OF assms(1,2) Cons.prems(1) this put]
    from Cons.prems(3) Some put obtain errs1 where
      "save_each label update (file_registry k c) rs w1 = (errs1, w')"
      by (auto split: sum.splits prod.splits)
    with Cons.IH [of w1 errs1] Cons.prems(2) fr show ?thesis by auto
  qed
qed

subsection \<open>The compute scheduler\<close>

definition file_scheduler ::
    "int \<Rightarrow> (compute_spec, compute_status) codec \<Rightarrow> (node_spec, node_status) codec \<Rightarrow>
      (node_pool_spec, node_pool_status) codec \<Rightarrow> fsys scheduler_controller" where
  "file_scheduler win cc cn cp = \<lparr>sc_computes = file_registry ''compute'' cc, sc_nodes = file_registry ''node'' cn,
     sc_pools = file_registry ''node_pool'' cp, sc_readyWindow = win\<rparr>"

text \<open>A node is live when it is stored and its last heartbeat is within the window.\<close>

definition live_node :: "int \<Rightarrow> time \<Rightarrow> (node_spec, node_status) codec \<Rightarrow> fsys \<Rightarrow> string \<Rightarrow> bool" where
  "live_node win now cn w u = (plain u \<and> (\<exists>n. file_view ''node'' cn w u = Some n \<and> nodeReady win n now))"

lemma plain_kinds [simp]: "plain ''compute''" "plain ''node''" "plain ''node_pool''" "plain ''disk''"
  "plain ''async_disk_replica''" "plain ''microvm''"
  by code_simp+

lemma reg_WithContext_None [simp]: "reg_WithContext None r = r"
  by (simp add: reg_WithContext_def WithContext_def)

lemma listing_ready:
  assumes "lawful_codec cn" "file_good ''node'' cn w"
    and "set nodes = stored cn ''node'' w" "distinct (map uid_of nodes)"
  shows "init_ready (\<lambda>n. nodeReady win n now) nodes (\<lambda>_. False) = live_node win now cn w"
  using file_uid [OF assms(1) _ assms(2)] assms(3)
  by (auto simp: fun_eq_iff init_ready_iff [OF assms(4)] live_node_def stored_def)

definition fits_compute :: "node_pool list \<Rightarrow> node \<Rightarrow> compute_spec \<Rightarrow> node_alloc \<Rightarrow> bool" where
  "fits_compute pools n s a = ((\<exists>sel. poolSelector pools (co_nodePoolId s) = Some sel \<and>
       matchLabels (nd_labels (spec n)) sel) \<and>
     has_room a (nd_capacity (spec n)) (co_cpu s) (co_memoryMb s))"

lemma choose_compute_sound:
  "\<forall>alloc w s. let u = choose_compute nodes pools ready alloc w s in u = [] \<or>
    (\<exists>n\<in>set nodes. uid_of n = u \<and> ready u \<and> fits_compute pools n s (alloc_of alloc u))"
proof (intro allI)
  fix alloc w s
  show "let u = choose_compute nodes pools ready alloc w s in u = [] \<or>
    (\<exists>n\<in>set nodes. uid_of n = u \<and> ready u \<and> fits_compute pools n s (alloc_of alloc u))"
    using pickNode_sound [OF refl, of nodes alloc ready _ "co_cpu s" "co_memoryMb s"]
    by (cases "poolSelector pools (co_nodePoolId s)") (auto simp: choose_compute_def fits_compute_def Let_def)
qed

lemma with_compute_defaults_simps [simp]:
  "metadata (with_compute_defaults r) = metadata r" "status (with_compute_defaults r) = status r"
  "spec (with_compute_defaults r) = ComputeSpec_WithDefaults (spec r)"
  by (simp_all add: with_compute_defaults_def)

text \<open>
  A reconcile of the compute scheduler is a pass over the stored computes with the
  live nodes ready, followed by writes to nodes and pools only.
\<close>

lemma scheduler_is_pass:
  assumes "lawful_codec cc" "lawful_codec cn" "lawful_codec cp"
    and "file_good ''compute'' cc w" "file_good ''node'' cn w" "file_good ''node_pool'' cp w"
    and "Scheduler_Reconcile None now stamped (file_scheduler win cc cn cp) w = (errs, w')"
  shows "\<exists>nodes items pools errs0 alloc w1. set nodes = stored cn ''node'' w \<and>
    set items = stored cc ''compute'' w \<and> set pools = stored cp ''node_pool'' w \<and>
    reg_list (file_registry ''compute'' cc) w = Inr items \<and>
    place_pass compute_kind (file_registry ''compute'' cc) (live_node win now cn w) nodes
       (choose_compute nodes pools (live_node win now cn w)) (map with_compute_defaults items) w = (errs0, alloc, w1) \<and>
    file_view ''compute'' cc w' = file_view ''compute'' cc w1 \<and> (errs = [] \<longrightarrow> errs0 = [])"
proof -
  from file_listing [OF assms(2) _ assms(5)] obtain nodes where
    n: "reg_list (file_registry ''node'' cn) w = Inr nodes" "set nodes = stored cn ''node'' w" "distinct (map uid_of nodes)"
    by auto
  from file_listing [OF assms(1) _ assms(4)] obtain items where
    i: "reg_list (file_registry ''compute'' cc) w = Inr items" "set items = stored cc ''compute'' w"
    by auto
  from file_listing [OF assms(3) _ assms(6)] obtain pools where
    q: "reg_list (file_registry ''node_pool'' cp) w = Inr pools" "set pools = stored cp ''node_pool'' w"
    by auto
  let ?ready = "live_node win now cn w"
  have ready: "init_ready (\<lambda>n. nodeReady win n now) nodes (\<lambda>_. False) = ?ready"
    by (rule listing_ready [OF assms(2,5) _ n(3)]) (simp add: n(2))
  obtain errs0 alloc w1 where p: "place_pass compute_kind (file_registry ''compute'' cc) ?ready nodes
      (choose_compute nodes pools ?ready) (map with_compute_defaults items) w = (errs0, alloc, w1)"
    by (metis prod_cases3)
  obtain errs1 w2 where wn: "writeNodeStatus stamped (file_registry ''node'' cn) nodes alloc ?ready w1 = (errs1, w2)"
    by fastforce
  obtain errs2 w3 where wp: "writePoolStatus stamped (file_registry ''node_pool'' cp) pools nodes ?ready w2 = (errs2, w3)"
    by fastforce
  have eq: "errs = errs0 @ errs1 @ errs2" "w' = w3"
    using assms(7) n(1) i(1) q(1) ready p wn wp
    by (auto simp: Scheduler_Reconcile_def file_scheduler_def Scheduler_WithContext_def Let_def)
  note C = file_placement(1) [OF assms(1) plain_kinds(1)]
  note eff = placement.pass_effect(1,2) [OF C, of w items with_compute_defaults
      "choose_compute nodes pools ?ready" nodes ?ready "fits_compute pools",
      OF _ i(1) _ choose_compute_sound p, unfolded new_registry_simps]
  have fin: "wf_fs w1" "typed_kind cc ''compute'' (file_abs w1)"
      "\<And>k u. k \<noteq> ''compute'' \<Longrightarrow> file_abs w1 (k, u) = file_abs w (k, u)"
    using eff assms(4) by (auto simp: file_good_def)
  have "file_good ''node'' cn w1"
    using fin(1,3) assms(5) typed_kind_cong [of "file_abs w1" "''node''" "file_abs w" cn] by (simp add: file_good_def)
  moreover have "\<forall>n\<in>set nodes. plain (uid_of n)" "\<forall>p\<in>set pools. plain (uid_of p)"
    using n(2) q(2) file_uid [OF assms(2) _ assms(5)] file_uid [OF assms(3) _ assms(6)] by (auto simp: stored_def)
  ultimately have f2: "file_good ''node'' cn w2" "\<And>k u. k \<noteq> ''node'' \<Longrightarrow> file_abs w2 (k, u) = file_abs w1 (k, u)"
    using save_each_frame [OF assms(2) plain_kinds(2) _ _ node_update_uid wn [unfolded writeNodeStatus_def]] by blast+
  have "file_good ''node_pool'' cp w2"
    using f2 fin(3) assms(6) typed_kind_cong [of "file_abs w2" "''node_pool''" "file_abs w" cp] by (simp add: file_good_def)
  then have f3: "\<And>k u. k \<noteq> ''node_pool'' \<Longrightarrow> file_abs w3 (k, u) = file_abs w2 (k, u)"
    using save_each_frame [OF assms(3) plain_kinds(3) _ _ pool_update_uid wp [unfolded writePoolStatus_def]]
      \<open>\<forall>p\<in>set pools. plain (uid_of p)\<close> by blast
  have "file_view ''compute'' cc w3 = file_view ''compute'' cc w1"
    by (rule view_cong) (simp add: f2(2) f3)
  with n(2) i q(2) p eq show ?thesis by blast
qed

lemma poolSelector_found:
  "poolSelector pools u = Some sel \<Longrightarrow> u = [] \<or> (\<exists>p\<in>set pools. uid_of p = u \<and> sel = np_nodeSelector (spec p))"
  by (induction pools u rule: poolSelector.induct) (auto split: if_splits)

lemma tally_compute:
  "al_cpus (foldl (\<lambda>a s. charge_compute s a) zero_alloc ss) = foldl f_add (Fin 0 0) (map co_cpu ss)"
  "al_mem (foldl (\<lambda>a s. charge_compute s a) zero_alloc ss) = i64 (sum_list (map co_memoryMb ss))"
  "al_pods (foldl (\<lambda>a s. charge_compute s a) zero_alloc ss) = i64 (int (length ss))"
proof (induction ss rule: rev_induct)
  case Nil
  { case 1 show ?case by (simp add: zero_alloc_def) }
  { case 2 show ?case by (simp add: zero_alloc_def) }
  { case 3 show ?case by (simp add: zero_alloc_def) }
next
  case (snoc s ss)
  { case 1 show ?case using snoc by (simp add: charge_compute_def) }
  { case 2 show ?case using snoc by (simp add: charge_compute_def i64_add) }
  { case 3 show ?case using snoc by (simp add: charge_compute_def i64_add add.commute) }
qed

text \<open>\<open>pool_allows cn cp w s u\<close>: the pool a spec names exists and its selector matches node \<open>u\<close>.\<close>

definition pool_allows ::
    "(node_spec, node_status) codec \<Rightarrow> (node_pool_spec, node_pool_status) codec \<Rightarrow> fsys \<Rightarrow> string \<Rightarrow> string \<Rightarrow> bool" where
  "pool_allows cn cp w poolID u = (poolID = [] \<or> (\<exists>n p. file_view ''node'' cn w u = Some n \<and>
     file_view ''node_pool'' cp w poolID = Some p \<and> matchLabels (nd_labels (spec n)) (np_nodeSelector (spec p))))"

lemma fits_compute_pool:
  assumes "lawful_codec cn" "lawful_codec cp" "file_good ''node'' cn w" "file_good ''node_pool'' cp w"
    and "fits_compute pools n s a" "n \<in> stored cn ''node'' w" "set pools = stored cp ''node_pool'' w"
  shows "pool_allows cn cp w (co_nodePoolId s) (uid_of n)"
  using assms(5) poolSelector_found stored_view(2) [OF assms(1) plain_kinds(2) assms(3,6)]
    stored_view(2) [OF assms(2) plain_kinds(3) assms(4)] assms(7)
  unfolding fits_compute_def pool_allows_def by metis

text \<open>
  C20. A pass of the compute scheduler keeps every stored compute and changes at most
  its node. The node changes only for a compute that is not being deleted and is
  unplaced or on a node whose heartbeat is not within the window, and then becomes
  empty or a live node that the labels of the compute's pool select. When the pass
  reports no error, no compute outside deletion is left on a node that is not live.
\<close>
theorem scheduler_places_live:
  assumes "lawful_codec cc" "lawful_codec cn" "lawful_codec cp"
    and "file_good ''compute'' cc w" "file_good ''node'' cn w" "file_good ''node_pool'' cp w"
    and "Scheduler_Reconcile None now stamped (file_scheduler win cc cn cp) w = (errs, w')"
    and "plain uid" "file_view ''compute'' cc w uid = Some a"
  shows "\<exists>b. file_view ''compute'' cc w' uid = Some b \<and> spec b = spec a \<and>
    metadata (set_rv [] b) = metadata (set_rv [] a) \<and> status b = (status a)\<lparr>cs_nodeName := cs_nodeName (status b)\<rparr> \<and>
    (cs_nodeName (status b) = cs_nodeName (status a) \<or>
      \<not> deleting a \<and> (cs_nodeName (status a) = [] \<or> \<not> live_node win now cn w (cs_nodeName (status a))) \<and>
      (cs_nodeName (status b) = [] \<or> live_node win now cn w (cs_nodeName (status b)) \<and>
        pool_allows cn cp w (co_nodePoolId (spec a)) (cs_nodeName (status b)))) \<and>
    (errs = [] \<longrightarrow> deleting b \<or> cs_nodeName (status b) = [] \<or> live_node win now cn w (cs_nodeName (status b)))"
proof -
  from scheduler_is_pass [OF assms(1-7)] obtain nodes items pools errs0 alloc w1 where
    n: "set nodes = stored cn ''node'' w" and i: "set items = stored cc ''compute'' w"
      and q: "set pools = stored cp ''node_pool'' w" and l: "reg_list (file_registry ''compute'' cc) w = Inr items"
      and p: "place_pass compute_kind (file_registry ''compute'' cc) (live_node win now cn w) nodes
        (choose_compute nodes pools (live_node win now cn w)) (map with_compute_defaults items) w = (errs0, alloc, w1)"
      and e: "file_view ''compute'' cc w' = file_view ''compute'' cc w1" "errs = [] \<longrightarrow> errs0 = []"
    by blast
  note eff = placement.pass_effect [OF file_placement(1) [OF assms(1) plain_kinds(1)], of w items with_compute_defaults
      "choose_compute nodes pools (live_node win now cn w)" nodes "live_node win now cn w" "fits_compute pools",
      OF _ l _ choose_compute_sound p, unfolded new_registry_simps kind_simps]
  have g: "wf_fs w \<and> typed_kind cc ''compute'' (file_abs w)" using assms(4) by (simp add: file_good_def)
  have a: "a \<in> set items" "uid_of a = uid"
    using assms(8,9) file_uid [OF assms(1) plain_kinds(1) assms(4,9)] by (auto simp: i stored_def)
  have pool: "pool_allows cn cp w (co_nodePoolId (spec a)) u"
    if "r \<in> set items" "m \<in> set nodes" "uid_of r = uid" "uid_of m = u"
      "fits_compute pools m (spec (with_compute_defaults r)) al" for r m u al
  proof -
    have "r = a" using stored_view(2) [OF assms(1) plain_kinds(1) assms(4)] that(1,3) assms(9) by (auto simp: i)
    then show ?thesis
      using fits_compute_pool [OF assms(2,3,5,6) that(5) _ q] that(2,4) n
      by (simp add: ComputeSpec_WithDefaults_def)
  qed
  from eff(4) [OF g _ assms(9)] obtain b where
    b: "file_view ''compute'' cc w1 uid = Some b" "spec b = spec a" "metadata (set_rv [] b) = metadata (set_rv [] a)"
      "status b = (status a)\<lparr>cs_nodeName := cs_nodeName (status b)\<rparr>"
      "cs_nodeName (status b) = cs_nodeName (status a) \<or>
        \<not> deleting a \<and> (cs_nodeName (status a) = [] \<or> \<not> live_node win now cn w (cs_nodeName (status a))) \<and>
        (cs_nodeName (status b) = [] \<or> live_node win now cn w (cs_nodeName (status b)) \<and>
          (\<exists>r\<in>set items. \<exists>n\<in>set nodes. \<exists>al. uid_of r = uid \<and> uid_of n = cs_nodeName (status b) \<and>
            fits_compute pools n (spec (with_compute_defaults r)) al))"
    by auto
  moreover have "deleting b \<or> cs_nodeName (status b) = [] \<or> live_node win now cn w (cs_nodeName (status b))"
    if "errs = []" using eff(5) [OF g _ _ a(1)] e(2) that b(1) a(2) by auto
  ultimately show ?thesis using pool unfolding e(1) by blast
qed

lemma compute_room:
  assumes "fits_compute pools n s (foldl (\<lambda>a s. charge_compute s a) zero_alloc ss)"
    and "foldl (\<lambda>a s. charge_compute s a) zero_alloc (ss @ [s]) = foldl (\<lambda>a s. charge_compute s a) zero_alloc ts"
    and "\<forall>t\<in>set ts. co_memoryMb t \<in> {1..262144}" "length ts \<le> 2 ^ 40"
  shows "sum_list (map co_memoryMb ts) \<le> cap_memoryMb (nd_capacity (spec n))"
    and "cap_maxPods (nd_capacity (spec n)) > 0 \<Longrightarrow> int (length ts) \<le> cap_maxPods (nd_capacity (spec n))"
    and "\<not> f_less (f_of_int (cap_cpus (nd_capacity (spec n)))) (foldl f_add (Fin 0 0) (map co_cpu ts))"
proof -
  let ?f = "foldl (\<lambda>a s. charge_compute s a) zero_alloc"
  have room: "has_room (?f ss) (nd_capacity (spec n)) (co_cpu s) (co_memoryMb s)"
    using assms(1) by (simp add: fits_compute_def)
  have add: "f_add (al_cpus (?f ss)) (co_cpu s) = al_cpus (?f ts)" "i64 (al_mem (?f ss) + co_memoryMb s) = al_mem (?f ts)"
      "i64 (al_pods (?f ss) + 1) = al_pods (?f ts)"
    using assms(2) [symmetric] by (simp_all add: charge_compute_def add.commute)
  have "sum_list (map co_memoryMb ts) \<le> 262144 * int (length ts) \<and> 0 \<le> sum_list (map co_memoryMb ts)"
    using assms(3) by (induction ts) auto
  then have "i64 (sum_list (map co_memoryMb ts)) = sum_list (map co_memoryMb ts)"
    using assms(4) by (intro i64_id) auto
  then show "sum_list (map co_memoryMb ts) \<le> cap_memoryMb (nd_capacity (spec n))"
    using room add(2) by (simp add: has_room_def tally_compute)
  have "al_pods (?f ss) = i64 (i64 (al_pods (?f ss) + 1) + - 1)"
    unfolding i64_add by (simp add: tally_compute)
  also have "\<dots> = int (length ts) - 1"
    unfolding add(3) unfolding tally_compute i64_add using assms(4) by simp
  finally show "int (length ts) \<le> cap_maxPods (nd_capacity (spec n))" if "cap_maxPods (nd_capacity (spec n)) > 0"
    using room that by (simp add: has_room_def)
  show "\<not> f_less (f_of_int (cap_cpus (nd_capacity (spec n)))) (foldl f_add (Fin 0 0) (map co_cpu ts))"
    using room add(1) by (simp add: has_room_def tally_compute)
qed

text \<open>What a compute asks for, with the defaults filled in.\<close>

abbreviation asks :: "(compute_spec, compute_status) resource \<Rightarrow> compute_spec" where
  "asks c \<equiv> ComputeSpec_WithDefaults (spec c)"

text \<open>The computes a node holds after a pass that placed one on it, by their uids, and the room that was checked.\<close>

lemma scheduler_charges:
  assumes "lawful_codec cc" "lawful_codec cn" "lawful_codec cp"
    and "file_good ''compute'' cc w" "file_good ''node'' cn w" "file_good ''node_pool'' cp w"
    and "Scheduler_Reconcile None now stamped (file_scheduler win cc cn cp) w = (errs, w')"
    and "file_view ''compute'' cc w uid = Some a" "file_view ''compute'' cc w' uid = Some b"
    and "cs_nodeName (status b) \<noteq> []" "cs_nodeName (status b) \<noteq> cs_nodeName (status a)"
  shows "\<exists>n pools s ss us. file_view ''node'' cn w (cs_nodeName (status b)) = Some n \<and> distinct us \<and>
    fits_compute pools n s (foldl (\<lambda>a s. charge_compute s a) zero_alloc ss) \<and>
    foldl (\<lambda>a s. charge_compute s a) zero_alloc (ss @ [s]) =
      foldl (\<lambda>a s. charge_compute s a) zero_alloc (map (\<lambda>v. asks (the (file_view ''compute'' cc w' v))) us) \<and>
    (\<forall>v. v \<in> set us \<longleftrightarrow> (\<exists>c. c \<in> stored cc ''compute'' w' \<and> \<not> deleting c \<and>
      cs_nodeName (status c) = cs_nodeName (status b) \<and> file_view ''compute'' cc w' v = Some c)) \<and>
    (\<forall>v\<in>set us. uid_of (the (file_view ''compute'' cc w' v)) = v \<and>
      (\<exists>c\<in>stored cc ''compute'' w. uid_of c = v \<and> asks (the (file_view ''compute'' cc w' v)) = asks c))"
proof -
  from scheduler_is_pass [OF assms(1-7)] obtain nodes items pools errs0 alloc w1 where
    n: "set nodes = stored cn ''node'' w" and i: "set items = stored cc ''compute'' w"
      and l: "reg_list (file_registry ''compute'' cc) w = Inr items"
      and p: "place_pass compute_kind (file_registry ''compute'' cc) (live_node win now cn w) nodes
        (choose_compute nodes pools (live_node win now cn w)) (map with_compute_defaults items) w = (errs0, alloc, w1)"
      and e: "file_view ''compute'' cc w' = file_view ''compute'' cc w1"
    by blast
  let ?V = "file_view ''compute'' cc"
  define sp where "sp v = asks (the (?V w v))" for v
  note P = file_placement(1) [OF assms(1) plain_kinds(1)]
  have g: "wf_fs w \<and> typed_kind cc ''compute'' (file_abs w)" using assms(4) by (simp add: file_good_def)
  note eff = placement.pass_effect [OF P, of w items with_compute_defaults
      "choose_compute nodes pools (live_node win now cn w)" nodes "live_node win now cn w" "fits_compute pools",
      OF _ l _ choose_compute_sound p, unfolded new_registry_simps kind_simps]
  have g1: "file_good ''compute'' cc w1" using eff(1) [OF g] by (simp add: file_good_def)
  have sp: "\<forall>r\<in>set items. spec (with_compute_defaults r) = sp (uid_of r)"
    using stored_view(2) [OF assms(1) plain_kinds(1) assms(4)] by (auto simp: i sp_def)
  from placement.pass_room [OF P, of w items with_compute_defaults
      "choose_compute nodes pools (live_node win now cn w)" nodes "live_node win now cn w" "fits_compute pools"
      errs0 alloc w1 sp uid a b, OF _ l _ choose_compute_sound p sp, unfolded new_registry_simps kind_simps
      placement.tally_def [OF P], OF g] assms(8-11)
  obtain m s ss us where r: "m \<in> set nodes" "uid_of m = cs_nodeName (status b)" "distinct us"
      "set us = {v. v \<in> uid_of ` set items \<and> (\<exists>c. ?V w1 v = Some c \<and> \<not> deleting c \<and> cs_nodeName (status c) = cs_nodeName (status b))}"
      "fits_compute pools m s (foldl (\<lambda>a s. charge_compute s a) zero_alloc ss)"
      "foldl (\<lambda>a s. charge_compute s a) zero_alloc (ss @ [s]) = foldl (\<lambda>a s. charge_compute s a) zero_alloc (map sp us)"
    unfolding e by auto
  have was: "v \<in> uid_of ` set items \<longleftrightarrow> plain v \<and> (\<exists>c. ?V w v = Some c)" for v
    using stored_view [OF assms(1) plain_kinds(1) assms(4)] file_uid [OF assms(1) plain_kinds(1) assms(4)]
    unfolding i stored_def image_iff by blast
  then have listed: "v \<in> uid_of ` set items \<longleftrightarrow> plain v \<and> (\<exists>c. ?V w1 v = Some c)" for v
    using eff(3) [OF g, of v] eff(4) [OF g, of v] by (cases "?V w v") auto
  have us: "v \<in> set us \<longleftrightarrow> (\<exists>c. c \<in> stored cc ''compute'' w' \<and> \<not> deleting c \<and>
      cs_nodeName (status c) = cs_nodeName (status b) \<and> ?V w' v = Some c)" for v
    unfolding r(4) mem_Collect_eq listed stored_def e
    using file_uid [OF assms(1) plain_kinds(1) g1] by blast
  have kept: "uid_of (the (?V w' v)) = v \<and> (\<exists>c\<in>stored cc ''compute'' w. uid_of c = v \<and> asks (the (?V w' v)) = asks c) \<and>
      asks (the (?V w' v)) = sp v" if v: "v \<in> set us" for v
  proof -
    from v r(4) was obtain c where c: "plain v" "?V w v = Some c" by auto
    from eff(4) [OF g _ c(2)] obtain b where "?V w1 v = Some b" "spec b = spec c" by auto
    with c file_uid [OF assms(1) plain_kinds(1) assms(4) c(2)] file_uid [OF assms(1) plain_kinds(1) g1, of v b]
    show ?thesis unfolding e by (auto simp: sp_def stored_def)
  qed
  have m: "map (\<lambda>v. asks (the (?V w' v))) us = map sp us" by (rule map_cong [OF refl]) (use kept in blast)
  have node: "file_view ''node'' cn w (cs_nodeName (status b)) = Some m"
    using stored_view(2) [OF assms(2) plain_kinds(2) assms(5)] r(1,2) n by metis
  show ?thesis
    by (intro exI [of _ m] exI [of _ pools] exI [of _ s] exI [of _ ss] exI [of _ us], unfold m,
        intro conjI allI ballI node r(3,5,6) us) (use kept in blast)+
qed

text \<open>
  C19. A pass of the compute scheduler never fills a node beyond its capacity. When every stored
  compute has a spec that passes validation and there are at most \<open>2 ^ 40\<close> of them, a node that the
  pass gave a compute ends with computes (those not being deleted) whose memory adds up to at most the memory of the
  node, that are at most its pod limit if it has one, and whose processor requests, added as the
  code adds them, are not above its processors.
\<close>
theorem scheduler_no_overcommit:
  assumes "lawful_codec cc" "lawful_codec cn" "lawful_codec cp"
    and "file_good ''compute'' cc w" "file_good ''node'' cn w" "file_good ''node_pool'' cp w"
    and "Scheduler_Reconcile None now stamped (file_scheduler win cc cn cp) w = (errs, w')"
    and "\<forall>c\<in>stored cc ''compute'' w. ComputeSpec_Validate (spec c) = None" "card (stored cc ''compute'' w) \<le> 2 ^ 40"
    and "file_view ''compute'' cc w uid = Some a" "file_view ''compute'' cc w' uid = Some b"
    and "cs_nodeName (status b) \<noteq> []" "cs_nodeName (status b) \<noteq> cs_nodeName (status a)"
  shows "\<exists>n cs. file_view ''node'' cn w (cs_nodeName (status b)) = Some n \<and> distinct cs \<and>
    set cs = {c \<in> stored cc ''compute'' w'. \<not> deleting c \<and> cs_nodeName (status c) = cs_nodeName (status b)} \<and>
    (\<Sum>c\<leftarrow>cs. co_memoryMb (asks c)) \<le> cap_memoryMb (nd_capacity (spec n)) \<and>
    (cap_maxPods (nd_capacity (spec n)) > 0 \<longrightarrow> int (length cs) \<le> cap_maxPods (nd_capacity (spec n))) \<and>
    \<not> f_less (f_of_int (cap_cpus (nd_capacity (spec n)))) (foldl f_add (Fin 0 0) (map (\<lambda>c. co_cpu (asks c)) cs))"
proof -
  let ?V = "file_view ''compute'' cc w'"
  from scheduler_charges [OF assms(1-7,10-13)] obtain n pools s ss us where
    n: "file_view ''node'' cn w (cs_nodeName (status b)) = Some n" and d: "distinct us"
      and room: "fits_compute pools n s (foldl (\<lambda>a s. charge_compute s a) zero_alloc ss)"
        "foldl (\<lambda>a s. charge_compute s a) zero_alloc (ss @ [s]) =
          foldl (\<lambda>a s. charge_compute s a) zero_alloc (map (\<lambda>v. asks (the (?V v))) us)"
      and us: "\<forall>v. v \<in> set us \<longleftrightarrow> (\<exists>c. c \<in> stored cc ''compute'' w' \<and> \<not> deleting c \<and>
        cs_nodeName (status c) = cs_nodeName (status b) \<and> ?V v = Some c)"
      and kept: "\<forall>v\<in>set us. uid_of (the (?V v)) = v \<and>
        (\<exists>c\<in>stored cc ''compute'' w. uid_of c = v \<and> asks (the (?V v)) = asks c)" by blast
  let ?cs = "map (\<lambda>v. the (?V v)) us"
  have "distinct ?cs"
    unfolding distinct_map by (rule conjI [OF d inj_on_inverseI [of _ uid_of]]) (use kept in blast)
  moreover have "set ?cs = {c \<in> stored cc ''compute'' w'. \<not> deleting c \<and> cs_nodeName (status c) = cs_nodeName (status b)}"
  proof (intro set_eqI iffI)
    fix c assume c: "c \<in> {c \<in> stored cc ''compute'' w'. \<not> deleting c \<and> cs_nodeName (status c) = cs_nodeName (status b)}"
    then obtain v where "?V v = Some c" unfolding stored_def by blast
    with c us have "v \<in> set us" "the (?V v) = c" by auto
    then show "c \<in> set ?cs" by force
  qed (use us in auto)
  moreover have "finite (stored cc ''compute'' w)"
    using file_listing [OF assms(1) plain_kinds(1) assms(4)] by (metis List.finite_set)
  then have "card (set us) \<le> card (stored cc ''compute'' w)"
    using kept by (intro surj_card_le [where f = uid_of]) force+
  then have "length us \<le> 2 ^ 40" using assms(9) distinct_card [OF d] by simp
  moreover have "\<forall>t\<in>set (map (\<lambda>v. asks (the (?V v))) us). co_memoryMb t \<in> {1..262144}"
  proof
    fix t assume "t \<in> set (map (\<lambda>v. asks (the (?V v))) us)"
    then obtain v where v: "v \<in> set us" "t = asks (the (?V v))" by auto
    with kept obtain c where "c \<in> stored cc ''compute'' w" "t = asks c" by metis
    with assms(8) show "co_memoryMb t \<in> {1..262144}" using admitted_limits(5) [OF compute_validate_limits] by blast
  qed
  ultimately show ?thesis
    using n compute_room [OF room] by (intro exI [of _ n] exI [of _ ?cs]) (simp add: comp_def del: int_defaults)
qed

subsection \<open>A small cluster\<close>

definition bare_meta :: "string \<Rightarrow> object_meta" where
  "bare_meta u = \<lparr>md_uid = u, md_name = u, md_organizationId = [], md_projectId = [], md_ownerUid = [], md_labels = [],
     md_annotations = [], md_ownerRefs = [], md_finalizers = [], md_generation = 1, md_resourceVersion = [],
     md_deletionTimestamp = None, md_createdAt = 0\<rparr>"

definition demo_compute :: "string \<Rightarrow> (compute_spec, compute_status) resource" where
  "demo_compute n = \<lparr>apiVersion = APIVersion, kind = ''compute'', metadata = bare_meta ''c1'',
     spec = zero_compute_spec\<lparr>co_name := ''web'', co_subnetId := ''s1'', co_image := ''alpine''\<rparr>,
     status = \<lparr>observedGeneration = 0, st_phase = PhasePending, conditions = [], cs_ip = [], cs_namespace = [],
       cs_vethHost = [], cs_rootfs = [], cs_ready = False, cs_nodeName = n\<rparr>\<rparr>"

definition demo_node :: node where
  "demo_node = \<lparr>apiVersion = APIVersion, kind = ''node'', metadata = bare_meta ''n1'',
     spec = \<lparr>nd_hostname = ''n1'', nd_address = ''10.0.0.1'', nd_labels = [],
       nd_capacity = \<lparr>cap_cpus = 4, cap_memoryMb = 1024, cap_maxPods = 8\<rparr>\<rparr>,
     status = \<lparr>observedGeneration = 0, st_phase = PhasePending, conditions = [],
       nd_allocated = \<lparr>na_cpus = Fin 0 0, na_memoryMb = 0, na_pods = 0\<rparr>, nd_lastSeen = ''1970-01-01T00:00:00Z''\<rparr>\<rparr>"

definition demo_computes :: "(compute_spec, compute_status) codec" where
  "demo_computes = table_codec [demo_compute [], demo_compute ''n1'']"

definition demo_nodes :: "(node_spec, node_status) codec" where
  "demo_nodes = table_codec [demo_node]"

definition demo_pools :: "(node_pool_spec, node_pool_status) codec" where
  "demo_pools = table_codec []"

text \<open>Bytes \<open>[0]\<close> encode the node and the unplaced compute, \<open>[0, 0]\<close> the placed one.\<close>

definition demo_world :: "bytes \<Rightarrow> fsys" where
  "demo_world d = [([''.store.lock''], File []), ([''node''], Dir), ([''node'', ''n1''], File [0]), ([''compute''], Dir), ([''compute'', ''c1''], File d)]"

lemma demo_codecs [simp]: "lawful_codec demo_computes" "lawful_codec demo_nodes" "lawful_codec demo_pools"
  by (simp_all add: demo_computes_def demo_nodes_def demo_pools_def lawful_table_codec)

lemma demo_uids [simp]: "uid_of (demo_compute n) = ''c1''" "uid_of demo_node = ''n1''"
    "rv_of (demo_compute n) = []" "rv_of demo_node = []"
  by (simp_all add: demo_compute_def demo_node_def bare_meta_def)

lemma demo_compute_neq [simp]: "demo_compute ''n1'' \<noteq> demo_compute []" "demo_compute [] \<noteq> demo_compute ''n1''"
  by (simp_all add: demo_compute_def)

lemma demo_marshal [simp]:
  "marshal demo_computes (demo_compute []) = Some [0]" "marshal demo_computes (demo_compute ''n1'') = Some [0, 0]"
  "unmarshal demo_computes [0] = Some (demo_compute [])" "unmarshal demo_computes [0, 0] = Some (demo_compute ''n1'')"
  "marshal demo_nodes demo_node = Some [0]" "unmarshal demo_nodes [0] = Some demo_node"
  by (simp_all add: demo_computes_def demo_nodes_def table_codec_def)

lemma demo_files:
  "wf_fs (demo_world [0])" "wf_fs (demo_world [0, 0])"
  "file_list no_faults (demo_world [0]) ''node'' = Inr [(''node/n1'', [0])]"
  "file_list no_faults (demo_world [0]) ''compute'' = Inr [(''compute/c1'', [0])]"
  "file_list no_faults (demo_world [0]) ''node_pool'' = Inr []"
  "file_get no_faults (demo_world [0]) (store_key ''compute'' ''c1'') = Inr [0]"
  "file_get no_faults (demo_world [0,0]) (store_key ''node'' ''n1'') = Inr [0]"
  "file_cas no_faults (demo_world [0]) (store_key ''compute'' ''c1'') (Some [0]) [0, 0] = (Inr True, demo_world [0, 0])"
  by code_simp+

lemma demo_good [simp]: "file_good ''compute'' demo_computes (demo_world [0])" "file_good ''node'' demo_nodes (demo_world [0])"
    "file_good ''node_pool'' demo_pools (demo_world [0])" "file_good ''node'' demo_nodes (demo_world [0, 0])"
  using demo_files(1,2)
  by (auto simp: file_good_def typed_kind_def file_abs_def demo_world_def split: if_splits
      intro!: exI [of _ "demo_compute []"] exI [of _ demo_node])

lemma demo_views [simp]:
  "file_view ''compute'' demo_computes (demo_world [0]) ''c1'' = Some (set_rv (revision [0]) (demo_compute []))"
  "file_view ''compute'' demo_computes (demo_world [0, 0]) ''c1'' = Some (set_rv (revision [0, 0]) (demo_compute ''n1''))"
  by (simp_all add: view_def file_abs_def demo_world_def decode_def)

lemma demo_node_view: "file_view ''node'' demo_nodes (demo_world [0]) ''n1'' = Some (set_rv (revision [0]) demo_node)"
  by (simp add: view_def file_abs_def demo_world_def decode_def)

lemma demo_plain [simp]: "plain ''c1''" "plain ''n1''"
  by code_simp+

theorem scheduler_places_live_witness:
  "\<exists>errs w' b. Scheduler_Reconcile None 0 0 (file_scheduler 30 demo_computes demo_nodes demo_pools) (demo_world [0]) = (errs, w') \<and>
    file_view ''compute'' demo_computes w' ''c1'' = Some b \<and> spec b = spec (demo_compute []) \<and>
    (cs_nodeName (status b) = [] \<or> live_node 30 0 demo_nodes (demo_world [0]) (cs_nodeName (status b)))"
proof -
  obtain errs w' where "Scheduler_Reconcile None 0 0 (file_scheduler 30 demo_computes demo_nodes demo_pools)
      (demo_world [0]) = (errs, w')" by fastforce
  from this scheduler_places_live [OF demo_codecs demo_good(1-3) this demo_plain(1) demo_views(1)]
  show ?thesis by (fastforce simp: demo_compute_def set_rv_def)
qed

lemma demo_lists:
  "reg_list (file_registry ''node'' demo_nodes) (demo_world [0]) = Inr [set_rv (revision [0]) demo_node]"
  "reg_list (file_registry ''compute'' demo_computes) (demo_world [0]) = Inr [set_rv (revision [0]) (demo_compute [])]"
  "reg_list (file_registry ''node_pool'' demo_pools) (demo_world [0]) = Inr []"
  by (simp_all add: reg_list_def FileStore_def demo_files)

lemma demo_put:
  "\<exists>r. reg_put (file_registry ''compute'' demo_computes) (demo_world [0])
     ((set_rv (revision [0]) (demo_compute []))\<lparr>status := (status (demo_compute []))\<lparr>cs_nodeName := ''n1''\<rparr>\<rparr>) =
   (Inr r, demo_world [0, 0])"
proof -
  have "set_rv [] (stamp (file_registry ''compute'' demo_computes)
     ((set_rv (revision [0]) (demo_compute []))\<lparr>status := (status (demo_compute []))\<lparr>cs_nodeName := ''n1''\<rparr>\<rparr>)) = demo_compute ''n1''"
    by (simp add: set_rv_def stamp_def demo_compute_def bare_meta_def)
  then show ?thesis
    by (simp add: reg_put_def put_prepare_def put_swap_def reg_key_def FileStore_def demo_files)
qed

lemma demo_ready: "nodeReady 30 (set_rv v demo_node) 0"
proof -
  have "parse_rfc3339 ''1970-01-01T00:00:00Z'' = Some 0" by code_simp
  then show ?thesis by (simp add: nodeReady_def demo_node_def set_rv_def time_sub_def)
qed

lemma demo_choice:
  assumes "ready ''n1''" "alloc_of alloc ''n1'' = zero_alloc"
  shows "choose_compute [set_rv v demo_node] [] ready alloc w (asks (demo_compute [])) = ''n1''"
proof -
  have "\<not> f_less (f_of_int 4) (f_add (Fin 0 0) (Fin 1 0))" by code_simp
  then show ?thesis using assms
    by (simp add: choose_compute_def pickNode_def demo_node_def demo_compute_def set_rv_def bare_meta_def
        zero_alloc_def has_room_def matchLabels_def ComputeSpec_WithDefaults_def zero_compute_spec_def)
qed

lemma demo_compute_state [simp]:
  "deleting (set_rv v (demo_compute n)) = False" "cs_nodeName (status (set_rv v (demo_compute n))) = n"
  "cs_nodeName (status (demo_compute n)) = n"
  "status (set_rv v r) = status r" "spec (set_rv v r) = spec r"
  by (simp_all add: demo_compute_def set_rv_def bare_meta_def IsDeleting_def)

lemma demo_assign:
  "assign compute_kind (file_registry ''compute'' demo_computes) ''c1'' ''n1'' (demo_world [0]) = (None, demo_world [0, 0])"
  using demo_put
  by (auto simp: assign_def reg_get_def reg_key_def FileStore_def demo_files split: prod.splits sum.splits)

lemma demo_run:
  "\<exists>errs w'. Scheduler_Reconcile None 0 0 (file_scheduler 30 demo_computes demo_nodes demo_pools) (demo_world [0]) =
    (errs, w') \<and> file_view ''compute'' demo_computes w' ''c1'' = Some (set_rv (revision [0, 0]) (demo_compute ''n1''))"
proof -
  let ?n = "set_rv (revision [0]) demo_node"
  let ?ready = "init_ready (\<lambda>n. nodeReady 30 n 0) [?n] (\<lambda>_. False)"
  obtain alloc where p: "place_pass compute_kind (file_registry ''compute'' demo_computes) ?ready [?n]
      (choose_compute [?n] [] ?ready) [with_compute_defaults (set_rv (revision [0]) (demo_compute []))] (demo_world [0]) =
      ([], alloc, demo_world [0, 0])"
    by (simp add: place_pass_def demo_choice demo_ready demo_assign alloc_of_def Let_def)
  obtain errs w' where s: "writeNodeStatus 0 (file_registry ''node'' demo_nodes) [?n] alloc ?ready (demo_world [0, 0]) = (errs, w')"
    by fastforce
  have "file_abs w' (''compute'', u) = file_abs (demo_world [0, 0]) (''compute'', u)" for u
    using save_each_frame [OF demo_codecs(2) plain_kinds(2) demo_good(4) _ node_update_uid s [unfolded writeNodeStatus_def]] by simp
  then have "file_view ''compute'' demo_computes w' = file_view ''compute'' demo_computes (demo_world [0, 0])"
    by (rule view_cong)
  with p s show ?thesis
    by (simp add: Scheduler_Reconcile_def file_scheduler_def Scheduler_WithContext_def demo_lists writePoolStatus_def Let_def)
qed

theorem scheduler_no_overcommit_witness:
  "\<exists>errs w' cs. Scheduler_Reconcile None 0 0 (file_scheduler 30 demo_computes demo_nodes demo_pools) (demo_world [0]) = (errs, w') \<and>
    set cs = {c \<in> stored demo_computes ''compute'' w'. \<not> deleting c \<and> cs_nodeName (status c) = ''n1''} \<and>
    (\<Sum>c\<leftarrow>cs. co_memoryMb (asks c)) \<le> 1024 \<and> length cs \<le> 8"
proof -
  from demo_run obtain errs w' where
    run: "Scheduler_Reconcile None 0 0 (file_scheduler 30 demo_computes demo_nodes demo_pools) (demo_world [0]) = (errs, w')"
      "file_view ''compute'' demo_computes w' ''c1'' = Some (set_rv (revision [0, 0]) (demo_compute ''n1''))"
    by blast
  have one: "stored demo_computes ''compute'' (demo_world [0]) \<subseteq> {set_rv (revision [0]) (demo_compute [])}"
    by (auto simp: stored_def view_def file_abs_def demo_world_def decode_def split: if_splits)
  have "ComputeSpec_Validate (spec (demo_compute [])) = None" by code_simp
  with one have "\<forall>c\<in>stored demo_computes ''compute'' (demo_world [0]). ComputeSpec_Validate (spec c) = None"
    by auto
  moreover have "card (stored demo_computes ''compute'' (demo_world [0])) \<le> 2 ^ 40"
    using card_mono [OF _ one] by simp
  ultimately obtain n cs where
    n: "file_view ''node'' demo_nodes (demo_world [0]) ''n1'' = Some n"
      "set cs = {c \<in> stored demo_computes ''compute'' w'. \<not> deleting c \<and> cs_nodeName (status c) = ''n1''}"
      "(\<Sum>c\<leftarrow>cs. co_memoryMb (asks c)) \<le> cap_memoryMb (nd_capacity (spec n))"
      "cap_maxPods (nd_capacity (spec n)) > 0 \<longrightarrow> int (length cs) \<le> cap_maxPods (nd_capacity (spec n))"
    using scheduler_no_overcommit [OF demo_codecs demo_good(1-3) run(1) _ _ demo_views(1) run(2),
        unfolded demo_compute_state] by blast
  have "n = set_rv (revision [0]) demo_node" using n(1) by (simp add: demo_node_view)
  then have "cap_memoryMb (nd_capacity (spec n)) = 1024" "cap_maxPods (nd_capacity (spec n)) = 8"
    by (simp_all add: demo_node_def)
  with n(2-4) run(1) show ?thesis by (intro exI [of _ errs] exI [of _ w'] exI [of _ cs]) simp
qed

end
