(* ===== verification/Identity.thy ===== *)
theory Identity
  imports Handler TrafficKinds
begin

text \<open>
  Who may log in: users with their password hashes (\<^verbatim>\<open>internal/identity\<close>), access tokens
  that act as their owner (\<^verbatim>\<open>internal/accesstoken\<close>), and the HTTP handlers of both
  (\<^verbatim>\<open>internal/handler/user.go\<close>, \<^verbatim>\<open>accesstoken.go\<close>). Password hashing is a parameter; the
  bytes drawn at random are arguments.
\<close>

subsection \<open>Users (\<^verbatim>\<open>internal/identity/service.go\<close>)\<close>

text \<open>
  The bcrypt package is not part of the repository: \<open>bc_generate\<close> is
  \<^verbatim>\<open>GenerateFromPassword\<close> with the salt it draws as its first argument, and
  \<open>bc_compare\<close> says whether \<^verbatim>\<open>CompareHashAndPassword\<close> returns nil.
\<close>

record bcrypt =
  bc_generate :: "bytes \<Rightarrow> string \<Rightarrow> bytes result"
  bc_compare :: "bytes \<Rightarrow> string \<Rightarrow> bool"

record user_status = status_base +
  us_passwordHash :: bytes

type_synonym user = "(user_spec, user_status) resource"

definition ErrInvalidCredentials :: error where
  "ErrInvalidCredentials = Errorf ''identity: invalid credentials''"

definition new_meta :: "string \<Rightarrow> string \<Rightarrow> string \<Rightarrow> int \<Rightarrow> time \<Rightarrow> object_meta" where
  "new_meta uid name rv gen created = \<lparr>md_uid = uid, md_name = name, md_organizationId = [], md_projectId = [],
     md_ownerUid = [], md_labels = [], md_annotations = [], md_ownerRefs = [], md_finalizers = [],
     md_generation = gen, md_resourceVersion = rv, md_deletionTimestamp = None, md_createdAt = created\<rparr>"

definition zero_user_status :: user_status where
  "zero_user_status = \<lparr>observedGeneration = 0, st_phase = PhaseUnset, conditions = [], us_passwordHash = []\<rparr>"

definition redact_user :: "user \<Rightarrow> user" where
  "redact_user usr = usr\<lparr>spec := (spec usr)\<lparr>us_password := []\<rparr>, status := (status usr)\<lparr>us_passwordHash := []\<rparr>\<rparr>"

text \<open>The envelope a put starts from: the stored one's successor, or a fresh one.\<close>

definition user_base :: "time \<Rightarrow> string \<Rightarrow> user_spec \<Rightarrow> user result \<Rightarrow> user result" where
  "user_base now uid s found = (case found of
     Inr existing \<Rightarrow> Inr \<lparr>apiVersion = [], kind = [],
       metadata = new_meta uid (us_username s) (rv_of existing) (i64 (md_generation (metadata existing) + 1))
         (md_createdAt (metadata existing)),
       spec = s, status = status existing\<rparr>
   | Inl e \<Rightarrow>
       if errors_is e ErrNotFound then
         (if us_password s = [] then Inl (Errorf ''identity: password is required to create a user'')
          else Inr \<lparr>apiVersion = [], kind = [], metadata = new_meta uid (us_username s) [] 1 now,
            spec = s, status = zero_user_status\<rparr>)
       else Inl e)"

definition hash_password :: "bcrypt \<Rightarrow> bytes \<Rightarrow> string \<Rightarrow> user \<Rightarrow> user result" where
  "hash_password bc salt password usr =
     (if password = [] then Inr usr
      else case bc_generate bc salt password of
        Inl e \<Rightarrow> Inl (Wrap ''identity: hash password'' e)
      | Inr h \<Rightarrow> Inr (usr\<lparr>status := (status usr)\<lparr>us_passwordHash := h\<rparr>\<rparr>))"

definition user_stamped :: "time \<Rightarrow> user \<Rightarrow> user" where
  "user_stamped stamped usr = usr\<lparr>spec := (spec usr)\<lparr>us_password := []\<rparr>,
     status := SetPhase stamped PhaseReady ''Stored'' ''user record stored''
       (MarkReconciled (md_generation (metadata usr)) (status usr))\<rparr>"

definition User_Put ::
    "bcrypt \<Rightarrow> bytes \<Rightarrow> time \<Rightarrow> time \<Rightarrow> ('w, user_spec, user_status) registry \<Rightarrow> string \<Rightarrow> user_spec \<Rightarrow> 'w \<Rightarrow>
      user result \<times> 'w" where
  "User_Put bc salt now stamped reg uid s w =
     (if uid = [] then (Inl (Errorf ''identity: uid is required''), w)
      else case UserSpec_Validate s of
        Some e \<Rightarrow> (Inl e, w)
      | None \<Rightarrow> (case user_base now uid s (reg_get reg w uid) of
          Inl e \<Rightarrow> (Inl e, w)
        | Inr usr \<Rightarrow> (case hash_password bc salt (us_password s) usr of
            Inl e \<Rightarrow> (Inl e, w)
          | Inr usr \<Rightarrow> (case reg_put reg w (user_stamped stamped usr) of
              (Inl e, w') \<Rightarrow> (Inl e, w')
            | (Inr usr, w') \<Rightarrow> (Inr (redact_user usr), w')))))"

definition User_Get :: "('w, user_spec, user_status) registry \<Rightarrow> string \<Rightarrow> 'w \<Rightarrow> user result" where
  "User_Get reg uid w = (case reg_get reg w uid of Inl e \<Rightarrow> Inl e | Inr usr \<Rightarrow> Inr (redact_user usr))"

definition User_List :: "('w, user_spec, user_status) registry \<Rightarrow> 'w \<Rightarrow> user list result" where
  "User_List reg w = (case reg_list reg w of Inl e \<Rightarrow> Inl e | Inr users \<Rightarrow> Inr (map redact_user users))"

definition User_Delete :: "('w, user_spec, user_status) registry \<Rightarrow> string \<Rightarrow> 'w \<Rightarrow> error option \<times> 'w" where
  "User_Delete reg uid w = reg_delete reg w uid"

fun authenticate_loop :: "bcrypt \<Rightarrow> string \<Rightarrow> string \<Rightarrow> user list \<Rightarrow> user result" where
  "authenticate_loop bc username password [] = Inl ErrInvalidCredentials"
| "authenticate_loop bc username password (u # us) =
     (if us_username (spec u) \<noteq> username then authenticate_loop bc username password us
      else if us_disabled (spec u) then Inl ErrInvalidCredentials
      else if \<not> bc_compare bc (us_passwordHash (status u)) password then Inl ErrInvalidCredentials
      else Inr (redact_user u))"

definition Authenticate ::
    "bcrypt \<Rightarrow> ('w, user_spec, user_status) registry \<Rightarrow> string \<Rightarrow> string \<Rightarrow> 'w \<Rightarrow> user result" where
  "Authenticate bc reg username password w = (case reg_list reg w of
     Inl e \<Rightarrow> Inl e
   | Inr users \<Rightarrow> authenticate_loop bc username password users)"

subsection \<open>Access tokens (\<^verbatim>\<open>internal/accesstoken/service.go\<close>)\<close>

record access_token_status = status_base +
  ats_ownerUid :: string
  ats_tokenHash :: bytes

type_synonym access_token = "(access_token_spec, access_token_status) resource"

definition ErrInvalid :: error where
  "ErrInvalid = Errorf ''accesstoken: invalid token''"

definition zero_token_status :: access_token_status where
  "zero_token_status = \<lparr>observedGeneration = 0, st_phase = PhaseUnset, conditions = [], ats_ownerUid = [], ats_tokenHash = []\<rparr>"

text \<open>\<open>drawn\<close> is what \<^verbatim>\<open>rand.Read\<close> fills in: 32 bytes, or nothing when it fails.\<close>

definition generateToken :: "bytes option \<Rightarrow> string result" where
  "generateToken drawn = (case drawn of
     None \<Rightarrow> Inl (Errorf ''accesstoken: generate token'')
   | Some b \<Rightarrow> Inr (''infra_'' @ b64_encode (map (\<lambda>x. char_of (unat x)) b)))"

definition bytes_of :: "string \<Rightarrow> bytes" where
  "bytes_of s = map of_char s"

definition redact_token :: "access_token \<Rightarrow> access_token" where
  "redact_token t = t\<lparr>status := (status t)\<lparr>ats_tokenHash := []\<rparr>\<rparr>"

definition token_base ::
    "bytes option \<Rightarrow> time \<Rightarrow> string \<Rightarrow> string \<Rightarrow> access_token_spec \<Rightarrow> access_token result \<Rightarrow> (access_token \<times> string) result" where
  "token_base drawn now uid ownerUID s found = (case found of
     Inr existing \<Rightarrow> Inr (\<lparr>apiVersion = [], kind = [],
       metadata = new_meta uid (at_name s) (rv_of existing) (i64 (md_generation (metadata existing) + 1))
         (md_createdAt (metadata existing)),
       spec = s, status = status existing\<rparr>, [])
   | Inl _ \<Rightarrow> (case generateToken drawn of
       Inl e \<Rightarrow> Inl e
     | Inr plaintext \<Rightarrow> Inr (\<lparr>apiVersion = [], kind = [], metadata = new_meta uid (at_name s) [] 1 now,
         spec = s, status = zero_token_status\<lparr>ats_ownerUid := ownerUID, ats_tokenHash := sha256 (bytes_of plaintext)\<rparr>\<rparr>,
         plaintext)))"

definition token_stamped :: "time \<Rightarrow> access_token \<Rightarrow> access_token" where
  "token_stamped stamped t = t\<lparr>status := SetPhase stamped PhaseReady ''Stored'' ''access token stored''
     (MarkReconciled (md_generation (metadata t)) (status t))\<rparr>"

definition Token_Put ::
    "bytes option \<Rightarrow> time \<Rightarrow> time \<Rightarrow> ('w, access_token_spec, access_token_status) registry \<Rightarrow> string \<Rightarrow> string \<Rightarrow>
      access_token_spec \<Rightarrow> 'w \<Rightarrow> (access_token \<times> string) result \<times> 'w" where
  "Token_Put drawn now stamped reg uid ownerUID s w =
     (if uid = [] then (Inl (Errorf ''accesstoken: uid is required''), w)
      else case AccessTokenSpec_Validate s of
        Some e \<Rightarrow> (Inl e, w)
      | None \<Rightarrow> (case token_base drawn now uid ownerUID s (reg_get reg w uid) of
          Inl e \<Rightarrow> (Inl e, w)
        | Inr (t, plaintext) \<Rightarrow> (case reg_put reg w (token_stamped stamped t) of
            (Inl e, w') \<Rightarrow> (Inl e, w')
          | (Inr t, w') \<Rightarrow> (Inr (redact_token t, plaintext), w'))))"

definition Token_Get :: "('w, access_token_spec, access_token_status) registry \<Rightarrow> string \<Rightarrow> 'w \<Rightarrow> access_token result" where
  "Token_Get reg uid w = (case reg_get reg w uid of Inl e \<Rightarrow> Inl e | Inr t \<Rightarrow> Inr (redact_token t))"

definition Token_List :: "('w, access_token_spec, access_token_status) registry \<Rightarrow> 'w \<Rightarrow> access_token list result" where
  "Token_List reg w = (case reg_list reg w of Inl e \<Rightarrow> Inl e | Inr ts \<Rightarrow> Inr (map redact_token ts))"

definition Token_Delete :: "('w, access_token_spec, access_token_status) registry \<Rightarrow> string \<Rightarrow> 'w \<Rightarrow> error option \<times> 'w" where
  "Token_Delete reg uid w = reg_delete reg w uid"

fun introspect_loop ::
    "time \<Rightarrow> ('w, user_spec, user_status) registry \<Rightarrow> bytes \<Rightarrow> 'w \<Rightarrow> access_token list \<Rightarrow> (string \<times> string list) result" where
  "introspect_loop now users h w [] = Inl ErrInvalid"
| "introspect_loop now users h w (t # ts) =
     (if ats_tokenHash (status t) \<noteq> h then introspect_loop now users h w ts
      else if (case at_expiresAt (spec t) of None \<Rightarrow> False | Some ex \<Rightarrow> now > ex) then Inl ErrInvalid
      else case User_Get users (ats_ownerUid (status t)) w of
        Inl e \<Rightarrow> Inl ErrInvalid
      | Inr owner \<Rightarrow> if us_disabled (spec owner) then Inl ErrInvalid
          else Inr (uid_of owner, us_roles (spec owner)))"

definition Introspect ::
    "time \<Rightarrow> ('w, access_token_spec, access_token_status) registry \<Rightarrow> ('w, user_spec, user_status) registry \<Rightarrow>
      string \<Rightarrow> 'w \<Rightarrow> (string \<times> string list) result" where
  "Introspect now reg users plaintext w =
     (if plaintext = [] then Inl ErrInvalid
      else case reg_list reg w of
        Inl e \<Rightarrow> Inl e
      | Inr tokens \<Rightarrow> introspect_loop now users (sha256 (bytes_of plaintext)) w tokens)"

subsection \<open>Their HTTP handlers (\<^verbatim>\<open>internal/handler/user.go\<close>, \<^verbatim>\<open>accesstoken.go\<close>)\<close>

definition KindUser :: string where "KindUser = ''user''"
definition KindAccessToken :: string where "KindAccessToken = ''access_token''"

definition requireAdmin ::
    "(('s, 'st) http_request \<Rightarrow> 'w \<Rightarrow> ('s, 'st) response \<times> 'w) \<Rightarrow> ('s, 'st) http_request \<Rightarrow> 'w \<Rightarrow> ('s, 'st) response \<times> 'w" where
  "requireAdmin next r w = (case hr_identity r of
     None \<Rightarrow> (writeError 403 ''admin role required'', w)
   | Some i \<Rightarrow> if \<not> HasRole i AdminRole then (writeError 403 ''admin role required'', w) else next r w)"

definition page_response :: "smap \<Rightarrow> string \<Rightarrow> ('s, 'st) resource list result \<Rightarrow> ('s, 'st) response" where
  "page_response query knd found = (case found of
     Inl e \<Rightarrow> writeError 500 ''list failed''
   | Inr items \<Rightarrow> (case writeList query knd items of
       Inl e \<Rightarrow> writeError 400 ''bad page parameters''
     | Inr page \<Rightarrow> respond 200 (ListBody page)))"

definition get_response :: "('s, 'st) resource result \<Rightarrow> ('s, 'st) response" where
  "get_response found = (case found of
     Inr res \<Rightarrow> respond 200 (ResourceBody res)
   | Inl e \<Rightarrow> if errors_is e ErrNotFound then writeError 404 ''not found'' else writeError 500 ''get failed'')"

definition delete_response :: "error option \<times> 'w \<Rightarrow> ('s, 'st) response \<times> 'w" where
  "delete_response out = (case out of
     (Some e, w) \<Rightarrow> (writeError 500 ''delete failed'', w)
   | (None, w) \<Rightarrow> (respond 204 NoBody, w))"

definition user_list :: "('w, user_spec, user_status) registry \<Rightarrow> (user_spec, user_status) http_request \<Rightarrow> 'w \<Rightarrow>
    (user_spec, user_status) response \<times> 'w" where
  "user_list reg = requireAdmin (\<lambda>r w. (page_response (hr_query r) KindUser (User_List reg w), w))"

definition user_get :: "('w, user_spec, user_status) registry \<Rightarrow> (user_spec, user_status) http_request \<Rightarrow> 'w \<Rightarrow>
    (user_spec, user_status) response" where
  "user_get reg r w = (case hr_identity r of
     None \<Rightarrow> writeError 403 ''admin role required''
   | Some i \<Rightarrow>
       if id_subject i \<noteq> hr_uid r \<and> \<not> HasRole i AdminRole then writeError 403 ''admin role required''
       else get_response (User_Get reg (hr_uid r) w))"

definition user_put ::
    "bcrypt \<Rightarrow> bytes \<Rightarrow> time \<Rightarrow> time \<Rightarrow> ('w, user_spec, user_status) registry \<Rightarrow> (user_spec, user_status) http_request \<Rightarrow>
      'w \<Rightarrow> (user_spec, user_status) response \<times> 'w" where
  "user_put bc salt now stamped reg = requireAdmin (\<lambda>r w. case hr_body r of
     None \<Rightarrow> (writeError 400 ''invalid body'', w)
   | Some inp \<Rightarrow> (case User_Put bc salt now stamped reg (hr_uid r) (spec inp) w of
       (Inl e, w') \<Rightarrow> (writeError 400 ''put failed'', w')
     | (Inr out, w') \<Rightarrow> (respond 200 (ResourceBody out), w')))"

definition user_delete :: "('w, user_spec, user_status) registry \<Rightarrow> (user_spec, user_status) http_request \<Rightarrow> 'w \<Rightarrow>
    (user_spec, user_status) response \<times> 'w" where
  "user_delete reg = requireAdmin (\<lambda>r w. delete_response (User_Delete reg (hr_uid r) w))"

definition token_list :: "('w, access_token_spec, access_token_status) registry \<Rightarrow>
    (access_token_spec, access_token_status) http_request \<Rightarrow> 'w \<Rightarrow> (access_token_spec, access_token_status) response \<times> 'w" where
  "token_list reg = requireAdmin (\<lambda>r w. (page_response (hr_query r) KindAccessToken (Token_List reg w), w))"

definition token_get :: "('w, access_token_spec, access_token_status) registry \<Rightarrow>
    (access_token_spec, access_token_status) http_request \<Rightarrow> 'w \<Rightarrow> (access_token_spec, access_token_status) response \<times> 'w" where
  "token_get reg = requireAdmin (\<lambda>r w. (get_response (Token_Get reg (hr_uid r) w), w))"

text \<open>The body of a successful put carries the plaintext beside the resource, empty on an update.\<close>

record access_token_response =
  atr_response :: "(access_token_spec, access_token_status) response"
  atr_token :: string

definition token_put ::
    "bytes option \<Rightarrow> time \<Rightarrow> time \<Rightarrow> ('w, access_token_spec, access_token_status) registry \<Rightarrow>
      (access_token_spec, access_token_status) http_request \<Rightarrow> 'w \<Rightarrow> access_token_response \<times> 'w" where
  "token_put drawn now stamped reg r w = (case hr_identity r of
     None \<Rightarrow> (\<lparr>atr_response = writeError 403 ''admin role required'', atr_token = []\<rparr>, w)
   | Some i \<Rightarrow>
       if \<not> HasRole i AdminRole then (\<lparr>atr_response = writeError 403 ''admin role required'', atr_token = []\<rparr>, w)
       else (case hr_body r of
           None \<Rightarrow> (\<lparr>atr_response = writeError 400 ''invalid body'', atr_token = []\<rparr>, w)
         | Some inp \<Rightarrow> (case Token_Put drawn now stamped reg (hr_uid r) (id_subject i) (spec inp) w of
             (Inl e, w') \<Rightarrow> (\<lparr>atr_response = writeError 400 ''put failed'', atr_token = []\<rparr>, w')
           | (Inr (out, plaintext), w') \<Rightarrow>
               (\<lparr>atr_response = respond 200 (ResourceBody out), atr_token = plaintext\<rparr>, w'))))"

definition token_delete :: "('w, access_token_spec, access_token_status) registry \<Rightarrow>
    (access_token_spec, access_token_status) http_request \<Rightarrow> 'w \<Rightarrow> (access_token_spec, access_token_status) response \<times> 'w" where
  "token_delete reg = requireAdmin (\<lambda>r w. delete_response (Token_Delete reg (hr_uid r) w))"

subsection \<open>Properties\<close>

lemma phase_keeps [simp]:
  "us_passwordHash (SetPhase now PhaseReady reason msg st) = us_passwordHash st"
  "us_passwordHash (MarkReconciled g st) = us_passwordHash st"
  "ats_tokenHash (SetPhase now PhaseReady reason msg ts) = ats_tokenHash ts"
  "ats_tokenHash (MarkReconciled g ts) = ats_tokenHash ts"
  "ats_ownerUid (SetPhase now PhaseReady reason msg ts) = ats_ownerUid ts"
  "ats_ownerUid (MarkReconciled g ts) = ats_ownerUid ts"
  by (simp_all add: SetPhase_def SetCondition_def MarkReconciled_def Let_def)

lemma new_meta_simps [simp]:
  "md_uid (new_meta uid name rv g t) = uid" "md_resourceVersion (new_meta uid name rv g t) = rv"
  by (simp_all add: new_meta_def)

lemma plain_identity_kinds [simp]: "plain ''user''" "plain ''access_token''"
  by code_simp+

lemma set_rv_stamp [simp]: "spec (set_rv v (stamp R res)) = spec res" "status (set_rv v (stamp R res)) = status res"
  by (simp_all add: set_rv_def stamp_def)

text \<open>A successful put of a user, spelled out: what is stored, and that the rest is as before.\<close>

lemma User_Put_result:
  assumes "lawful_codec c" "file_good ''user'' c w" "plain uid"
    and "User_Put bc salt now stamped (file_registry ''user'' c) uid s w = (r, w')"
  shows "file_good ''user'' c w'"
    and "r = Inl e \<Longrightarrow> file_view ''user'' c w' = file_view ''user'' c w"
    and "r = Inr out \<Longrightarrow> \<exists>usr h. file_view ''user'' c w' = (file_view ''user'' c w)(uid \<mapsto> usr) \<and> out = redact_user usr \<and>
      spec usr = s\<lparr>us_password := []\<rparr> \<and> us_passwordHash (status usr) = h \<and>
      (if us_password s = [] then \<exists>old. file_view ''user'' c w uid = Some old \<and> h = us_passwordHash (status old)
       else bc_generate bc salt (us_password s) = Inr h)"
proof -
  let ?R = "file_registry ''user'' c"
  have *: "file_good ''user'' c w' \<and> (case r of Inl e \<Rightarrow> file_view ''user'' c w' = file_view ''user'' c w
    | Inr out \<Rightarrow> \<exists>usr h. file_view ''user'' c w' = (file_view ''user'' c w)(uid \<mapsto> usr) \<and> out = redact_user usr \<and>
      spec usr = s\<lparr>us_password := []\<rparr> \<and> us_passwordHash (status usr) = h \<and>
      (if us_password s = [] then \<exists>old. file_view ''user'' c w uid = Some old \<and> h = us_passwordHash (status old)
       else bc_generate bc salt (us_password s) = Inr h))"
  proof (cases "\<exists>e. (r, w') = (Inl e, w)")
    case True
    with assms(2) show ?thesis by auto
  next
    case False
    with assms(4) obtain b0 where b0: "user_base now uid s (reg_get ?R w uid) = Inr b0"
      by (cases "user_base now uid s (reg_get ?R w uid)") (auto simp: User_Put_def split: if_splits option.splits, metis)
    with False assms(4) obtain u0 where u0: "hash_password bc salt (us_password s) b0 = Inr u0"
      by (cases "hash_password bc salt (us_password s) b0") (auto simp: User_Put_def split: if_splits option.splits, metis)
    from b0 u0 False assms(4) obtain b usr where b: "user_base now uid s (reg_get ?R w uid) = Inr b"
        "hash_password bc salt (us_password s) b = Inr usr"
        "(case reg_put ?R w (user_stamped stamped usr) of (Inl e, w') \<Rightarrow> (Inl e, w')
            | (Inr usr, w') \<Rightarrow> (Inr (redact_user usr), w')) = (r, w')"
      by (auto simp: User_Put_def split: if_splits option.splits)
    have base: "spec b = s" "uid_of b = uid"
        "us_password s = [] \<Longrightarrow> \<exists>old. file_view ''user'' c w uid = Some old \<and> status b = status old"
      using b(1) file_get_view [OF assms(1) _ assms(2,3)]
      by (auto simp: user_base_def split: sum.splits option.splits if_splits)
    have usr: "spec (user_stamped stamped usr) = s\<lparr>us_password := []\<rparr>" "uid_of (user_stamped stamped usr) = uid"
        "if us_password s = [] then \<exists>old. file_view ''user'' c w uid = Some old \<and>
           us_passwordHash (status (user_stamped stamped usr)) = us_passwordHash (status old)
         else bc_generate bc salt (us_password s) = Inr (us_passwordHash (status (user_stamped stamped usr)))"
      using b(2) base by (auto simp: hash_password_def user_stamped_def split: sum.splits if_splits)
    obtain r1 w1 where p: "reg_put ?R w (user_stamped stamped usr) = (r1, w1)" by fastforce
    note put = file_put_cases [OF assms(1) _ assms(2) _ p, unfolded usr(2), OF _ assms(3)]
    show ?thesis
    proof (cases r1)
      case (Inl e)
      with p b(3) put show ?thesis by auto
    next
      case (Inr u)
      with put obtain v where v: "file_good ''user'' c w1" "file_view ''user'' c w1 = (file_view ''user'' c w)(uid \<mapsto> u)"
          "u = set_rv v (stamp ?R (user_stamped stamped usr))" by auto
      moreover have "r = Inr (redact_user u)" "w' = w1" using p b(3) Inr by auto
      ultimately show ?thesis using usr(1,3)
        by (simp only: sum.case, intro conjI exI [of _ u] exI [of _ "us_passwordHash (status u)"]) simp_all
    qed
  qed
  then show "file_good ''user'' c w'" by blast
  show "r = Inl e \<Longrightarrow> file_view ''user'' c w' = file_view ''user'' c w" using * by auto
  show "r = Inr out \<Longrightarrow> \<exists>usr h. file_view ''user'' c w' = (file_view ''user'' c w)(uid \<mapsto> usr) \<and> out = redact_user usr \<and>
      spec usr = s\<lparr>us_password := []\<rparr> \<and> us_passwordHash (status usr) = h \<and>
      (if us_password s = [] then \<exists>old. file_view ''user'' c w uid = Some old \<and> h = us_passwordHash (status old)
       else bc_generate bc salt (us_password s) = Inr h)" using * by auto
qed

lemma authenticate_loop_unique:
  assumes "u \<in> set us" "\<forall>v\<in>set us. us_username (spec v) = us_username (spec u) \<longrightarrow> v = u"
  shows "authenticate_loop bc (us_username (spec u)) p us =
    (if us_disabled (spec u) \<or> \<not> bc_compare bc (us_passwordHash (status u)) p then Inl ErrInvalidCredentials
     else Inr (redact_user u))"
  using assms by (induction us) auto

lemma redact_user_simps [simp]: "us_password (spec (redact_user u)) = []" "us_passwordHash (status (redact_user u)) = []"
    "us_disabled (spec (redact_user u)) = us_disabled (spec u)" "us_roles (spec (redact_user u)) = us_roles (spec u)"
    "uid_of (redact_user u) = uid_of u"
  by (simp_all add: redact_user_def)

text \<open>
  C24. Passwords are kept as hashes only, and they decide the login. After a successful put of a
  user nobody's stored spec holds a password if none did before, and neither does the answer,
  which has no hash either. When no other stored user has the name, a login with that name succeeds exactly for
  an enabled user and a password that bcrypt accepts for the stored hash: the hash of the
  password just set, or the hash from before when the put brought no password.
\<close>
theorem user_put_authenticate:
  assumes "lawful_codec c" "file_good ''user'' c w" "plain uid"
    and "User_Put bc salt now stamped (file_registry ''user'' c) uid s w = (Inr out, w')"
    and "\<forall>u\<in>stored c ''user'' w. us_password (spec u) = [] \<and> (us_username (spec u) = us_username s \<longrightarrow> uid_of u = uid)"
  shows "(\<forall>u\<in>stored c ''user'' w'. us_password (spec u) = []) \<and>
    us_password (spec out) = [] \<and> us_passwordHash (status out) = [] \<and>
    (\<exists>h. (if us_password s = [] then \<exists>old. file_view ''user'' c w uid = Some old \<and> h = us_passwordHash (status old)
          else bc_generate bc salt (us_password s) = Inr h) \<and>
      (\<forall>p. Authenticate bc (file_registry ''user'' c) (us_username s) p w' =
        (if us_disabled s \<or> \<not> bc_compare bc h p then Inl ErrInvalidCredentials else Inr out)))"
proof -
  note res = User_Put_result [OF assms(1-4)]
  from res(3) obtain usr h where u: "file_view ''user'' c w' = (file_view ''user'' c w)(uid \<mapsto> usr)" "out = redact_user usr"
      "spec usr = s\<lparr>us_password := []\<rparr>" "us_passwordHash (status usr) = h"
      "if us_password s = [] then \<exists>old. file_view ''user'' c w uid = Some old \<and> h = us_passwordHash (status old)
       else bc_generate bc salt (us_password s) = Inr h"
    by blast
  have st: "v = usr \<or> v \<in> stored c ''user'' w \<and> uid_of v \<noteq> uid" if "v \<in> stored c ''user'' w'" for v
    using that stored_view [OF assms(1) _ res(1)] file_uid [OF assms(1) _ assms(2)]
    by (auto simp: stored_def u(1) split: if_splits)
  from file_listing [OF assms(1) _ res(1)] obtain users where
    l: "reg_list (file_registry ''user'' c) w' = Inr users" "set users = stored c ''user'' w'" by auto
  have one: "usr \<in> set users" using assms(3) by (auto simp: l(2) stored_def u(1))
  have "\<forall>v\<in>set users. us_username (spec v) = us_username (spec usr) \<longrightarrow> v = usr"
    using st assms(5) by (auto simp: l(2) u(3))
  from authenticate_loop_unique [OF one this]
  have "Authenticate bc (file_registry ''user'' c) (us_username s) p w' =
        (if us_disabled s \<or> \<not> bc_compare bc h p then Inl ErrInvalidCredentials else Inr out)" for p
    by (simp add: Authenticate_def l(1) u(2-4))
  moreover have "\<forall>v\<in>stored c ''user'' w'. us_password (spec v) = []"
    using st assms(5) u(3) by fastforce
  ultimately show ?thesis using u(2,5) by auto
qed

text \<open>A put of an access token: an update keeps owner and hash and answers no plaintext.\<close>

lemma Token_Put_result:
  assumes "lawful_codec c" "file_good ''access_token'' c w" "plain uid"
    and "Token_Put drawn now stamped (file_registry ''access_token'' c) uid owner s w = (Inr (out, pt), w')"
  shows "\<exists>t. file_good ''access_token'' c w' \<and>
    file_view ''access_token'' c w' = (file_view ''access_token'' c w)(uid \<mapsto> t) \<and> out = redact_token t \<and> spec t = s \<and>
    (\<forall>k u. k \<noteq> ''access_token'' \<longrightarrow> file_abs w' (k, u) = file_abs w (k, u)) \<and>
    (case file_view ''access_token'' c w uid of
       None \<Rightarrow> generateToken drawn = Inr pt \<and> ats_ownerUid (status t) = owner \<and> ats_tokenHash (status t) = sha256 (bytes_of pt)
     | Some old \<Rightarrow> pt = [] \<and> ats_ownerUid (status t) = ats_ownerUid (status old) \<and> ats_tokenHash (status t) = ats_tokenHash (status old))"
proof -
  let ?R = "file_registry ''access_token'' c"
  obtain b where b: "token_base drawn now uid owner s (reg_get ?R w uid) = Inr (b, pt)"
      "(case reg_put ?R w (token_stamped stamped b) of (Inl e, w') \<Rightarrow> (Inl e, w')
          | (Inr t, w') \<Rightarrow> (Inr (redact_token t, pt), w')) = (Inr (out, pt), w')"
  proof (cases "token_base drawn now uid owner s (reg_get ?R w uid)")
    case (Inl e)
    with assms(4) show ?thesis by (simp add: Token_Put_def split: if_splits option.splits)
  next
    case (Inr x)
    with assms(4) show ?thesis
      by (cases x) (auto simp: Token_Put_def split: if_splits option.splits prod.splits sum.splits intro!: that)
  qed
  have base: "spec b = s" "uid_of (token_stamped stamped b) = uid" "spec (token_stamped stamped b) = s"
      "case file_view ''access_token'' c w uid of
         None \<Rightarrow> generateToken drawn = Inr pt \<and> ats_ownerUid (status b) = owner \<and> ats_tokenHash (status b) = sha256 (bytes_of pt)
       | Some old \<Rightarrow> pt = [] \<and> ats_ownerUid (status b) = ats_ownerUid (status old) \<and> ats_tokenHash (status b) = ats_tokenHash (status old)"
    using b(1) file_get_view [OF assms(1) _ assms(2,3)]
    by (auto simp: token_base_def token_stamped_def split: sum.splits option.splits)
  obtain r1 w1 where p: "reg_put ?R w (token_stamped stamped b) = (r1, w1)" by fastforce
  with b(2) obtain t where t: "r1 = Inr t" "w1 = w'" "out = redact_token t" by (auto split: sum.splits)
  from file_put_cases [OF assms(1) _ assms(2) _ p, unfolded base(2), OF _ assms(3)] t(1) obtain v where
    v: "file_good ''access_token'' c w1" "file_view ''access_token'' c w1 = (file_view ''access_token'' c w)(uid \<mapsto> t)"
      "t = set_rv v (stamp ?R (token_stamped stamped b))"
      "\<forall>k u. k \<noteq> ''access_token'' \<longrightarrow> file_abs w1 (k, u) = file_abs w (k, u)" by auto
  moreover have "ats_ownerUid (status t) = ats_ownerUid (status b)" "ats_tokenHash (status t) = ats_tokenHash (status b)" "spec t = s"
    using base(3) by (simp_all add: v(3)) (simp_all add: token_stamped_def)
  ultimately show ?thesis using base(4) t(2,3)
    by (intro exI [of _ t]) (auto split: option.splits)
qed

text \<open>
  What introspecting a token of \<open>owner\<close> with expiry \<open>ex\<close> must answer: the owner's present
  roles, unless it has expired or the owner is gone or disabled.
\<close>

definition token_answer ::
    "(user_spec, user_status) codec \<Rightarrow> fsys \<Rightarrow> time \<Rightarrow> string \<Rightarrow> time option \<Rightarrow> (string \<times> string list) result" where
  "token_answer cu w now owner ex =
     (if (case ex of None \<Rightarrow> False | Some t \<Rightarrow> now > t) then Inl ErrInvalid
      else case file_view ''user'' cu w owner of
        None \<Rightarrow> Inl ErrInvalid
      | Some u \<Rightarrow> if us_disabled (spec u) then Inl ErrInvalid else Inr (owner, us_roles (spec u)))"

lemma introspect_loop_unique:
  assumes "t \<in> set ts" "\<forall>t'\<in>set ts. ats_tokenHash (status t') = ats_tokenHash (status t) \<longrightarrow> t' = t"
  shows "introspect_loop now U (ats_tokenHash (status t)) w ts = introspect_loop now U (ats_tokenHash (status t)) w [t]"
  using assms by (induction ts) auto

lemma introspect_loop_unknown:
  "\<forall>t\<in>set ts. ats_tokenHash (status t) \<noteq> h \<Longrightarrow> introspect_loop now U h w ts = Inl ErrInvalid"
  by (induction ts) auto

lemma Introspect_stored:
  assumes "lawful_codec ct" "lawful_codec cu" "file_good ''access_token'' ct w" "file_good ''user'' cu w" "pt \<noteq> []"
    and "t \<in> stored ct ''access_token'' w" "ats_tokenHash (status t) = sha256 (bytes_of pt)" "plain (ats_ownerUid (status t))"
    and "\<forall>t'\<in>stored ct ''access_token'' w. ats_tokenHash (status t') = sha256 (bytes_of pt) \<longrightarrow> t' = t"
  shows "Introspect now (file_registry ''access_token'' ct) (file_registry ''user'' cu) pt w =
    token_answer cu w now (ats_ownerUid (status t)) (at_expiresAt (spec t))"
proof -
  from file_listing [OF assms(1) _ assms(3)] obtain ts where
    l: "reg_list (file_registry ''access_token'' ct) w = Inr ts" "set ts = stored ct ''access_token'' w" by auto
  have one: "t \<in> set ts" "\<forall>t'\<in>set ts. ats_tokenHash (status t') = ats_tokenHash (status t) \<longrightarrow> t' = t"
    using assms(6,9) unfolding l(2) assms(7) by blast+
  have "Introspect now (file_registry ''access_token'' ct) (file_registry ''user'' cu) pt w =
      introspect_loop now (file_registry ''user'' cu) (ats_tokenHash (status t)) w [t]"
    unfolding introspect_loop_unique [OF one, symmetric] using assms(5,7) by (simp add: Introspect_def l(1))
  then show ?thesis
    using file_get_view [OF assms(2) _ assms(4,8)] file_uid [OF assms(2) _ assms(4)]
    by (auto simp: token_answer_def User_Get_def split: option.splits)
qed

lemma Introspect_unknown:
  assumes "lawful_codec ct" "file_good ''access_token'' ct w"
    and "\<forall>t\<in>stored ct ''access_token'' w. ats_tokenHash (status t) \<noteq> sha256 (bytes_of pt)"
  shows "Introspect now (file_registry ''access_token'' ct) U pt w = Inl ErrInvalid"
proof -
  from file_listing [OF assms(1) _ assms(2)] obtain ts where
    "reg_list (file_registry ''access_token'' ct) w = Inr ts" "set ts = stored ct ''access_token'' w" by auto
  with introspect_loop_unknown [of ts "sha256 (bytes_of pt)" now U w] assms(3) show ?thesis by (simp add: Introspect_def)
qed

lemma stored_upd:
  assumes "file_view k c w' = (file_view k c w)(uid := x)"
  shows "stored c k w' = {t. (\<exists>u. plain u \<and> u \<noteq> uid \<and> file_view k c w u = Some t) \<or> (plain uid \<and> x = Some t)}"
  using assms by (auto simp: stored_def split: if_splits)


subsection \<open>Examples\<close>

definition demo_bcrypt :: bcrypt where
  "demo_bcrypt = \<lparr>bc_generate = (\<lambda>salt p. Inr (0 # bytes_of p)), bc_compare = (\<lambda>h p. h = 0 # bytes_of p)\<rparr>"

definition demo_alice :: user_spec where
  "demo_alice = \<lparr>us_username = ''alice'', us_password = ''pw'', us_roles = [''admin''], us_disabled = False\<rparr>"

definition demo_user :: user where
  "demo_user = set_rv [] (stamp (file_registry ''user'' (table_codec [])) (user_stamped 0
     \<lparr>apiVersion = [], kind = [], metadata = new_meta ''u1'' ''alice'' [] 1 0, spec = demo_alice,
       status = zero_user_status\<lparr>us_passwordHash := 0 # bytes_of ''pw''\<rparr>\<rparr>))"

lemma plain_demo_uids [simp]: "plain ''u1''" "plain ''t1''"
  by code_simp+

lemma empty_view [simp]: "file_view k c [] u = None" "stored c k [] = {}"
  by (auto simp: view_def file_abs_def stored_def)

theorem user_put_authenticate_witness:
  "\<exists>out w'. User_Put demo_bcrypt [] 0 0 (file_registry ''user'' (table_codec [demo_user])) ''u1'' demo_alice [] = (Inr out, w') \<and>
    us_password (spec out) = [] \<and>
    Authenticate demo_bcrypt (file_registry ''user'' (table_codec [demo_user])) ''alice'' ''pw'' w' = Inr out \<and>
    Authenticate demo_bcrypt (file_registry ''user'' (table_codec [demo_user])) ''alice'' ''px'' w' = Inl ErrInvalidCredentials"
proof -
  let ?c = "table_codec [demo_user]"
  let ?b = "\<lparr>apiVersion = [], kind = [], metadata = new_meta ''u1'' ''alice'' [] 1 0, spec = demo_alice,
    status = zero_user_status\<lparr>us_passwordHash := 0 # bytes_of ''pw''\<rparr>\<rparr>"
  have st: "set_rv [] (stamp (file_registry ''user'' ?c) (user_stamped 0 ?b)) = demo_user"
    by (simp add: demo_user_def stamp_def)
  have "uid_of (user_stamped 0 ?b) = ''u1''" "rv_of (user_stamped 0 ?b) = []" by (simp_all add: user_stamped_def)
  with file_put_succeeds [OF lawful_table_codec plain_identity_kinds(1) good_empty, of "user_stamped 0 ?b" "[demo_user]" "[0]"]
  obtain x w' where p: "reg_put (file_registry ''user'' ?c) [] (user_stamped 0 ?b) = (Inr x, w')"
    unfolding st by (auto simp: table_codec_def current_rv_def)
  have "reg_get (file_registry ''user'' ?c) [] ''u1'' = Inl ErrNotFound"
    using file_get_view [OF lawful_table_codec plain_identity_kinds(1) good_empty plain_demo_uids(1)] by simp
  with p have put: "User_Put demo_bcrypt [] 0 0 (file_registry ''user'' ?c) ''u1'' demo_alice [] = (Inr (redact_user x), w')"
    by (simp add: User_Put_def UserSpec_Validate_def user_base_def hash_password_def demo_alice_def demo_bcrypt_def)
  from user_put_authenticate [OF lawful_table_codec good_empty plain_demo_uids(1) put] put
  show ?thesis by (auto simp: demo_alice_def demo_bcrypt_def bytes_of_def)
qed

definition demo_token_spec :: access_token_spec where
  "demo_token_spec = \<lparr>at_name = ''ci'', at_expiresAt = Some 10\<rparr>"

definition demo_draft :: "int \<Rightarrow> string \<Rightarrow> access_token_status \<Rightarrow> access_token" where
  "demo_draft g rv st = \<lparr>apiVersion = [], kind = [], metadata = new_meta ''t1'' ''ci'' rv g 0, spec = demo_token_spec, status = st\<rparr>"

definition demo_token1 :: access_token where
  "demo_token1 = set_rv [] (stamp (file_registry ''access_token'' (table_codec [])) (token_stamped 0 (demo_draft 1 []
     (zero_token_status\<lparr>ats_ownerUid := ''u1'', ats_tokenHash := sha256 (bytes_of ''infra_AA'')\<rparr>))))"

definition demo_token2 :: access_token where
  "demo_token2 = set_rv [] (stamp (file_registry ''access_token'' (table_codec [])) (token_stamped 0 (demo_draft 2 [] (status demo_token1))))"

abbreviation demo_tokens :: "(access_token_spec, access_token_status) codec" where
  "demo_tokens \<equiv> table_codec [demo_token1, demo_token2]"

lemma demo_token_facts [simp]:
  "demo_token1 \<noteq> demo_token2" "demo_token2 \<noteq> demo_token1" "md_generation (metadata demo_token1) = 1" "md_createdAt (metadata demo_token1) = 0"
  "uid_of (token_stamped t (demo_draft g rv st)) = ''t1''" "rv_of (token_stamped t (demo_draft g rv st)) = rv"
  by (auto simp: demo_token1_def demo_token2_def set_rv_def stamp_def token_stamped_def demo_draft_def new_meta_def dest: arg_cong [of _ _ metadata])

lemma demo_tokens_marshal [simp]: "marshal demo_tokens demo_token1 = Some [0]" "marshal demo_tokens demo_token2 = Some [0, 0]"
  by (simp_all add: table_codec_def)

lemma demo_stamped:
  "set_rv [] (stamp (file_registry ''access_token'' demo_tokens) (token_stamped 0 (demo_draft 1 []
     (zero_token_status\<lparr>ats_ownerUid := ''u1'', ats_tokenHash := sha256 (bytes_of ''infra_AA'')\<rparr>)))) = demo_token1"
  "set_rv [] (stamp (file_registry ''access_token'' demo_tokens) (token_stamped 0 (demo_draft 2 rv (status demo_token1)))) = demo_token2"
  by (simp_all add: demo_token1_def demo_token2_def set_rv_def stamp_def token_stamped_def demo_draft_def new_meta_def)

lemma demo_token_create:
  "\<exists>out w1. Token_Put (Some [0]) 0 0 (file_registry ''access_token'' demo_tokens) ''t1'' ''u1'' demo_token_spec [] =
      (Inr (out, ''infra_AA''), w1) \<and>
    file_view ''access_token'' demo_tokens w1 ''t1'' = Some (set_rv (revision [0]) demo_token1) \<and>
    file_good ''access_token'' demo_tokens w1"
proof -
  let ?R = "file_registry ''access_token'' demo_tokens"
  let ?d = "token_stamped 0 (demo_draft 1 [] (zero_token_status\<lparr>ats_ownerUid := ''u1'', ats_tokenHash := sha256 (bytes_of ''infra_AA'')\<rparr>))"
  have "generateToken (Some [0]) = Inr ''infra_AA''" by code_simp
  moreover have "reg_get ?R [] ''t1'' = Inl ErrNotFound"
    using file_get_view [OF lawful_table_codec plain_identity_kinds(2) good_empty plain_demo_uids(2)] by simp
  moreover obtain w1 where p: "reg_put ?R [] ?d = (Inr (set_rv (revision [0]) (stamp ?R ?d)), w1)"
    using file_put_succeeds [OF lawful_table_codec plain_identity_kinds(2) good_empty, of ?d "[demo_token1, demo_token2]" "[0]"]
    unfolding demo_stamped by (auto simp: current_rv_def)
  moreover have "file_view ''access_token'' demo_tokens w1 ''t1'' = Some (set_rv (revision [0]) demo_token1) \<and>
      file_good ''access_token'' demo_tokens w1"
    using file_put_cases [OF lawful_table_codec plain_identity_kinds(2) good_empty _ p]
    using arg_cong [OF demo_stamped(1), of "set_rv (revision [0])"] by simp
  ultimately show ?thesis
    by (auto simp: Token_Put_def AccessTokenSpec_Validate_def token_base_def demo_token_spec_def demo_draft_def)
qed

lemma demo_token_update:
  assumes "file_view ''access_token'' demo_tokens w ''t1'' = Some (set_rv (revision [0]) demo_token1)"
    and "file_good ''access_token'' demo_tokens w"
  shows "\<exists>out pt w'. Token_Put (Some [0]) 0 0 (file_registry ''access_token'' demo_tokens) ''t1'' ''mallory'' demo_token_spec w =
    (Inr (out, pt), w')"
proof -
  let ?R = "file_registry ''access_token'' demo_tokens"
  let ?d = "token_stamped 0 (demo_draft 2 (revision [0]) (status demo_token1))"
  have g: "reg_get ?R w ''t1'' = Inr (set_rv (revision [0]) demo_token1)"
    using file_get_view [OF lawful_table_codec plain_identity_kinds(2) assms(2) plain_demo_uids(2)] assms(1) by simp
  obtain x w1 where p: "reg_put ?R w ?d = (Inr x, w1)"
    using file_put_succeeds [OF lawful_table_codec plain_identity_kinds(2) assms(2), of ?d "[0, 0]"] assms(1)
    unfolding demo_stamped by (auto simp: current_rv_def)
  have "token_base (Some [0]) 0 ''t1'' ''mallory'' demo_token_spec (Inr (set_rv (revision [0]) demo_token1)) =
      Inr (demo_draft 2 (revision [0]) (status demo_token1), [])"
    by (simp add: token_base_def demo_draft_def set_rv_def demo_token_spec_def)
  with g p show ?thesis
    by (auto simp: Token_Put_def AccessTokenSpec_Validate_def demo_token_spec_def)
qed


end
