(* ===== verification/Idp.thy ===== *)
theory Idp
  imports Identity Clock "HOL-Library.AList"
begin

text \<open>
  The identity provider (\<^verbatim>\<open>internal/idp\<close>): device authorizations after RFC 8628, kept in
  memory or shared between instances through the state store, and the endpoints that
  issue tokens. The clock is read once per attempt of a transaction. Invariants are kept
  over the heap of authorizations both maps point into; the theorems are about who gets a
  token and about instances that act at the same time.
\<close>

subsection \<open>Device authorizations (\<^verbatim>\<open>internal/idp/device.go\<close>)\<close>

definition deviceGrantType :: string where "deviceGrantType = ''urn:ietf:params:oauth:grant-type:device_code''"
definition deviceCodeTTL :: int where "deviceCodeTTL = 10 * 60 * second_ns"
definition devicePollInterval :: int where "devicePollInterval = 5"
definition maxDeviceAuthorizations :: nat where "maxDeviceAuthorizations = 1024"
definition errDeviceCapacity :: error where "errDeviceCapacity = Errorf ''too many pending device authorizations''"

definition deviceStatusPending :: string where "deviceStatusPending = ''pending''"
definition deviceStatusApproved :: string where "deviceStatusApproved = ''approved''"
definition deviceStatusDenied :: string where "deviceStatusDenied = ''denied''"

record device_auth =
  dv_deviceCode :: string
  dv_userCode :: string
  dv_status :: string
  dv_subject :: string
  dv_roles :: "string list"
  dv_expiresAt :: time
  dv_lastPoll :: time
  dv_pollInterval :: int

definition zero_device :: device_auth where
  "zero_device = \<lparr>dv_deviceCode = [], dv_userCode = [], dv_status = [], dv_subject = [], dv_roles = [],
     dv_expiresAt = zero_time, dv_lastPoll = zero_time, dv_pollInterval = 0\<rparr>"

text \<open>
  Both maps of the store hold pointers to the same objects: an operation that finds an
  authorization by its user code changes what a poll finds by its device code. Objects
  live in \<open>ds_heap\<close>, a pointer is a position in it.
\<close>

record device_store =
  ds_heap :: "device_auth list"
  ds_byUser :: "(string \<times> nat) list"
  ds_byDevice :: "(string \<times> nat) list"

definition newDeviceStore :: device_store where
  "newDeviceStore = \<lparr>ds_heap = [], ds_byUser = [], ds_byDevice = []\<rparr>"

text \<open>JSON of the map by device code, a parameter.\<close>

record device_codec =
  dc_marshal :: "(string \<times> device_auth) list \<Rightarrow> bytes option"
  dc_unmarshal :: "bytes \<Rightarrow> (string \<times> device_auth) list option"

definition removeLocked :: "device_auth \<Rightarrow> device_store \<Rightarrow> device_store" where
  "removeLocked da d = d\<lparr>ds_byDevice := AList.delete (dv_deviceCode da) (ds_byDevice d),
     ds_byUser := AList.delete (dv_userCode da) (ds_byUser d)\<rparr>"

fun sweep :: "time \<Rightarrow> (string \<times> nat) list \<Rightarrow> device_store \<Rightarrow> device_store" where
  "sweep now [] d = d"
| "sweep now ((c, a) # rest) d =
     (if map_of (ds_byDevice d) c \<noteq> None \<and> \<not> dv_expiresAt (ds_heap d ! a) > now
      then sweep now rest (removeLocked (ds_heap d ! a) d) else sweep now rest d)"

text \<open>What a transaction sees of the shared store: the objects decoded from it, indexed by both codes.\<close>

definition loaded :: "(string \<times> device_auth) list \<Rightarrow> device_store" where
  "loaded m = \<lparr>ds_heap = map snd m,
     ds_byUser = fold (\<lambda>(a, da). AList.update (dv_userCode da) a) (zip [0..<length m] (map snd m)) [],
     ds_byDevice = zip (map fst m) [0..<length m]\<rparr>"

definition entries :: "device_store \<Rightarrow> (string \<times> device_auth) list" where
  "entries d = map (\<lambda>(c, a). (c, ds_heap d ! a)) (ds_byDevice d)"

definition load_devices :: "device_codec \<Rightarrow> bytes option \<Rightarrow> device_store option" where
  "load_devices codec old = (case old of
     None \<Rightarrow> Some newDeviceStore
   | Some v \<Rightarrow> if v = [] then Some newDeviceStore else map_option loaded (dc_unmarshal codec v))"

definition device_key :: string where "device_key = store_key ''idp'' ''device-authorizations''"

text \<open>
  One transaction. \<open>change\<close> is the closure: it may set the variables \<open>out\<close> it captures, report an
  error and change the maps. With a shared store it runs on the decoded contents and the result is
  swapped in; \<open>env\<close> is what other writers do to the store between the read and the swap of an
  attempt, \<open>clock\<close> the time of an attempt.
\<close>

type_synonym 'o change = "time \<Rightarrow> 'o \<Rightarrow> device_store \<Rightarrow> 'o \<times> error option \<times> device_store"

definition swept_change :: "'o change \<Rightarrow> time \<Rightarrow> 'o \<Rightarrow> device_store \<Rightarrow> 'o \<times> error option \<times> device_store" where
  "swept_change change now out d = change now out (sweep now (ds_byDevice d) d)"

definition transact_attempt ::
    "'w store_ops \<Rightarrow> device_codec \<Rightarrow> time \<Rightarrow> ('w \<Rightarrow> 'w) \<Rightarrow> 'o change \<Rightarrow> 'o \<Rightarrow> device_store \<Rightarrow> 'w \<Rightarrow>
      ('o \<times> error option \<times> device_store \<times> 'w) + ('o \<times> device_store \<times> 'w)" where
  "transact_attempt ops codec now env change out d w =
     (let got = st_get ops w device_key;
          old = (case got of Inl e \<Rightarrow> None | Inr v \<Rightarrow> Some v)
      in if (case got of Inl e \<Rightarrow> \<not> errors_is e ErrNotFound | Inr v \<Rightarrow> False)
         then Inl (out, Some (projl got), d, w)
         else case load_devices codec old of
           None \<Rightarrow> Inl (out, Some (Errorf ''json: unmarshal''), newDeviceStore, w)
         | Some d0 \<Rightarrow> (case swept_change change now out d0 of
             (out', Some e, d1) \<Rightarrow> Inl (out', Some e, d1, w)
           | (out', None, d1) \<Rightarrow> (case dc_marshal codec (entries d1) of
               None \<Rightarrow> Inl (out', Some (Errorf ''json: marshal''), d1, w)
             | Some data \<Rightarrow> (case st_cas ops (env w) device_key old data of
                 (Inl e, w') \<Rightarrow> Inl (out', Some e, d1, w')
               | (Inr True, w') \<Rightarrow> Inl (out', None, d1, w')
               | (Inr False, w') \<Rightarrow> Inr (out', d1, w')))))"

fun transact_loop ::
    "nat \<Rightarrow> 'w store_ops option \<Rightarrow> device_codec \<Rightarrow> (nat \<Rightarrow> time) \<Rightarrow> (nat \<Rightarrow> 'w \<Rightarrow> 'w) \<Rightarrow> 'o change \<Rightarrow> 'o \<Rightarrow>
      device_store \<Rightarrow> 'w \<Rightarrow> 'o \<times> error option \<times> device_store \<times> 'w" where
  "transact_loop 0 backend codec clock env change out d w =
     (out, Some (Errorf ''device authorizations: concurrent update limit exceeded''), d, w)"
| "transact_loop (Suc n) backend codec clock env change out d w = (case backend of
     None \<Rightarrow> (case swept_change change (clock n) out d of (out', err, d') \<Rightarrow> (out', err, d', w))
   | Some ops \<Rightarrow> (case transact_attempt ops codec (clock n) (env n) change out d w of
       Inl res \<Rightarrow> res
     | Inr (out', d', w') \<Rightarrow> transact_loop n backend codec clock env change out' d' w'))"

record 'w device_service =
  dvs_backend :: "'w store_ops option"
  dvs_codec :: device_codec
  dvs_ttl :: int

definition transact ::
    "'w device_service \<Rightarrow> (nat \<Rightarrow> time) \<Rightarrow> (nat \<Rightarrow> 'w \<Rightarrow> 'w) \<Rightarrow> 'o change \<Rightarrow> 'o \<Rightarrow> device_store \<Rightarrow> 'w \<Rightarrow>
      'o \<times> error option \<times> device_store \<times> 'w" where
  "transact s = transact_loop 16 (dvs_backend s) (dvs_codec s)"

subsubsection \<open>The operations\<close>

definition deviceCodeAlphabet :: string where
  "deviceCodeAlphabet = ''ABCDEFGHJKLMNPQRSTUVWXYZ23456789''"

definition generateUserCode :: "bytes option \<Rightarrow> string result" where
  "generateUserCode drawn = (case drawn of
     None \<Rightarrow> Inl (Errorf ''rand'')
   | Some b \<Rightarrow> let cs = map (\<lambda>x. deviceCodeAlphabet ! (unat x mod length deviceCodeAlphabet)) b
       in Inr (take 4 cs @ ''-'' @ drop 4 cs))"

definition generateDeviceCode :: "bytes option \<Rightarrow> string result" where
  "generateDeviceCode drawn = (case drawn of None \<Rightarrow> Inl (Errorf ''rand'') | Some b \<Rightarrow> Inr (hex_encode b))"

definition create_change :: "device_auth \<Rightarrow> unit change" where
  "create_change da now out d =
     (if length (ds_byDevice d) \<ge> maxDeviceAuthorizations then (out, Some errDeviceCapacity, d)
      else if map_of (ds_byUser d) (dv_userCode da) \<noteq> None
        then (out, Some (Errorf ''device user code collision; retry authorization''), d)
      else (out, None, d\<lparr>ds_heap := ds_heap d @ [da],
        ds_byDevice := AList.update (dv_deviceCode da) (length (ds_heap d)) (ds_byDevice d),
        ds_byUser := AList.update (dv_userCode da) (length (ds_heap d)) (ds_byUser d)\<rparr>))"

definition device_create ::
    "'w device_service \<Rightarrow> bytes option \<Rightarrow> bytes option \<Rightarrow> time \<Rightarrow> (nat \<Rightarrow> time) \<Rightarrow> (nat \<Rightarrow> 'w \<Rightarrow> 'w) \<Rightarrow> device_store \<Rightarrow> 'w \<Rightarrow>
      device_auth result \<times> device_store \<times> 'w" where
  "device_create s drawn1 drawn2 now clock env d w = (case generateUserCode drawn1 of
     Inl e \<Rightarrow> (Inl e, d, w)
   | Inr userCode \<Rightarrow> (case generateDeviceCode drawn2 of
       Inl e \<Rightarrow> (Inl e, d, w)
     | Inr deviceCode \<Rightarrow>
         let da = zero_device\<lparr>dv_deviceCode := deviceCode, dv_userCode := userCode, dv_status := deviceStatusPending,
               dv_expiresAt := now + dvs_ttl s\<rparr>
         in case transact s clock env (create_change da) () d w of
           (_, Some e, d', w') \<Rightarrow> (Inl e, d', w')
         | (_, None, d', w') \<Rightarrow> (Inr da, d', w')))"

text \<open>The closure of \<^verbatim>\<open>byDeviceCode\<close> does not reset what an earlier attempt found.\<close>

definition byDeviceCode_change :: "string \<Rightarrow> (device_auth \<times> bool) change" where
  "byDeviceCode_change code now out d = (case map_of (ds_byDevice d) code of
     None \<Rightarrow> (out, None, d)
   | Some a \<Rightarrow> ((ds_heap d ! a, True), None, d))"

definition byDeviceCode ::
    "'w device_service \<Rightarrow> (nat \<Rightarrow> time) \<Rightarrow> (nat \<Rightarrow> 'w \<Rightarrow> 'w) \<Rightarrow> string \<Rightarrow> device_store \<Rightarrow> 'w \<Rightarrow>
      (device_auth \<times> bool) \<times> device_store \<times> 'w" where
  "byDeviceCode s clock env code d w =
     (case transact s clock env (byDeviceCode_change code) (zero_device, False) d w of
        ((out, ok), err, d', w') \<Rightarrow> ((out, ok \<and> err = None), d', w'))"

definition resolve_change :: "(device_auth \<Rightarrow> device_auth) \<Rightarrow> string \<Rightarrow> bool change" where
  "resolve_change f code now out d = (case map_of (ds_byUser d) code of
     None \<Rightarrow> (False, None, d)
   | Some a \<Rightarrow>
       if dv_status (ds_heap d ! a) = deviceStatusPending
       then (True, None, d\<lparr>ds_heap := (ds_heap d)[a := f (ds_heap d ! a)]\<rparr>)
       else (False, None, d))"

definition approve_change :: "string \<Rightarrow> string \<Rightarrow> string list \<Rightarrow> bool change" where
  "approve_change code subject roles = resolve_change
     (\<lambda>da. da\<lparr>dv_status := deviceStatusApproved, dv_subject := subject, dv_roles := roles\<rparr>) code"

definition deny_change :: "string \<Rightarrow> bool change" where
  "deny_change code = resolve_change (\<lambda>da. da\<lparr>dv_status := deviceStatusDenied\<rparr>) code"

definition approve ::
    "'w device_service \<Rightarrow> (nat \<Rightarrow> time) \<Rightarrow> (nat \<Rightarrow> 'w \<Rightarrow> 'w) \<Rightarrow> string \<Rightarrow> string \<Rightarrow> string list \<Rightarrow> device_store \<Rightarrow> 'w \<Rightarrow>
      bool \<times> device_store \<times> 'w" where
  "approve s clock env code subject roles d w =
     (case transact s clock env (approve_change code subject roles) False d w of
        (approved, err, d', w') \<Rightarrow> (approved \<and> err = None, d', w'))"

definition deny ::
    "'w device_service \<Rightarrow> (nat \<Rightarrow> time) \<Rightarrow> (nat \<Rightarrow> 'w \<Rightarrow> 'w) \<Rightarrow> string \<Rightarrow> device_store \<Rightarrow> 'w \<Rightarrow> bool \<times> device_store \<times> 'w" where
  "deny s clock env code d w = (case transact s clock env (deny_change code) False d w of
     (denied, err, d', w') \<Rightarrow> (denied \<and> err = None, d', w'))"

definition delete_change :: "string \<Rightarrow> unit change" where
  "delete_change code now out d = (case map_of (ds_byDevice d) code of
     None \<Rightarrow> (out, None, d)
   | Some a \<Rightarrow> (out, None, removeLocked (ds_heap d ! a) d))"

definition device_delete ::
    "'w device_service \<Rightarrow> (nat \<Rightarrow> time) \<Rightarrow> (nat \<Rightarrow> 'w \<Rightarrow> 'w) \<Rightarrow> string \<Rightarrow> device_store \<Rightarrow> 'w \<Rightarrow> device_store \<times> 'w" where
  "device_delete s clock env code d w = (case transact s clock env (delete_change code) () d w of (_, _, d', w') \<Rightarrow> (d', w'))"

text \<open>
  A poll consumes a grant that is no longer pending, and slows a client down that polls a pending
  one too often.
\<close>

definition poll_change :: "string \<Rightarrow> (device_auth \<times> string) change" where
  "poll_change code now out d = (case map_of (ds_byDevice d) code of
     None \<Rightarrow> ((zero_device, ''expired_token''), None, d)
   | Some a \<Rightarrow>
       let da = ds_heap d ! a in
       if dv_status da = deviceStatusPending then
         (let da = (if dv_pollInterval da = 0 then da\<lparr>dv_pollInterval := devicePollInterval * second_ns\<rparr> else da) in
          if dv_lastPoll da \<noteq> zero_time \<and> time_sub now (dv_lastPoll da) < dv_pollInterval da
          then ((zero_device, ''slow_down''), None,
            d\<lparr>ds_heap := (ds_heap d)[a := da\<lparr>dv_pollInterval := i64 (dv_pollInterval da + 5 * second_ns), dv_lastPoll := now\<rparr>]\<rparr>)
          else ((da\<lparr>dv_lastPoll := now\<rparr>, []), None, d\<lparr>ds_heap := (ds_heap d)[a := da\<lparr>dv_lastPoll := now\<rparr>]\<rparr>))
       else ((da, []), None, removeLocked da d))"

definition poll ::
    "'w device_service \<Rightarrow> (nat \<Rightarrow> time) \<Rightarrow> (nat \<Rightarrow> 'w \<Rightarrow> 'w) \<Rightarrow> string \<Rightarrow> device_store \<Rightarrow> 'w \<Rightarrow>
      (device_auth \<times> string \<times> error option) \<times> device_store \<times> 'w" where
  "poll s clock env code d w = (case transact s clock env (poll_change code) (zero_device, []) d w of
     ((out, failure), err, d', w') \<Rightarrow> ((out, failure, err), d', w'))"

subsection \<open>The server (\<^verbatim>\<open>internal/idp/server.go\<close>, \<^verbatim>\<open>issuer.go\<close>)\<close>

text \<open>
  Signing is done by a library: \<open>is_sign\<close> is the signed form of the claims, or an error. The
  authenticator of the server is the JWT authenticator for the same key.
\<close>

record token_claims =
  tc_subject :: string
  tc_issuer :: string
  tc_issuedAt :: time
  tc_expiresAt :: time
  tc_roles :: "string list"

record issuer =
  is_sign :: "token_claims \<Rightarrow> string result"
  is_issuer :: string
  is_ttl :: int

definition Issue :: "issuer \<Rightarrow> time \<Rightarrow> string \<Rightarrow> string list \<Rightarrow> string result" where
  "Issue i now subject roles = (case is_sign i \<lparr>tc_subject = subject, tc_issuer = is_issuer i, tc_issuedAt = now,
       tc_expiresAt = now + is_ttl i, tc_roles = roles\<rparr> of
     Inl e \<Rightarrow> Inl (Wrap ''idp: sign token'' e)
   | Inr token \<Rightarrow> Inr token)"

text \<open>Whole seconds of a duration, as \<^verbatim>\<open>int(d.Seconds())\<close> gives them.\<close>

definition seconds :: "int \<Rightarrow> int" where
  "seconds d = (if d < 0 then - ((- d) div second_ns) else d div second_ns)"

record idp_server =
  sv_issuer :: issuer
  sv_clients :: smap
  sv_consoleURL :: string

datatype idp_body =
    ErrorReply string
  | TokenReply string string int
  | DeviceReply string string string string int int
  | IntrospectReply "(string \<times> string list) option"
  | UserInfoReply string "string list"
  | EmptyReply

record idp_response =
  ir_status :: nat
  ir_body :: idp_body

definition reply :: "nat \<Rightarrow> idp_body \<Rightarrow> idp_response" where
  "reply st b = \<lparr>ir_status = st, ir_body = b\<rparr>"

definition issue_reply :: "idp_server \<Rightarrow> time \<Rightarrow> string \<Rightarrow> string list \<Rightarrow> idp_response" where
  "issue_reply sv now subject roles = (case Issue (sv_issuer sv) now subject roles of
     Inl e \<Rightarrow> reply 500 (ErrorReply ''server_error'')
   | Inr token \<Rightarrow> reply 200 (TokenReply token ''Bearer'' (seconds (is_ttl (sv_issuer sv)))))"

definition validClient :: "idp_server \<Rightarrow> string \<Rightarrow> string \<Rightarrow> bool" where
  "validClient sv i secret = (case map_of (sv_clients sv) i of None \<Rightarrow> False | Some want \<Rightarrow> secret = want)"

definition clientCredentialsGrant :: "idp_server \<Rightarrow> time \<Rightarrow> smap \<Rightarrow> idp_response" where
  "clientCredentialsGrant sv now form =
     (let clientID = smap_get form ''client_id''; clientSecret = smap_get form ''client_secret'' in
      if \<not> validClient sv clientID clientSecret then reply 401 (ErrorReply ''invalid_client'')
      else issue_reply sv now clientID [])"

definition deviceGrant ::
    "idp_server \<Rightarrow> 'w device_service \<Rightarrow> time \<Rightarrow> (nat \<Rightarrow> time) \<Rightarrow> (nat \<Rightarrow> 'w \<Rightarrow> 'w) \<Rightarrow> smap \<Rightarrow> device_store \<Rightarrow> 'w \<Rightarrow>
      idp_response \<times> device_store \<times> 'w" where
  "deviceGrant sv s now clock env form d w =
     (let deviceCode = smap_get form ''device_code'' in
      if deviceCode = [] then (reply 400 (ErrorReply ''invalid_request''), d, w)
      else case poll s clock env deviceCode d w of ((da, failure, err), d', w') \<Rightarrow>
        (if err \<noteq> None then reply 503 (ErrorReply ''temporarily_unavailable'')
         else if failure \<noteq> [] then reply 400 (ErrorReply failure)
         else if dv_status da = deviceStatusPending then reply 400 (ErrorReply ''authorization_pending'')
         else if dv_status da = deviceStatusDenied then reply 400 (ErrorReply ''access_denied'')
         else if dv_status da = deviceStatusApproved then issue_reply sv now (dv_subject da) (dv_roles da)
         else reply 200 EmptyReply, d', w'))"

text \<open>The form is absent when it does not parse.\<close>

definition token_endpoint ::
    "idp_server \<Rightarrow> 'w device_service \<Rightarrow> time \<Rightarrow> (nat \<Rightarrow> time) \<Rightarrow> (nat \<Rightarrow> 'w \<Rightarrow> 'w) \<Rightarrow> smap option \<Rightarrow> device_store \<Rightarrow> 'w \<Rightarrow>
      idp_response \<times> device_store \<times> 'w" where
  "token_endpoint sv s now clock env form d w = (case form of
     None \<Rightarrow> (reply 400 (ErrorReply ''invalid_request''), d, w)
   | Some f \<Rightarrow>
       let grant = smap_get f ''grant_type'' in
       if grant = [] \<or> grant = ''client_credentials'' then (clientCredentialsGrant sv now f, d, w)
       else if grant = deviceGrantType then deviceGrant sv s now clock env f d w
       else (reply 400 (ErrorReply ''unsupported_grant_type''), d, w))"

definition login ::
    "idp_server \<Rightarrow> bcrypt \<Rightarrow> time \<Rightarrow> ('w, user_spec, user_status) registry \<Rightarrow> (string \<times> string) option \<Rightarrow> 'w \<Rightarrow> idp_response" where
  "login sv bc now users body w = (case body of
     None \<Rightarrow> reply 400 (ErrorReply ''invalid_request'')
   | Some (username, password) \<Rightarrow> (case Authenticate bc users username password w of
       Inl e \<Rightarrow> if errors_is e ErrInvalidCredentials then reply 401 (ErrorReply ''invalid_grant'')
         else reply 500 (ErrorReply ''server_error'')
     | Inr usr \<Rightarrow> issue_reply sv now (uid_of usr) (us_roles (spec usr))))"

text \<open>\<^verbatim>\<open>url.QueryEscape\<close>.\<close>

definition query_escape :: "string \<Rightarrow> string" where
  "query_escape s = concat (map (\<lambda>c.
     if is_letter c \<or> is_digit c \<or> c \<in> {CHR ''-'', CHR ''_'', CHR ''.'', CHR ''~''} then [c]
     else if c = CHR '' '' then ''+''
     else [CHR ''%'', ''0123456789ABCDEF'' ! (of_char c div 16), ''0123456789ABCDEF'' ! (of_char c mod 16)]) s)"

definition deviceAuthorization ::
    "idp_server \<Rightarrow> 'w device_service \<Rightarrow> bytes option \<Rightarrow> bytes option \<Rightarrow> time \<Rightarrow> (nat \<Rightarrow> time) \<Rightarrow> (nat \<Rightarrow> 'w \<Rightarrow> 'w) \<Rightarrow>
      device_store \<Rightarrow> 'w \<Rightarrow> idp_response \<times> device_store \<times> 'w" where
  "deviceAuthorization sv s drawn1 drawn2 now clock env d w = (case device_create s drawn1 drawn2 now clock env d w of
     (Inl e, d', w') \<Rightarrow> (if errors_is e errDeviceCapacity then reply 429 (ErrorReply ''temporarily_unavailable'')
        else reply 500 (ErrorReply ''server_error''), d', w')
   | (Inr da, d', w') \<Rightarrow>
       let uri = sv_consoleURL sv @ ''/device'' in
       (reply 200 (DeviceReply (dv_deviceCode da) (dv_userCode da) uri (uri @ ''?user_code='' @ query_escape (dv_userCode da))
          (seconds deviceCodeTTL) devicePollInterval), d', w'))"

definition deviceVerify ::
    "'w device_service \<Rightarrow> (nat \<Rightarrow> time) \<Rightarrow> (nat \<Rightarrow> 'w \<Rightarrow> 'w) \<Rightarrow> identity option \<Rightarrow> (string \<times> bool) option \<Rightarrow> device_store \<Rightarrow> 'w \<Rightarrow>
      idp_response \<times> device_store \<times> 'w" where
  "deviceVerify s clock env ident body d w = (case ident of
     None \<Rightarrow> (reply 401 (ErrorReply ''invalid_token''), d, w)
   | Some i \<Rightarrow> (case body of
       None \<Rightarrow> (reply 400 (ErrorReply ''invalid_request''), d, w)
     | Some (userCode, app) \<Rightarrow>
         (case (if app then approve s clock env userCode (id_subject i) (id_roles i) d w else deny s clock env userCode d w) of
            (resolved, d', w') \<Rightarrow>
              (if \<not> resolved then reply 404 (ErrorReply ''not_found'') else reply 204 EmptyReply, d', w'))))"

definition introspect_endpoint ::
    "idp_server \<Rightarrow> time \<Rightarrow> ('w, access_token_spec, access_token_status) registry \<Rightarrow> ('w, user_spec, user_status) registry \<Rightarrow>
      (string \<times> string) option \<Rightarrow> smap option \<Rightarrow> 'w \<Rightarrow> idp_response" where
  "introspect_endpoint sv now tokens users basic form w =
     (if (case basic of None \<Rightarrow> True | Some (i, secret) \<Rightarrow> \<not> validClient sv i secret) then reply 401 (ErrorReply ''invalid_client'')
      else case form of
        None \<Rightarrow> reply 400 (ErrorReply ''invalid_request'')
      | Some f \<Rightarrow> (case Introspect now tokens users (smap_get f ''token'') w of
          Inl e \<Rightarrow> reply 200 (IntrospectReply None)
        | Inr sr \<Rightarrow> reply 200 (IntrospectReply (Some sr))))"

definition userinfo :: "identity option \<Rightarrow> idp_response" where
  "userinfo ident = (case ident of
     None \<Rightarrow> reply 401 (ErrorReply ''invalid_token'')
   | Some i \<Rightarrow> reply 200 (UserInfoReply (id_subject i) (id_roles i)))"

definition publicPaths :: "string list" where
  "publicPaths = [''/token'', ''/login'', ''/device_authorization'', ''/introspect'', ''/jwks.json'',
     ''/.well-known/openid-configuration'', ''/healthz'']"

text \<open>The guard in front of the routes: public paths see no identity, the others one that was authenticated.\<close>

definition idp_Handler ::
    "authenticator \<Rightarrow> (identity option \<Rightarrow> 'q \<Rightarrow> 'r) \<Rightarrow> ('q \<Rightarrow> 'r) \<Rightarrow> string \<Rightarrow> string \<Rightarrow> 'q \<Rightarrow> 'r" where
  "idp_Handler authn mux unauthorized path header q =
     (if path \<in> set publicPaths then mux None q else Middleware authn mux unauthorized header q)"

subsection \<open>The authorizations by device code\<close>

definition dev_ok :: "device_store \<Rightarrow> bool" where
  "dev_ok d = (distinct (map fst (ds_byDevice d)) \<and>
     (\<forall>c a. map_of (ds_byDevice d) c = Some a \<longrightarrow> a < length (ds_heap d) \<and> dv_deviceCode (ds_heap d ! a) = c \<and>
        map_of (ds_byUser d) (dv_userCode (ds_heap d ! a)) = Some a) \<and>
     (\<forall>u a. map_of (ds_byUser d) u = Some a \<longrightarrow> a < length (ds_heap d) \<and> dv_userCode (ds_heap d ! a) = u))"

definition dev_view :: "device_store \<Rightarrow> string \<Rightarrow> device_auth option" where
  "dev_view d c = map_option (\<lambda>a. ds_heap d ! a) (map_of (ds_byDevice d) c)"

lemma dev_okD:
  assumes "dev_ok d" "map_of (ds_byDevice d) c = Some a"
  shows "a < length (ds_heap d)" "dv_deviceCode (ds_heap d ! a) = c" "map_of (ds_byUser d) (dv_userCode (ds_heap d ! a)) = Some a"
  using assms by (auto simp: dev_ok_def)

lemma dev_okI:
  assumes "distinct (map fst (ds_byDevice d))"
    and "\<And>c a. map_of (ds_byDevice d) c = Some a \<Longrightarrow> a < length (ds_heap d) \<and> dv_deviceCode (ds_heap d ! a) = c \<and>
        map_of (ds_byUser d) (dv_userCode (ds_heap d ! a)) = Some a"
    and "\<And>u a. map_of (ds_byUser d) u = Some a \<Longrightarrow> a < length (ds_heap d) \<and> dv_userCode (ds_heap d ! a) = u"
  shows "dev_ok d"
  using assms by (simp add: dev_ok_def)

lemma dev_ok_user: "dev_ok d \<Longrightarrow> map_of (ds_byUser d) u = Some a \<Longrightarrow> a < length (ds_heap d) \<and> dv_userCode (ds_heap d ! a) = u"
  by (auto simp: dev_ok_def)

lemma dev_ok_new [simp]: "dev_ok newDeviceStore" "dev_view newDeviceStore = Map.empty"
  by (auto simp: dev_ok_def newDeviceStore_def dev_view_def)

lemma removeLocked_ok:
  assumes "dev_ok d" "map_of (ds_byDevice d) c = Some a"
  shows "dev_ok (removeLocked (ds_heap d ! a) d)" "dev_view (removeLocked (ds_heap d ! a) d) = (dev_view d)(c := None)"
    "ds_heap (removeLocked (ds_heap d ! a) d) = ds_heap d"
proof -
  note a = dev_okD [OF assms]
  have "dv_userCode (ds_heap d ! b) \<noteq> dv_userCode (ds_heap d ! a)" if "map_of (ds_byDevice d) e = Some b" "e \<noteq> c" for e b
    using dev_okD(2,3) [OF assms(1) that(1)] a(2,3) that(2) by (metis option.inject)
  then show "dev_ok (removeLocked (ds_heap d ! a) d)"
    using assms(1) unfolding dev_ok_def removeLocked_def
    by (simp add: delete_conv' AList.distinct_delete a(2))
  show "dev_view (removeLocked (ds_heap d ! a) d) = (dev_view d)(c := None)"
    by (auto simp: dev_view_def removeLocked_def delete_conv' a(2))
  show "ds_heap (removeLocked (ds_heap d ! a) d) = ds_heap d" by (simp add: removeLocked_def)
qed

lemma sweep_loop:
  assumes "dev_ok d" "\<forall>c a. (c, a) \<in> set l \<longrightarrow> map_of (ds_byDevice d) c \<in> {Some a, None}" "distinct (map fst l)"
  shows "dev_ok (sweep now l d) \<and> ds_heap (sweep now l d) = ds_heap d \<and>
    dev_view (sweep now l d) = (\<lambda>c. case dev_view d c of
       None \<Rightarrow> None | Some da \<Rightarrow> if c \<in> fst ` set l \<and> \<not> dv_expiresAt da > now then None else Some da)"
  using assms
proof (induction now l d rule: sweep.induct)
  case (1 now d)
  then show ?case by (auto simp: fun_eq_iff split: option.splits)
next
  case (2 now c a rest d)
  show ?case
  proof (cases "map_of (ds_byDevice d) c \<noteq> None \<and> \<not> dv_expiresAt (ds_heap d ! a) > now")
    case True
    then have c: "map_of (ds_byDevice d) c = Some a" using "2.prems"(2) by auto
    note rem = removeLocked_ok [OF "2.prems"(1) c]
    have "map_of (ds_byDevice (removeLocked (ds_heap d ! a) d)) e = (if e = c then None else map_of (ds_byDevice d) e)" for e
      using dev_okD(2) [OF "2.prems"(1) c] by (auto simp: removeLocked_def delete_conv')
    then have "\<forall>e b. (e, b) \<in> set rest \<longrightarrow> map_of (ds_byDevice (removeLocked (ds_heap d ! a) d)) e \<in> {Some b, None}"
      using "2.prems"(2) by simp
    moreover have "dev_view d c = Some (ds_heap d ! a)" using c by (simp add: dev_view_def)
    ultimately show ?thesis using "2.IH"(1) [OF True rem(1)] "2.prems"(3) rem(2,3) True
      by (auto simp: fun_eq_iff split: option.splits)
  next
    case False
    have "dev_view d c = None \<or> dev_view d c = Some (ds_heap d ! a) \<and> dv_expiresAt (ds_heap d ! a) > now"
      using "2.prems"(2) False by (auto simp: dev_view_def)
    then show ?thesis using "2.IH"(2) [OF False "2.prems"(1)] "2.prems"(2,3) False
      by (auto simp: fun_eq_iff split: option.splits)
  qed
qed

definition unexpired :: "time \<Rightarrow> (string \<Rightarrow> device_auth option) \<Rightarrow> string \<Rightarrow> device_auth option" where
  "unexpired now m c = (case m c of None \<Rightarrow> None | Some da \<Rightarrow> if dv_expiresAt da > now then Some da else None)"

lemma sweep_ok:
  assumes "dev_ok d"
  shows "dev_ok (sweep now (ds_byDevice d) d)" "dev_view (sweep now (ds_byDevice d) d) = unexpired now (dev_view d)"
proof -
  have "\<forall>c a. (c, a) \<in> set (ds_byDevice d) \<longrightarrow> map_of (ds_byDevice d) c \<in> {Some a, None}"
    using assms by (auto simp: dev_ok_def)
  note l = sweep_loop [OF assms this]
  have d: "distinct (map fst (ds_byDevice d))" using assms by (simp add: dev_ok_def)
  from l [OF d] show "dev_ok (sweep now (ds_byDevice d) d)" by blast
  have "dev_view d c = Some da \<Longrightarrow> c \<in> fst ` set (ds_byDevice d)" for c da
    by (force simp: dev_view_def dest: map_of_SomeD)
  with l [OF d] show "dev_view (sweep now (ds_byDevice d) d) = unexpired now (dev_view d)"
    by (auto simp: unexpired_def fun_eq_iff split: option.splits)
qed

text \<open>Each closure in terms of the authorizations by device code.\<close>

lemma create_change_ok:
  assumes "dev_ok d" "create_change da now out d = (out', err, d')"
  shows "dev_ok d'" "dev_view d' = (if err = None then (dev_view d)(dv_deviceCode da \<mapsto> da) else dev_view d)"
proof -
  have *: "dev_ok d' \<and> dev_view d' = (if err = None then (dev_view d)(dv_deviceCode da \<mapsto> da) else dev_view d)"
  proof (cases "err = None")
    case False
    with assms show ?thesis by (auto simp: create_change_def split: if_splits)
  next
    case True
    with assms(2) have new: "map_of (ds_byUser d) (dv_userCode da) = None"
      and d': "d' = d\<lparr>ds_heap := ds_heap d @ [da],
        ds_byDevice := AList.update (dv_deviceCode da) (length (ds_heap d)) (ds_byDevice d),
        ds_byUser := AList.update (dv_userCode da) (length (ds_heap d)) (ds_byUser d)\<rparr>"
      by (auto simp: create_change_def split: if_splits)
    have "dv_userCode (ds_heap d ! a) \<noteq> dv_userCode da" if "map_of (ds_byDevice d) c = Some a" for c a
      using dev_okD(3) [OF assms(1) that] new by auto
    note codes = this
    have "dev_ok d'"
    proof (rule dev_okI)
      show "distinct (map fst (ds_byDevice d'))" using assms(1) by (simp add: d' dev_ok_def AList.distinct_update)
    next
      fix c a
      assume "map_of (ds_byDevice d') c = Some a"
      then have "((map_of (ds_byDevice d))(dv_deviceCode da \<mapsto> length (ds_heap d))) c = Some a"
        unfolding d' by (simp add: update_conv')
      then consider "c = dv_deviceCode da" "a = length (ds_heap d)" | "map_of (ds_byDevice d) c = Some a"
        by (cases "c = dv_deviceCode da") simp_all
      then show "a < length (ds_heap d') \<and> dv_deviceCode (ds_heap d' ! a) = c \<and>
          map_of (ds_byUser d') (dv_userCode (ds_heap d' ! a)) = Some a"
      proof cases
        case 1
        then show ?thesis by (simp add: d' update_conv')
      next
        case 2
        with dev_okD [OF assms(1) 2] codes [OF 2] show ?thesis by (simp add: d' update_conv' nth_append)
      qed
    next
      fix u a
      assume "map_of (ds_byUser d') u = Some a"
      then show "a < length (ds_heap d') \<and> dv_userCode (ds_heap d' ! a) = u"
        using dev_ok_user [OF assms(1), of u a] by (auto simp: d' update_conv' nth_append split: if_splits)
    qed
    moreover have "dev_view d' = (dev_view d)(dv_deviceCode da \<mapsto> da)"
      using dev_okD(1) [OF assms(1)]
      by (auto simp: dev_view_def d' update_conv' nth_append fun_eq_iff map_option_case split: option.split)
    ultimately show ?thesis using True by simp
  qed
  then show "dev_ok d'" "dev_view d' = (if err = None then (dev_view d)(dv_deviceCode da \<mapsto> da) else dev_view d)"
    by simp_all
qed

lemma heap_update_ok:
  assumes "dev_ok d" "dv_deviceCode x = dv_deviceCode (ds_heap d ! a)" "dv_userCode x = dv_userCode (ds_heap d ! a)"
  shows "dev_ok (d\<lparr>ds_heap := (ds_heap d)[a := x]\<rparr>)"
    "dev_view (d\<lparr>ds_heap := (ds_heap d)[a := x]\<rparr>) = (\<lambda>c. if map_of (ds_byDevice d) c = Some a then Some x else dev_view d c)"
proof -
  have "dv_deviceCode ((ds_heap d)[a := x] ! b) = dv_deviceCode (ds_heap d ! b) \<and>
      dv_userCode ((ds_heap d)[a := x] ! b) = dv_userCode (ds_heap d ! b)" for b
    using assms(2,3) by (cases "a < length (ds_heap d)"; cases "b = a") (simp_all add: list_update_beyond)
  then show "dev_ok (d\<lparr>ds_heap := (ds_heap d)[a := x]\<rparr>)"
    using assms(1) unfolding dev_ok_def by simp
  show "dev_view (d\<lparr>ds_heap := (ds_heap d)[a := x]\<rparr>) = (\<lambda>c. if map_of (ds_byDevice d) c = Some a then Some x else dev_view d c)"
    using dev_okD(1) [OF assms(1)] by (auto simp: dev_view_def fun_eq_iff map_option_case split: option.split)
qed

lemma resolve_change_ok:
  assumes "dev_ok d" "resolve_change f code now out d = (out', err, d')"
    and "\<And>da. dv_deviceCode (f da) = dv_deviceCode da \<and> dv_userCode (f da) = dv_userCode da"
  shows "dev_ok d'" "err = None"
    "dev_view d' c = (case dev_view d c of None \<Rightarrow> None
       | Some da \<Rightarrow> Some (if out' \<and> dv_userCode da = code then f da else da))"
    "dev_view d c = Some da \<Longrightarrow> dv_userCode da = code \<Longrightarrow> out' = (dv_status da = deviceStatusPending)"
proof -
  show "err = None" using assms(2) by (auto simp: resolve_change_def split: option.splits if_splits)
  have found: "map_of (ds_byUser d) code = Some a \<longleftrightarrow> dv_userCode da = code"
    if "map_of (ds_byDevice d) c = Some a" "da = ds_heap d ! a" for c a da
    using dev_okD(3) [OF assms(1) that(1)] dev_ok_user [OF assms(1), of code a] that(2) by auto
  show "dev_ok d'"
    using assms heap_update_ok(1) [OF assms(1)] by (auto simp: resolve_change_def split: option.splits if_splits)
  show "out' = (dv_status da = deviceStatusPending)" if v: "dev_view d c = Some da" "dv_userCode da = code" for c da
  proof -
    from v(1) obtain a where a: "map_of (ds_byDevice d) c = Some a" "da = ds_heap d ! a" by (auto simp: dev_view_def)
    have "map_of (ds_byUser d) code = Some a" using found [OF a] v(2) by simp
    with a(2) assms(2) show ?thesis by (auto simp: resolve_change_def split: if_splits)
  qed
  show "dev_view d' c = (case dev_view d c of None \<Rightarrow> None
       | Some da \<Rightarrow> Some (if out' \<and> dv_userCode da = code then f da else da))"
  proof (cases out')
    case False
    with assms(2) have "d' = d" by (auto simp: resolve_change_def split: option.splits if_splits)
    with False show ?thesis by (auto split: option.splits)
  next
    case True
    with assms(2) obtain a where a: "map_of (ds_byUser d) code = Some a" "d' = d\<lparr>ds_heap := (ds_heap d)[a := f (ds_heap d ! a)]\<rparr>"
      by (auto simp: resolve_change_def split: option.splits if_splits)
    have "dev_view d' c = (if map_of (ds_byDevice d) c = Some a then Some (f (ds_heap d ! a)) else dev_view d c)"
      unfolding a(2) using heap_update_ok(2) [OF assms(1), of "f (ds_heap d ! a)" a] assms(3) by simp
    then show ?thesis using found [of c] True a(1) by (auto simp: dev_view_def split: option.splits)
  qed
qed

text \<open>A poll of a pending authorization touches only what paces the client.\<close>

definition same_grant :: "device_auth \<Rightarrow> device_auth \<Rightarrow> bool" where
  "same_grant x y = (dv_deviceCode x = dv_deviceCode y \<and> dv_userCode x = dv_userCode y \<and> dv_status x = dv_status y \<and>
     dv_subject x = dv_subject y \<and> dv_roles x = dv_roles y \<and> dv_expiresAt x = dv_expiresAt y)"

lemma poll_change_ok:
  assumes "dev_ok d" "poll_change code now out d = ((da', failure), err, d')"
  shows "dev_ok d' \<and> err = None \<and> (case dev_view d code of
      None \<Rightarrow> failure = ''expired_token'' \<and> dev_view d' = dev_view d
    | Some da \<Rightarrow>
        if dv_status da = deviceStatusPending
        then \<exists>x. same_grant x da \<and> dev_view d' = (dev_view d)(code \<mapsto> x) \<and> (failure = [] \<longrightarrow> da' = x)
        else da' = da \<and> failure = [] \<and> dev_view d' = (dev_view d)(code := None))"
proof (cases "map_of (ds_byDevice d) code")
  case None
  with assms show ?thesis by (auto simp: poll_change_def dev_view_def)
next
  case (Some a)
  let ?da = "ds_heap d ! a"
  note a = dev_okD [OF assms(1) Some]
  have v: "dev_view d code = Some ?da" using Some by (simp add: dev_view_def)
  show ?thesis
  proof (cases "dv_status ?da = deviceStatusPending")
    case False
    with Some assms(2) have "da' = ?da" "failure = []" "err = None" "d' = removeLocked ?da d"
      by (auto simp: poll_change_def Let_def)
    with False removeLocked_ok(1,2) [OF assms(1) Some] v show ?thesis by simp
  next
    case True
    then obtain x where d': "d' = d\<lparr>ds_heap := (ds_heap d)[a := x]\<rparr>"
        "err = None" "failure = [] \<longrightarrow> da' = x" "same_grant x ?da"
      using Some assms(2) by (auto simp: poll_change_def same_grant_def Let_def split: if_splits)
    have "map_of (ds_byDevice d) c = Some a \<longleftrightarrow> c = code" for c
      using Some a(2) dev_okD(2) [OF assms(1), of c a] by auto
    then have "dev_view d' = (dev_view d)(code \<mapsto> x)"
      using heap_update_ok(2) [OF assms(1), of x a] d'(4) by (simp add: d'(1) fun_upd_def same_grant_def)
    with v True d' heap_update_ok(1) [OF assms(1), of x a] show ?thesis by (auto simp: same_grant_def)
  qed
qed

lemma delete_change_ok:
  assumes "dev_ok d" "delete_change code now out d = (out', err, d')"
  shows "dev_ok d'" "dev_view d' = (dev_view d)(code := None)"
  using assms removeLocked_ok(1,2) [OF assms(1), of code]
  by (auto simp: delete_change_def dev_view_def split: option.splits)

text \<open>Without a shared store a transaction is one run of its closure.\<close>

lemma transact_memory:
  "dvs_backend s = None \<Longrightarrow> transact s clock env change out d w =
    (case swept_change change (clock 15) out d of (out', err, d') \<Rightarrow> (out', err, d', w))"
  by (simp add: transact_def eval_nat_numeral)

subsection \<open>Who can get a token\<close>

text \<open>
  What happens to a store of device authorizations: the operations in any order, each at any
  time, with the noteworthy answers logged, the newest first. At any point another instance may
  take over with a copy of the authorizations.
\<close>

datatype dev_event =
    Created device_auth
  | Approved string string "string list"
  | Issued string string "string list" time

inductive dev_reach :: "'w device_service \<Rightarrow> device_store \<Rightarrow> dev_event list \<Rightarrow> bool" for s where
  start: "dev_reach s newDeviceStore []"
| create: "dev_reach s d log \<Longrightarrow> device_create s drawn1 drawn2 now clock env d w = (r, d', w') \<Longrightarrow>
    dev_reach s d' (case r of Inl e \<Rightarrow> log | Inr da \<Rightarrow> Created da # log)"
| approve: "dev_reach s d log \<Longrightarrow> approve s clock env code subject roles d w = (ok, d', w') \<Longrightarrow>
    dev_reach s d' (if ok then Approved code subject roles # log else log)"
| deny: "dev_reach s d log \<Longrightarrow> deny s clock env code d w = (ok, d', w') \<Longrightarrow> dev_reach s d' log"
| remove: "dev_reach s d log \<Longrightarrow> device_delete s clock env code d w = (d', w') \<Longrightarrow> dev_reach s d' log"
| look: "dev_reach s d log \<Longrightarrow> byDeviceCode s clock env code d w = (out, d', w') \<Longrightarrow> dev_reach s d' log"
| poll: "dev_reach s d log \<Longrightarrow> poll s clock env code d w = ((da, failure, err), d', w') \<Longrightarrow>
    dev_reach s d' (if err = None \<and> failure = [] \<and> dv_status da = deviceStatusApproved
      then Issued code (dv_subject da) (dv_roles da) (clock 15) # log else log)"
| copy: "dev_reach s d log \<Longrightarrow> dev_ok d' \<Longrightarrow> dev_view d' = dev_view d \<Longrightarrow> dev_reach s d' log"

definition unissued :: "string \<Rightarrow> dev_event list \<Rightarrow> bool" where
  "unissued c x = (\<forall>e\<in>set x. case e of Issued c' _ _ _ \<Rightarrow> c' \<noteq> c | _ \<Rightarrow> True)"

definition traced :: "dev_event list \<Rightarrow> string \<Rightarrow> device_auth \<Rightarrow> bool" where
  "traced log c da = (\<exists>x da0 z. log = x @ Created da0 # z \<and> dv_deviceCode da0 = c \<and>
     dv_userCode da0 = dv_userCode da \<and> dv_expiresAt da0 = dv_expiresAt da \<and> unissued c x \<and>
     (dv_status da = deviceStatusApproved \<longrightarrow> Approved (dv_userCode da) (dv_subject da) (dv_roles da) \<in> set x))"

definition authorized :: "string \<Rightarrow> string \<Rightarrow> string list \<Rightarrow> time \<Rightarrow> dev_event list \<Rightarrow> bool" where
  "authorized c subject roles t log = (\<exists>x da z. log = x @ Created da # z \<and> dv_deviceCode da = c \<and> t < dv_expiresAt da \<and>
     unissued c x \<and> Approved (dv_userCode da) subject roles \<in> set x)"

fun issued_ok :: "dev_event list \<Rightarrow> bool" where
  "issued_ok [] = True"
| "issued_ok (Issued c subject roles t # log) = (authorized c subject roles t log \<and> issued_ok log)"
| "issued_ok (e # log) = issued_ok log"

definition dev_inv :: "device_store \<Rightarrow> dev_event list \<Rightarrow> bool" where
  "dev_inv d log = (dev_ok d \<and> (\<forall>c da. dev_view d c = Some da \<longrightarrow> traced log c da) \<and> issued_ok log)"

lemma issued_ok_split: "issued_ok (l2 @ Issued c subject roles t # l1) \<Longrightarrow> authorized c subject roles t l1"
  by (induction l2 rule: issued_ok.induct) auto

lemma traced_later: "traced log c da \<Longrightarrow> unissued c [e] \<Longrightarrow> traced (e # log) c da"
  unfolding traced_def unissued_def by (metis (no_types, lifting) append_Cons list.set_intros(1,2) set_ConsD)

lemma traced_same:
  "traced log c da \<Longrightarrow> dv_userCode da' = dv_userCode da \<Longrightarrow> dv_expiresAt da' = dv_expiresAt da \<Longrightarrow>
   dv_status da' \<noteq> deviceStatusApproved \<or>
     dv_status da' = dv_status da \<and> dv_subject da' = dv_subject da \<and> dv_roles da' = dv_roles da \<Longrightarrow> traced log c da'"
  unfolding traced_def by (elim exE conjE, intro exI conjI, assumption+) auto

lemma dev_inv_step:
  assumes "dev_inv d log" "dev_ok d'"
    and "\<And>c da'. dev_view d' c = Some da' \<Longrightarrow> \<exists>da. dev_view d c = Some da \<and> dv_userCode da' = dv_userCode da \<and>
      dv_expiresAt da' = dv_expiresAt da \<and> (dv_status da' \<noteq> deviceStatusApproved \<or>
        dv_status da' = dv_status da \<and> dv_subject da' = dv_subject da \<and> dv_roles da' = dv_roles da)"
  shows "dev_inv d' log"
  using assms traced_same unfolding dev_inv_def by metis

lemma dev_inv_sweep: "dev_inv d log \<Longrightarrow> dev_inv (sweep now (ds_byDevice d) d) log"
  using sweep_ok [of d now]
  by (rule_tac dev_inv_step) (auto simp: dev_inv_def unexpired_def split: option.splits if_splits)

lemma dev_inv_create:
  assumes "dev_inv d log" "create_change da now out d = (out', err, d')" "dv_status da = deviceStatusPending"
  shows "dev_inv d' (if err = None then Created da # log else log)"
proof -
  have ok: "dev_ok d" and tr: "\<And>c x. dev_view d c = Some x \<Longrightarrow> traced log c x" and iss: "issued_ok log"
    using assms(1) by (auto simp: dev_inv_def)
  note cr = create_change_ok [OF ok assms(2)]
  have "traced (Created da # log) (dv_deviceCode da) da"
    unfolding traced_def by (rule exI [of _ "[]"]) (auto simp: unissued_def assms(3) deviceStatusPending_def deviceStatusApproved_def)
  moreover have "traced (Created da # log) c x" if "dev_view d c = Some x" for c x
    using traced_later [OF tr [OF that]] by (simp add: unissued_def)
  ultimately show ?thesis
    using cr tr iss by (auto simp: dev_inv_def split: if_splits)
qed

lemma dev_inv_resolve:
  assumes "dev_inv d log" "resolve_change f code now out d = (out', err, d')"
    and f: "\<And>da. dv_deviceCode (f da) = dv_deviceCode da \<and> dv_userCode (f da) = dv_userCode da \<and> dv_expiresAt (f da) = dv_expiresAt da"
    and "\<And>da. dv_status (f da) = deviceStatusApproved \<Longrightarrow> out' \<Longrightarrow> e = Approved code (dv_subject (f da)) (dv_roles (f da))"
    and "\<And>c. unissued c [e]"
  shows "dev_inv d' (if out' then e # log else log)"
proof -
  have ok: "dev_ok d" and tr: "\<And>c x. dev_view d c = Some x \<Longrightarrow> traced log c x" and iss: "issued_ok log"
    using assms(1) by (auto simp: dev_inv_def)
  note re = resolve_change_ok [OF ok assms(2)] f
  have "traced (if out' then e # log else log) c y" if y: "dev_view d' c = Some y" for c y
  proof -
    from y re(3) [of c] f obtain x where x: "dev_view d c = Some x"
        "y = (if out' \<and> dv_userCode x = code then f x else x)"
      by (auto split: option.splits)
    from tr [OF x(1)] obtain l da0 z where
      t: "log = l @ Created da0 # z" "dv_deviceCode da0 = c" "dv_userCode da0 = dv_userCode x"
        "dv_expiresAt da0 = dv_expiresAt x" "unissued c l"
        "dv_status x = deviceStatusApproved \<longrightarrow> Approved (dv_userCode x) (dv_subject x) (dv_roles x) \<in> set l"
      unfolding traced_def by blast
    show ?thesis
    proof (cases out')
      case False
      with x tr show ?thesis by simp
    next
      case True
      have "traced (e # log) c y"
        unfolding traced_def
      proof (intro exI conjI)
        show "e # log = (e # l) @ Created da0 # z" using t(1) by simp
        show "unissued c (e # l)" using assms(5) [of c] t(5) by (auto simp: unissued_def)
        show "dv_status y = deviceStatusApproved \<longrightarrow> Approved (dv_userCode y) (dv_subject y) (dv_roles y) \<in> set (e # l)"
          using x(2) t(6) True assms(4) [of x] f [of x] by auto
      qed (use x(2) t f in auto)
      with True show ?thesis by simp
    qed
  qed
  moreover have "issued_ok (e # log)" using iss assms(5) by (cases e) (auto simp: unissued_def)
  ultimately show ?thesis using re(1) iss f by (auto simp: dev_inv_def)
qed

lemma dev_inv_poll:
  assumes "dev_inv d log" "poll_change code now out d = ((da, failure), err, d')" "\<And>c x. dev_view d c = Some x \<Longrightarrow> now < dv_expiresAt x"
  shows "dev_inv d' (if err = None \<and> failure = [] \<and> dv_status da = deviceStatusApproved
    then Issued code (dv_subject da) (dv_roles da) now # log else log)"
proof -
  have ok: "dev_ok d" and tr: "\<And>c x. dev_view d c = Some x \<Longrightarrow> traced log c x" and iss: "issued_ok log"
    using assms(1) by (auto simp: dev_inv_def)
  note po = poll_change_ok [OF ok assms(2)]
  have ne: "deviceStatusPending \<noteq> deviceStatusApproved" by (simp add: deviceStatusPending_def deviceStatusApproved_def)
  show ?thesis
  proof (cases "dev_view d code")
    case None
    with po assms(1) iss show ?thesis by (auto simp: dev_inv_def)
  next
    case (Some x)
    show ?thesis
    proof (cases "dv_status x = deviceStatusPending")
      case True
      with po Some obtain y where y: "same_grant y x" "dev_view d' = (dev_view d)(code \<mapsto> y)" "failure = [] \<longrightarrow> da = y" "dev_ok d'"
        by auto
      have "dev_inv d' log"
        by (rule dev_inv_step [OF assms(1) y(4)]) (use y(1,2) Some in \<open>auto simp: same_grant_def split: if_splits\<close>)
      moreover have "failure = [] \<Longrightarrow> dv_status da \<noteq> deviceStatusApproved" using y(1,3) True ne by (simp add: same_grant_def)
      ultimately show ?thesis by auto
    next
      case False
      with po Some have p: "da = x" "failure = []" "dev_view d' = (dev_view d)(code := None)" "dev_ok d'" "err = None" by auto
      have i: "dev_inv d' log"
        by (rule dev_inv_step [OF assms(1) p(4)]) (auto simp: p(3) split: if_splits)
      show ?thesis
      proof (cases "dv_status da = deviceStatusApproved")
        case True
        from tr [OF Some] obtain l da0 z where "log = l @ Created da0 # z" "dv_deviceCode da0 = code"
            "dv_userCode da0 = dv_userCode x" "dv_expiresAt da0 = dv_expiresAt x" "unissued code l"
            "dv_status x = deviceStatusApproved \<longrightarrow> Approved (dv_userCode x) (dv_subject x) (dv_roles x) \<in> set l"
          unfolding traced_def by blast
        with True p(1) assms(3) [OF Some] have "authorized code (dv_subject da) (dv_roles da) now log"
          unfolding authorized_def by (intro exI [of _ l] exI [of _ da0] exI [of _ z]) simp
        moreover have "traced (Issued code (dv_subject da) (dv_roles da) now # log) c y" if "dev_view d' c = Some y" for c y
          using that i p(3) by (intro traced_later) (auto simp: dev_inv_def unissued_def split: if_splits)
        ultimately show ?thesis using p i iss True by (simp add: dev_inv_def)
      qed (use i in simp)
    qed
  qed
qed

lemma dev_reach_inv:
  assumes "dev_reach s d log" "dvs_backend s = None"
  shows "dev_inv d log"
  using assms(1)
proof (induction rule: dev_reach.induct)
  case start
  show ?case by (simp add: dev_inv_def)
next
  case (create d log drawn1 drawn2 now clock env w r d' w')
  show ?case
  proof (cases "d' = d \<and> (\<exists>e. r = Inl e)")
    case True
    with create.IH show ?thesis by auto
  next
    case False
    with create.hyps(2) obtain u c where codes: "generateUserCode drawn1 = Inr u" "generateDeviceCode drawn2 = Inr c"
      by (auto simp: device_create_def split: sum.splits)
    define da where "da = zero_device\<lparr>dv_deviceCode := c, dv_userCode := u, dv_status := deviceStatusPending,
      dv_expiresAt := now + dvs_ttl s\<rparr>"
    obtain err d1 where ch: "create_change da (clock 15) () (sweep (clock 15) (ds_byDevice d) d) = ((), err, d1)"
      by (cases "create_change da (clock 15) () (sweep (clock 15) (ds_byDevice d) d)") auto
    have r: "r = (case err of None \<Rightarrow> Inr da | Some e \<Rightarrow> Inl e)" "d' = d1"
      using create.hyps(2) codes ch
      by (auto simp: device_create_def transact_memory assms(2) swept_change_def da_def [symmetric] Let_def split: option.splits)
    have "dv_status da = deviceStatusPending" by (simp add: da_def)
    from dev_inv_create [OF dev_inv_sweep [OF create.IH] ch this] show ?thesis by (cases err) (simp_all add: r)
  qed
next
  case (approve d log clock env code subject roles w ok d' w')
  obtain ok' err d1 where ch: "approve_change code subject roles (clock 15) False (sweep (clock 15) (ds_byDevice d) d) = (ok', err, d1)"
    by (cases "approve_change code subject roles (clock 15) False (sweep (clock 15) (ds_byDevice d) d)") auto
  have ok: "dev_ok d" using approve.IH by (simp add: dev_inv_def)
  have "err = None" using resolve_change_ok(2) [OF sweep_ok(1) [OF ok] ch [unfolded approve_change_def]] by simp
  then have "ok = ok'" "d' = d1"
    using approve.hyps(2) ch by (simp_all add: approve_def transact_memory assms(2) swept_change_def)
  with dev_inv_resolve [OF dev_inv_sweep [OF approve.IH] ch [unfolded approve_change_def], of "Approved code subject roles"]
  show ?case by (simp add: unissued_def)
next
  case (deny d log clock env code w ok d' w')
  obtain ok' err d1 where ch: "deny_change code (clock 15) False (sweep (clock 15) (ds_byDevice d) d) = (ok', err, d1)"
    by (cases "deny_change code (clock 15) False (sweep (clock 15) (ds_byDevice d) d)") auto
  have ok: "dev_ok (sweep (clock 15) (ds_byDevice d) d)" using deny.IH sweep_ok(1) by (simp add: dev_inv_def)
  have "d' = d1" using deny.hyps(2) ch by (simp add: deny_def transact_memory assms(2) swept_change_def)
  with resolve_change_ok(1,3) [OF ok ch [unfolded deny_change_def]] show ?case
    by (intro dev_inv_step [OF dev_inv_sweep [OF deny.IH]])
      (auto simp: deviceStatusDenied_def deviceStatusApproved_def split: option.splits if_splits)
next
  case (remove d log clock env code w d' w')
  obtain err d1 where ch: "delete_change code (clock 15) () (sweep (clock 15) (ds_byDevice d) d) = ((), err, d1)"
    by (cases "delete_change code (clock 15) () (sweep (clock 15) (ds_byDevice d) d)") auto
  have ok: "dev_ok (sweep (clock 15) (ds_byDevice d) d)" using remove.IH sweep_ok(1) by (simp add: dev_inv_def)
  have "d' = d1" using remove.hyps(2) ch by (simp add: device_delete_def transact_memory assms(2) swept_change_def)
  with delete_change_ok [OF ok ch] show ?case
    by (intro dev_inv_step [OF dev_inv_sweep [OF remove.IH]]) (auto split: if_splits)
next
  case (look d log clock env code w out d' w')
  have "d' = sweep (clock 15) (ds_byDevice d) d"
    using look.hyps(2)
    by (auto simp: byDeviceCode_def byDeviceCode_change_def transact_memory assms(2) swept_change_def split: option.splits)
  with dev_inv_sweep [OF look.IH] show ?case by simp
next
  case (poll d log clock env code w da failure err d' w')
  obtain da' f e d1 where ch: "poll_change code (clock 15) (zero_device, []) (sweep (clock 15) (ds_byDevice d) d) = ((da', f), e, d1)"
    by (metis prod.exhaust)
  have eqs: "da = da'" "failure = f" "err = e" "d' = d1"
    using poll.hyps(2) ch by (simp_all add: poll_def transact_memory assms(2) swept_change_def)
  have "clock 15 < dv_expiresAt x" if "dev_view (sweep (clock 15) (ds_byDevice d) d) c = Some x" for c x
    using that poll.IH sweep_ok(2) [of d "clock 15"] by (auto simp: dev_inv_def unexpired_def split: option.splits if_splits)
  from dev_inv_poll [OF dev_inv_sweep [OF poll.IH] ch this] show ?case unfolding eqs .
next
  case (copy d log d')
  then show ?case by (simp add: dev_inv_def)
qed


subsection \<open>Sharing the store between instances\<close>

text \<open>What the code relies on of the JSON package: a map of authorizations is read back as written.\<close>

definition lawful_device_codec :: "device_codec \<Rightarrow> bool" where
  "lawful_device_codec c = (\<forall>m v. distinct (map fst m) \<longrightarrow> dc_marshal c m = Some v \<longrightarrow>
     v \<noteq> [] \<and> (\<exists>m'. dc_unmarshal c v = Some m' \<and> distinct (map fst m') \<and> map_of m' = map_of m))"

definition user_index :: "(nat \<times> device_auth) list \<Rightarrow> (string \<times> nat) list" where
  "user_index l = fold (\<lambda>(a, da). AList.update (dv_userCode da) a) l []"

lemma user_index_snoc: "user_index (l @ [(a, da)]) = AList.update (dv_userCode da) a (user_index l)"
  by (simp add: user_index_def)

lemma user_index_Some: "map_of (user_index l) u = Some a \<Longrightarrow> \<exists>da. (a, da) \<in> set l \<and> dv_userCode da = u"
proof (induction l rule: rev_induct)
  case (snoc x l)
  obtain b da where x: "x = (b, da)" by fastforce
  show ?case
  proof (cases "dv_userCode da = u")
    case True
    with snoc.prems x show ?thesis by (auto simp: user_index_snoc update_conv')
  next
    case False
    with snoc x show ?thesis by (auto simp: user_index_snoc update_conv')
  qed
qed (simp add: user_index_def)

lemma user_index_None: "map_of (user_index l) u = None \<Longrightarrow> (a, da) \<in> set l \<Longrightarrow> dv_userCode da \<noteq> u"
proof (induction l rule: rev_induct)
  case (snoc x l)
  obtain b db where x: "x = (b, db)" by fastforce
  from snoc.prems(1) have "dv_userCode db \<noteq> u" "map_of (user_index l) u = None"
    by (auto simp: x user_index_snoc update_conv' split: if_splits)
  with snoc x show ?case by auto
qed (simp add: user_index_def)

lemma loaded_ok:
  assumes "distinct (map fst m)" "\<forall>c da. map_of m c = Some da \<longrightarrow> dv_deviceCode da = c"
    and "\<forall>c c' da da'. map_of m c = Some da \<longrightarrow> map_of m c' = Some da' \<longrightarrow> dv_userCode da = dv_userCode da' \<longrightarrow> c = c'"
  shows "dev_ok (loaded m)" "dev_view (loaded m) = map_of m"
proof -
  let ?l = "zip [0..<length m] (map snd m)"
  have pos: "map_of (ds_byDevice (loaded m)) c = Some a \<longleftrightarrow> a < length m \<and> fst (m ! a) = c" for c a
  proof -
    have "distinct (map fst (zip (map fst m) [0..<length m]))" using assms(1) by simp
    then have "map_of (ds_byDevice (loaded m)) c = Some a \<longleftrightarrow> (c, a) \<in> set (zip (map fst m) [0..<length m])"
      by (simp add: loaded_def)
    also have "\<dots> \<longleftrightarrow> a < length m \<and> fst (m ! a) = c" by (auto simp: in_set_zip intro!: exI [of _ a])
    finally show ?thesis .
  qed
  have mem: "a < length m \<Longrightarrow> map_of m (fst (m ! a)) = Some (snd (m ! a))" for a
    using assms(1) by (simp add: map_of_eq_Some_iff)
  have l: "(a, da) \<in> set ?l \<longleftrightarrow> a < length m \<and> da = snd (m ! a)" for a da
    by (auto simp: in_set_zip intro!: exI [of _ a])
  have u: "ds_byUser (loaded m) = user_index ?l" by (simp add: loaded_def user_index_def)
  have heap: "a < length m \<Longrightarrow> ds_heap (loaded m) ! a = snd (m ! a)" "length (ds_heap (loaded m)) = length m" for a
    by (simp_all add: loaded_def)
  show "dev_ok (loaded m)"
  proof (rule dev_okI)
    show "distinct (map fst (ds_byDevice (loaded m)))" using assms(1) by (simp add: loaded_def)
  next
    fix c a
    assume "map_of (ds_byDevice (loaded m)) c = Some a"
    then have a: "a < length m" "fst (m ! a) = c" by (simp_all add: pos)
    have "map_of (user_index ?l) (dv_userCode (snd (m ! a))) \<noteq> None"
      using user_index_None [of ?l _ a "snd (m ! a)"] a(1) by (auto simp: l)
    then obtain b where b: "map_of (user_index ?l) (dv_userCode (snd (m ! a))) = Some b" by auto
    from user_index_Some [OF b] have "b < length m" "dv_userCode (snd (m ! b)) = dv_userCode (snd (m ! a))" by (auto simp: l)
    with mem [of a] mem [of b] assms(3) a(1) have "fst (m ! b) = fst (m ! a)" by blast
    with \<open>b < length m\<close> a(1) assms(1) have "b = a" by (simp add: distinct_conv_nth) (metis nth_map)
    with b a heap mem [OF a(1)] assms(2) show "a < length (ds_heap (loaded m)) \<and> dv_deviceCode (ds_heap (loaded m) ! a) = c \<and>
        map_of (ds_byUser (loaded m)) (dv_userCode (ds_heap (loaded m) ! a)) = Some a"
      by (simp add: u)
  next
    fix v a
    assume "map_of (ds_byUser (loaded m)) v = Some a"
    from user_index_Some [OF this [unfolded u]] heap show "a < length (ds_heap (loaded m)) \<and> dv_userCode (ds_heap (loaded m) ! a) = v"
      by (auto simp: l)
  qed
  show "dev_view (loaded m) = map_of m"
  proof
    fix c
    show "dev_view (loaded m) c = map_of m c"
    proof (cases "map_of (ds_byDevice (loaded m)) c")
      case None
      have "c \<notin> fst ` set m"
      proof
        assume "c \<in> fst ` set m"
        then obtain a where "a < length m" "fst (m ! a) = c" by (auto simp: in_set_conv_nth)
        with pos None show False by (metis option.distinct(1))
      qed
      then have "map_of m c = None" by (simp add: map_of_eq_None_iff)
      with None show ?thesis by (simp add: dev_view_def)
    next
      case (Some a)
      with pos have "a < length m" "fst (m ! a) = c" by blast+
      with Some mem [of a] heap show ?thesis by (simp add: dev_view_def)
    qed
  qed
qed

lemma entries_ok:
  assumes "dev_ok d"
  shows "distinct (map fst (entries d))" "map_of (entries d) = dev_view d"
proof -
  have "map fst (entries d) = map fst (ds_byDevice d)" by (auto simp: entries_def)
  then show "distinct (map fst (entries d))" using assms by (simp add: dev_ok_def)
  show "map_of (entries d) = dev_view d"
    by (simp add: entries_def dev_view_def fun_eq_iff map_of_map)
qed

text \<open>Saving the authorizations and loading them again, here or elsewhere, changes nothing.\<close>

lemma save_load:
  assumes "lawful_device_codec codec" "dev_ok d" "dc_marshal codec (entries d) = Some v"
  shows "\<exists>m. v \<noteq> [] \<and> dc_unmarshal codec v = Some m \<and> dev_ok (loaded m) \<and> dev_view (loaded m) = dev_view d"
proof -
  from assms entries_ok [OF assms(2)] obtain m where
    m: "v \<noteq> []" "dc_unmarshal codec v = Some m" "distinct (map fst m)" "map_of m = dev_view d"
    unfolding lawful_device_codec_def by metis
  have code: "dv_deviceCode da = c" if "dev_view d c = Some da" for c da
    using that dev_okD(2) [OF assms(2)] by (auto simp: dev_view_def)
  have "c = c'" if "dev_view d c = Some da" "dev_view d c' = Some da'" "dv_userCode da = dv_userCode da'" for c c' da da'
  proof -
    from that(1,2) obtain a a' where a: "map_of (ds_byDevice d) c = Some a" "da = ds_heap d ! a"
        "map_of (ds_byDevice d) c' = Some a'" "da' = ds_heap d ! a'" by (auto simp: dev_view_def)
    have "map_of (ds_byUser d) (dv_userCode da) = Some a" "map_of (ds_byUser d) (dv_userCode da') = Some a'"
      using dev_okD(3) [OF assms(2) a(1)] dev_okD(3) [OF assms(2) a(3)] unfolding a(2,4) by blast+
    with that(3) have "a = a'" by (metis option.inject)
    with code [OF that(1)] code [OF that(2)] a(2,4) show ?thesis by metis
  qed
  then have "dev_ok (loaded m)" "dev_view (loaded m) = map_of m"
    using loaded_ok [OF m(3)] code unfolding m(4) by blast+
  with m show ?thesis by auto
qed

definition shared_good :: "device_codec \<Rightarrow> fsys \<Rightarrow> bool" where
  "shared_good codec w = (wf_fs w \<and> (case file_abs w (''idp'', ''device-authorizations'') of
     None \<Rightarrow> True
   | Some v \<Rightarrow> v \<noteq> [] \<and> (\<exists>m. dc_unmarshal codec v = Some m \<and> dev_ok (loaded m))))"

definition shared_devices :: "device_codec \<Rightarrow> fsys \<Rightarrow> device_store" where
  "shared_devices codec w = the (load_devices codec (file_abs w (''idp'', ''device-authorizations'')))"

lemma shared_load:
  "shared_good codec w \<Longrightarrow> load_devices codec (file_abs w (''idp'', ''device-authorizations'')) = Some (shared_devices codec w) \<and>
    dev_ok (shared_devices codec w)"
  by (auto simp: shared_good_def shared_devices_def load_devices_def split: option.splits)

lemma plain_device_key [simp]: "plain ''idp''" "plain ''device-authorizations''"
  by code_simp+

lemma swept_ok:
  assumes "\<forall>now out d. dev_ok d \<longrightarrow> dev_ok (snd (snd (change now out d)))" "dev_ok d" "swept_change change now out d = (out', err, d')"
  shows "dev_ok d'"
  using assms(1) sweep_ok(1) [OF assms(2), of now] assms(3) unfolding swept_change_def by (metis snd_conv)

lemma attempt_atomic:
  assumes "lawful_device_codec codec" "shared_good codec w" "\<And>v. shared_good codec v \<Longrightarrow> shared_good codec (env v)"
    and "\<forall>now out d. dev_ok d \<longrightarrow> dev_ok (snd (snd (change now out d)))"
    and "transact_attempt (FileStore no_faults) codec now env change out d w = r"
  shows "case r of
      Inl (out', None, d', w') \<Rightarrow> shared_good codec w' \<and> (\<exists>wb. shared_good codec wb \<and>
        swept_change change now out (shared_devices codec wb) = (out', None, d') \<and>
        dev_view (shared_devices codec w') = dev_view d' \<and>
        (\<forall>k. k \<noteq> (''idp'', ''device-authorizations'') \<longrightarrow> file_abs w' k = file_abs wb k))
    | Inl (out', Some e, d', w') \<Rightarrow> shared_good codec w'
    | Inr (out', d', w') \<Rightarrow> shared_good codec w'"
proof -
  let ?K = "(''idp'', ''device-authorizations'')"
  have fs: "wf_fs w" "wf_fs (env w)" using assms(2) assms(3) [OF assms(2)] by (auto simp: shared_good_def)
  have get: "st_get (FileStore no_faults) w device_key = (case file_abs w ?K of None \<Rightarrow> Inl ErrNotFound | Some v \<Rightarrow> Inr v)"
    using fstore.get_law [OF fs(1), of "''idp''" "''device-authorizations''"] by (simp add: device_key_def)
  obtain out' err d1 where ch: "swept_change change now out (shared_devices codec w) = (out', err, d1)" by (metis prod.exhaust)
  note ld = shared_load [OF assms(2)]
  have ok1: "dev_ok d1" by (rule swept_ok [OF assms(4) _ ch]) (use ld in simp)
  show ?thesis
  proof (cases "err \<noteq> None \<or> dc_marshal codec (entries d1) = None")
    case True
    then have "\<exists>e d'. r = Inl (out', Some e, d', w)"
      using assms(5) ld ch by (auto simp: transact_attempt_def get Let_def split: option.splits)
    with assms(2) show ?thesis by auto
  next
    case False
    then obtain v where v: "err = None" "dc_marshal codec (entries d1) = Some v" by auto
    from save_load [OF assms(1) ok1 v(2)] obtain m where
      m: "v \<noteq> []" "dc_unmarshal codec v = Some m" "dev_ok (loaded m)" "dev_view (loaded m) = dev_view d1" by blast
    have "file_abs w ?K \<noteq> Some []" using assms(2) by (auto simp: shared_good_def)
    from fstore.cas_law [OF fs(2) plain_device_key this, of v] obtain w' where
      w': "st_cas (FileStore no_faults) (env w) device_key (file_abs w ?K) v = (Inr (file_abs (env w) ?K = file_abs w ?K), w')"
        "wf_fs w'" "file_abs w' = (if file_abs (env w) ?K = file_abs w ?K then (file_abs (env w))(?K \<mapsto> v) else file_abs (env w))"
      unfolding device_key_def by blast
    have r: "r = (if file_abs (env w) ?K = file_abs w ?K then Inl (out', None, d1, w') else Inr (out', d1, w'))"
      using assms(5) ld ch v w'(1) by (auto simp: transact_attempt_def get Let_def split: option.splits bool.splits)
    show ?thesis
    proof (cases "file_abs (env w) ?K = file_abs w ?K")
      case True
      have "shared_devices codec (env w) = shared_devices codec w" by (simp add: shared_devices_def True)
      moreover have "shared_good codec w'" using w'(2,3) True m by (simp add: shared_good_def)
      moreover have "shared_devices codec w' = loaded m" using w'(3) True m by (simp add: shared_devices_def load_devices_def)
      ultimately show ?thesis
        using r True ch v(1) m(4) w'(3) assms(3) [OF assms(2)] by (auto intro!: exI [of _ "env w"])
    next
      case False
      have "shared_good codec w'" using assms(3) [OF assms(2)] w'(2,3) False by (simp add: shared_good_def)
      with r False show ?thesis by simp
    qed
  qed
qed

lemma transact_loop_atomic:
  assumes "lawful_device_codec codec" "shared_good codec w" "\<forall>i v. shared_good codec v \<longrightarrow> shared_good codec (env i v)"
    and "\<forall>now out d. dev_ok d \<longrightarrow> dev_ok (snd (snd (change now out d)))"
    and "transact_loop n (Some (FileStore no_faults)) codec clock env change out d w = (out', err, d', w')"
  shows "shared_good codec w' \<and> (err = None \<longrightarrow> (\<exists>i<n. \<exists>wb out0. shared_good codec wb \<and>
    swept_change change (clock i) out0 (shared_devices codec wb) = (out', None, d') \<and>
    dev_view (shared_devices codec w') = dev_view d' \<and>
    (\<forall>k. k \<noteq> (''idp'', ''device-authorizations'') \<longrightarrow> file_abs w' k = file_abs wb k)))"
  using assms(2,5)
proof (induction n arbitrary: out d w)
  case 0
  then show ?case by auto
next
  case (Suc n)
  let ?r = "transact_attempt (FileStore no_faults) codec (clock n) (env n) change out d w"
  have env: "\<And>v. shared_good codec v \<Longrightarrow> shared_good codec (env n v)" using assms(3) by blast
  note at = attempt_atomic [where now = "clock n" and env = "env n" and out = out and d = d,
      OF assms(1) Suc.prems(1) env assms(4) refl]
  show ?case
  proof (cases ?r)
    case (Inl x)
    with Suc.prems(2) have "x = (out', err, d', w')" by simp
    with at Inl show ?thesis by (cases err) (simp_all, blast)
  next
    case (Inr x)
    obtain o1 d1 w1 where x: "x = (o1, d1, w1)" by (metis prod.exhaust)
    with at Inr have "shared_good codec w1" by simp
    from Suc.IH [OF this, of o1 d1] Suc.prems(2) Inr x show ?thesis
      by (auto intro: less_SucI)
  qed
qed

lemma changes_ok:
  "\<forall>now out d. dev_ok d \<longrightarrow> dev_ok (snd (snd (create_change da now out d)))"
  "\<forall>now out d. dev_ok d \<longrightarrow> dev_ok (snd (snd (approve_change code subject roles now out d)))"
  "\<forall>now out d. dev_ok d \<longrightarrow> dev_ok (snd (snd (deny_change code now out d)))"
  "\<forall>now out d. dev_ok d \<longrightarrow> dev_ok (snd (snd (delete_change code now out d)))"
  "\<forall>now out d. dev_ok d \<longrightarrow> dev_ok (snd (snd (poll_change code now out d)))"
proof -
  show "\<forall>now out d. dev_ok d \<longrightarrow> dev_ok (snd (snd (create_change da now out d)))"
    by (metis create_change_ok(1) prod.collapse)
  have res: "dev_ok (snd (snd (resolve_change f code now out d)))"
    if "dev_ok d" "\<And>da. dv_deviceCode (f da) = dv_deviceCode da \<and> dv_userCode (f da) = dv_userCode da" for f code now out d
    using resolve_change_ok(1) [OF that(1) _ that(2)] by (metis prod.collapse)
  show "\<forall>now out d. dev_ok d \<longrightarrow> dev_ok (snd (snd (approve_change code subject roles now out d)))"
    "\<forall>now out d. dev_ok d \<longrightarrow> dev_ok (snd (snd (deny_change code now out d)))"
    by (simp_all add: approve_change_def deny_change_def res)
  show "\<forall>now out d. dev_ok d \<longrightarrow> dev_ok (snd (snd (delete_change code now out d)))"
    by (metis delete_change_ok(1) prod.collapse)
  show "\<forall>now out d. dev_ok d \<longrightarrow> dev_ok (snd (snd (poll_change code now out d)))"
    using poll_change_ok by (metis prod.collapse)
qed


subsection \<open>Examples\<close>

definition demo_service :: "unit device_service" where
  "demo_service = \<lparr>dvs_backend = None, dvs_codec = \<lparr>dc_marshal = (\<lambda>m. None), dc_unmarshal = (\<lambda>v. None)\<rparr>, dvs_ttl = 100\<rparr>"

definition demo_device :: device_auth where
  "demo_device = zero_device\<lparr>dv_deviceCode := ''01'', dv_userCode := ''ABCD-EFGH'', dv_status := deviceStatusPending, dv_expiresAt := 100\<rparr>"

definition demo_approved :: device_auth where
  "demo_approved = demo_device\<lparr>dv_status := deviceStatusApproved, dv_subject := ''alice'', dv_roles := [''admin'']\<rparr>"

lemma demo_flow:
  "device_create demo_service (Some [0, 1, 2, 3, 4, 5, 6, 7]) (Some [1]) 0 (\<lambda>_. 0) (\<lambda>_ w. w) newDeviceStore () =
    (Inr demo_device, \<lparr>ds_heap = [demo_device], ds_byUser = [(''ABCD-EFGH'', 0)], ds_byDevice = [(''01'', 0)]\<rparr>, ())"
  "approve demo_service (\<lambda>_. 1) (\<lambda>_ w. w) ''ABCD-EFGH'' ''alice'' [''admin'']
     \<lparr>ds_heap = [demo_device], ds_byUser = [(''ABCD-EFGH'', 0)], ds_byDevice = [(''01'', 0)]\<rparr> () =
    (True, \<lparr>ds_heap = [demo_approved], ds_byUser = [(''ABCD-EFGH'', 0)], ds_byDevice = [(''01'', 0)]\<rparr>, ())"
  "poll demo_service (\<lambda>_. 2) (\<lambda>_ w. w) ''01''
     \<lparr>ds_heap = [demo_approved], ds_byUser = [(''ABCD-EFGH'', 0)], ds_byDevice = [(''01'', 0)]\<rparr> () =
    ((demo_approved, [], None), \<lparr>ds_heap = [demo_approved], ds_byUser = [], ds_byDevice = []\<rparr>, ())"
  by code_simp+


definition demo_json :: device_codec where
  "demo_json = \<lparr>dc_marshal = (\<lambda>m. if m = [] then Some [0] else None), dc_unmarshal = (\<lambda>v. if v = [0] then Some [] else None)\<rparr>"


end
