(* ===== verification/Spec2Isabelle.thy ===== *)
theory Spec2Isabelle
  imports Resource Store Sha256 Registry Iam Auth Pagination Handler Lease Machine TrafficKinds Admission SchedulerLaws Idp
begin

text \<open>
  A verification development for the infrastructure control plane: a store of typed
  resources with an HTTP interface, controllers that act on what is stored, and a
  micro-VM hypervisor. File names below are relative to \<^verbatim>\<open>src/\<close>.

  \<^bold>\<open>The program and its parts.\<close> Clients send requests to an API server. A request is
  authenticated (\<^verbatim>\<open>internal/auth\<close>), handled by the generic handler of its kind
  (\<^verbatim>\<open>internal/handler\<close>), authorized by the bindings on its project and the folders
  above (\<^verbatim>\<open>internal/iam\<close>), defaulted and validated by the kind
  (\<^verbatim>\<open>internal/domain/resource\<close>), and written by the typed registry
  (\<^verbatim>\<open>internal/registry\<close>) with a compare-and-swap on the byte store
  (\<^verbatim>\<open>internal/state\<close>). A controller manager elects one leader by a lease kept in the
  same store and runs the schedulers (\<^verbatim>\<open>internal/controllers\<close>), which place
  workloads on the nodes whose agents send heartbeats (\<^verbatim>\<open>internal/manager\<close>). A
  placed micro-VM runs in the hypervisor (\<^verbatim>\<open>internal/hypervisor\<close>), whose virtio
  devices serve queues in guest memory.

  \<^bold>\<open>Conventions.\<close> A Go interface is a record of functions and a call through it a
  function application. State is passed explicitly: the world of the store operations is
  a type parameter, instantiated by the file tree \<open>fsys\<close>. An error is a value of the
  datatype \<open>error\<close> in the left summand of a \<open>result\<close>; a run-time panic is the value
  \<open>Panic\<close> of an \<open>outcome\<close>. Go's \<^verbatim>\<open>int\<close> is \<open>int\<close> with \<open>i64\<close> around arithmetic that can
  overflow, fixed-width unsigned integers are words, \<^verbatim>\<open>float64\<close> is the type of
  \<open>Float64\<close>, instants are integers counting nanoseconds and every reading of a clock is
  an argument. Encoding a resource as JSON is reflection over the type and so a
  parameter, the record \<open>codec\<close>; what the code relies on, that decoding inverts
  encoding, is \<open>lawful_codec\<close>, and \<open>table_codec\<close> has it.

  \<^bold>\<open>Theories.\<close>
  \<^item> \<open>Prelude\<close>: errors, panics, 64-bit wrap-around, strings, association-list maps,
    little-endian bytes.
  \<^item> \<open>Store\<close>: \<^verbatim>\<open>state/store.go\<close>, \<^verbatim>\<open>context.go\<close>, \<^verbatim>\<open>file_store.go\<close>. The locale
    \<open>kv_store\<close> is the contract of a store; the file store is a function of the file tree
    and of an oracle for failing system calls, and interprets it. Shown: it refines a
    finite map, a put is atomic under faults, keys stay inside the base directory.
  \<^item> \<open>Sha256\<close>: the digest behind revisions.
  \<^item> \<open>Resource\<close>: \<^verbatim>\<open>resource.go\<close>, \<^verbatim>\<open>condition.go\<close>, \<^verbatim>\<open>phase.go\<close>: the envelope of every kind.
  \<^item> \<open>Registry\<close>: \<^verbatim>\<open>registry.go\<close>. Locale \<open>typed_registry\<close> extends \<open>kv_store\<close>; its
    lemmas describe the stored resources as a finite map from uids. A put is split at its
    compare-and-swap so that other writers can act in between: no update is lost.
  \<^item> \<open>Iam\<close>: the bindings and hierarchy kinds, \<^verbatim>\<open>role.go\<close>, \<^verbatim>\<open>resolve.go\<close>,
    \<^verbatim>\<open>authorizer.go\<close>, \<^verbatim>\<open>registry_lookup.go\<close>. Access is decided exactly by the chain
    of parents; the per-request cache changes no answer.
  \<^item> \<open>Auth\<close>: tokens, JWT and introspection authenticators, their chain, the middleware.
  \<^item> \<open>Pagination\<close>, \<open>Handler\<close>: \<^verbatim>\<open>pagination.go\<close>, \<^verbatim>\<open>handler.go\<close>: the four verbs with
    their authorization and reference checks. Shown: what an update keeps, what a create
    starts with, that refused requests change nothing, that references stay in scope,
    that lists show exactly what is readable and page through it completely.
  \<^item> \<open>Float64\<close>, \<open>Kinds\<close>, \<open>TrafficKinds\<close>: the specs, defaults and checks of the kinds,
    with idempotence of defaults and stability of checks under them. \<open>Admission\<close> joins
    them with the handler: what an accepted compute is limited to.
  \<^item> \<open>Lease\<close>: \<^verbatim>\<open>lease.go\<close>. The store calls of any number of contenders interleave in
    the step relation \<open>election_step\<close>; at most one holder has an unexpired lease.
  \<^item> \<open>Clock\<close>: RFC 3339 text of instants, with its round trip. \<open>Placement\<close>:
    \<^verbatim>\<open>internal/scheduler\<close>, the four schedulers of \<^verbatim>\<open>internal/controllers\<close> and
    \<^verbatim>\<open>heartbeat.go\<close>; one pass is written over the accessors of a kind and each
    controller instantiates it. \<open>PlacementLaws\<close>: the locale \<open>placement\<close> with the laws of
    a pass. \<open>SchedulerLaws\<close>: its interpretation for the four kinds over the file store,
    and what a whole pass of the compute scheduler does: workloads move only off dead
    nodes and onto live nodes of their pool, and no node is filled past its capacity.
  \<^item> \<open>VirtQueue\<close>, \<open>Transport\<close>, \<open>Blk\<close>, \<open>Net\<close>, \<open>Uart\<close>, \<open>Machine\<close>: guest memory and the
    split queue, the register window, the block and network devices, the serial port,
    and the dispatch of exits to them. Guest memory is one byte list, so segments may
    alias as they do in the code. Shown: requests are served in order and once, within
    guest memory; what a guest can and cannot change; reads and writes round-trip; a
    read-only disk never changes; windows are disjoint.

  \<^bold>\<open>Bounds and fuel.\<close> \<open>ScopeChain\<close> follows at most \<open>maxChainDepth\<close> = 64 parents and a
  descriptor chain has at most 1024 segments, both as in the code. \<open>fetch_all\<close> follows
  continuation tokens with as many steps as there are items, which is shown to be enough.
  The loops that drain a queue take their fuel as an argument and answer \<open>Running\<close> when it
  is used up: the ring index has 16 bits, so fewer than 65536 requests are ahead of the
  device, and \<open>Blk\<close> shows that 65536 is enough as long as the device does not write the
  index.
  \<open>trim_left\<close> removes at most as many spaces as the string has characters. The root
  search in the constants of SHA-256 and the search of a binary search run down an
  interval. \<open>format_rfc3339\<close> is for years 0 to 9999, as the format is. That no node is
  overcommitted is stated for at most \<open>2 ^ 40\<close> stored computes, so that the code's sums
  do not wrap.

  \<^bold>\<open>Not modelled.\<close> The etcd and PostgreSQL stores are adapters over clients outside the
  repository; their contract is \<open>kv_store\<close>. KVM ioctls, tap devices, netlink, nftables,
  iproute2, containerd, cgroups, sockets, HTTP transport and command-line wiring are
  effects on the kernel or the network that no value of the program describes. Secrets,
  certificates, identity provider keys and the transport security call the cryptography
  of the standard library. The Terraform provider is schema tables for a third-party
  framework.
\<close>

end
